(* ===== verification/Prelude.thy ===== *)
theory Prelude
  imports Main "HOL-Library.Word" "HOL-Library.FSet" "HOL-Library.Char_ord"
    "HOL-Library.List_Lexorder" "HOL-Library.Option_ord" "HOL-Library.Product_Lexorder"
    "HOL-Library.Sublist"
begin

text \<open>
  Shared vocabulary of the development.

  \<^item> \<open>outcome\<close>: what a Rust call can do. \<open>Ok\<close> and \<open>Err\<close> are the two sides of \<open>Result\<close>,
    \<open>Panic\<close> is an unwinding panic (an out-of-range index, \<open>expect\<close> on \<open>None\<close>,
    \<open>unreachable!\<close>), \<open>Diverge\<close> is a recursion that does not return (the value a
    fuel-bounded model takes when its fuel is spent). \<open>bind_o\<close> is the \<open>?\<close> operator,
    \<open>try_fold\<close> and \<open>for_each\<close> are the loops whose body uses it.
  \<^item> \<open>btmap\<close>: \<open>std::collections::BTreeMap\<close>, an association list kept strictly sorted by key,
    so that iteration order and equality are those of the source. \<open>BTreeSet\<close> is the
    library's \<open>fset\<close>, iterated through \<open>sorted_list_of_fset\<close>.
  \<^item> strings are the UTF-8 bytes of a Rust \<open>String\<close>; the byte order of
    \<open>List_Lexorder\<close> is the order of \<open>str\<close>, and \<open>length\<close> is \<open>str::len\<close>.
\<close>

named_theorems outcome_simps \<open>inversion of successful monadic runs\<close>
named_theorems bt_simps \<open>evaluation of ordered maps\<close>

section \<open>Outcomes of fallible code\<close>

datatype ('e, 'a) outcome = Ok 'a | Err 'e | Panic | Diverge

fun bind_o :: "('e, 'a) outcome \<Rightarrow> ('a \<Rightarrow> ('e, 'b) outcome) \<Rightarrow> ('e, 'b) outcome" where
  "bind_o (Ok x) f = f x"
| "bind_o (Err e) f = Err e"
| "bind_o Panic f = Panic"
| "bind_o Diverge f = Diverge"

fun map_err :: "('e \<Rightarrow> 'f) \<Rightarrow> ('e, 'a) outcome \<Rightarrow> ('f, 'a) outcome" where
  "map_err g (Ok x) = Ok x"
| "map_err g (Err e) = Err (g e)"
| "map_err g Panic = Panic"
| "map_err g Diverge = Diverge"

definition ok_or :: "'a option \<Rightarrow> 'e \<Rightarrow> ('e, 'a) outcome" where
  "ok_or v e = (case v of None \<Rightarrow> Err e | Some x \<Rightarrow> Ok x)"

definition expect :: "'a option \<Rightarrow> ('e, 'a) outcome" where
  "expect v = (case v of None \<Rightarrow> Panic | Some x \<Rightarrow> Ok x)"

definition ensure :: "bool \<Rightarrow> 'e \<Rightarrow> ('e, unit) outcome" where
  "ensure b e = (if b then Ok () else Err e)"

fun try_fold :: "('s \<Rightarrow> 'x \<Rightarrow> ('e, 's) outcome) \<Rightarrow> 's \<Rightarrow> 'x list \<Rightarrow> ('e, 's) outcome" where
  "try_fold f s [] = Ok s"
| "try_fold f s (x # xs) = bind_o (f s x) (\<lambda>s'. try_fold f s' xs)"

definition for_each :: "('x \<Rightarrow> ('e, unit) outcome) \<Rightarrow> 'x list \<Rightarrow> ('e, unit) outcome" where
  "for_each f xs = try_fold (\<lambda>_ x. f x) () xs"

lemma bind_o_Ok [outcome_simps]: "bind_o r f = Ok y \<longleftrightarrow> (\<exists>x. r = Ok x \<and> f x = Ok y)"
  by (cases r) auto

lemma bind_o_Err: "bind_o r f = Err e \<longleftrightarrow> r = Err e \<or> (\<exists>x. r = Ok x \<and> f x = Err e)"
  by (cases r) auto

lemma bind_o_Panic: "bind_o r f = Panic \<longleftrightarrow> r = Panic \<or> (\<exists>x. r = Ok x \<and> f x = Panic)"
  by (cases r) auto

lemma bind_o_Diverge: "bind_o r f = Diverge \<longleftrightarrow> r = Diverge \<or> (\<exists>x. r = Ok x \<and> f x = Diverge)"
  by (cases r) auto

lemma bind_o_assoc: "bind_o (bind_o r f) g = bind_o r (\<lambda>x. bind_o (f x) g)"
  by (cases r) auto

lemma bind_o_cong [fundef_cong]:
  "r = r' \<Longrightarrow> (\<And>x. r' = Ok x \<Longrightarrow> f x = f' x) \<Longrightarrow> bind_o r f = bind_o r' f'"
  by (cases r') auto

lemma map_err_simps [simp]:
  "map_err g r = Ok x \<longleftrightarrow> r = Ok x"
  "map_err g r = Panic \<longleftrightarrow> r = Panic"
  "map_err g r = Diverge \<longleftrightarrow> r = Diverge"
  by (cases r; simp)+

lemma ok_or_simps [simp]:
  "ok_or v e = Ok x \<longleftrightarrow> v = Some x"
  "ok_or v e = Err e' \<longleftrightarrow> v = None \<and> e' = e"
  "ok_or v e \<noteq> Panic" "ok_or v e \<noteq> Diverge"
  by (auto simp: ok_or_def split: option.splits)

lemma expect_simps [simp]:
  "expect v = Ok x \<longleftrightarrow> v = Some x"
  "expect v \<noteq> Err e"
  "expect v = Panic \<longleftrightarrow> v = None" "expect v \<noteq> Diverge"
  by (auto simp: expect_def split: option.splits)

lemma expect_eval [simp]: "expect (Some x) = Ok x" "expect None = Panic"
  by (simp_all add: expect_def)

lemma ok_or_eval [simp]: "ok_or (Some x) e = Ok x" "ok_or None e = Err e"
  by (simp_all add: ok_or_def)

lemma ensure_simps [simp]:
  "ensure b e = Ok u \<longleftrightarrow> b"
  "ensure b e = Err e' \<longleftrightarrow> \<not> b \<and> e' = e"
  "ensure b e \<noteq> Panic" "ensure b e \<noteq> Diverge"
  by (auto simp: ensure_def)

lemma ensure_eval [simp]: "ensure True e = Ok ()" "ensure False e = Err e"
  by (simp_all add: ensure_def)

text \<open>A loop keeps what its body keeps; the body also sees which element it runs on.\<close>

lemma try_fold_invariant:
  assumes "try_fold f s xs = Ok s'" and "I s"
    and "\<And>s x t. x \<in> set xs \<Longrightarrow> I s \<Longrightarrow> f s x = Ok t \<Longrightarrow> I t"
  shows "I s'"
  using assms
proof (induction xs arbitrary: s)
  case Nil
  then show ?case by simp
next
  case (Cons x xs)
  from Cons.prems(1) obtain t where t: "f s x = Ok t" and rest: "try_fold f t xs = Ok s'"
    by (auto simp: bind_o_Ok)
  have "I t" using Cons.prems(2,3) t by (meson list.set_intros(1))
  with rest show ?case using Cons.IH Cons.prems(3) by (meson list.set_intros(2))
qed

lemma try_fold_append:
  "try_fold f s (xs @ ys) = bind_o (try_fold f s xs) (\<lambda>t. try_fold f t ys)"
  by (induction xs arbitrary: s) (simp_all add: bind_o_assoc)

lemma try_fold_split:
  assumes "try_fold f s xs = Ok s'" "x \<in> set xs"
  obtains ys zs s1 s2 where "xs = ys @ x # zs" "try_fold f s ys = Ok s1" "f s1 x = Ok s2"
    "try_fold f s2 zs = Ok s'"
proof -
  from assms(2) obtain ys zs where xs: "xs = ys @ x # zs" by (auto simp: in_set_conv_decomp)
  with assms(1) that show ?thesis by (auto simp: try_fold_append bind_o_Ok)
qed

lemma try_fold_no_Diverge:
  "(\<And>s x. x \<in> set xs \<Longrightarrow> f s x \<noteq> Diverge) \<Longrightarrow> try_fold f s xs \<noteq> Diverge"
  by (induction xs arbitrary: s) (auto simp: bind_o_Diverge)

lemma try_fold_cong [fundef_cong]:
  assumes "s = s'" "xs = ys" "\<And>t x. x \<in> set ys \<Longrightarrow> f t x = g t x"
  shows "try_fold f s xs = try_fold g s' ys"
  using assms
proof (induction xs arbitrary: s s' ys)
  case (Cons x xs)
  then show ?case by (cases ys) (auto intro!: bind_o_cong)
qed auto

text \<open>A property of outcomes that an invariant rules out for every step is ruled out for the loop.\<close>

lemma try_fold_excludes:
  assumes "\<And>s x. x \<in> set xs \<Longrightarrow> I s \<Longrightarrow> \<not> Bad (f s x)"
    and "\<And>s x t. x \<in> set xs \<Longrightarrow> I s \<Longrightarrow> f s x = Ok t \<Longrightarrow> I t"
    and "I s" "\<And>t. \<not> Bad (Ok t)"
  shows "\<not> Bad (try_fold f s xs)"
  using assms(1-3)
proof (induction xs arbitrary: s)
  case Nil
  then show ?case using assms(4) by simp
next
  case (Cons x xs)
  have step: "\<not> Bad (f s x)" using Cons.prems(1,3) by (meson list.set_intros(1))
  show ?case
  proof (cases "f s x")
    case (Ok t)
    have "\<not> Bad (try_fold f t xs)"
    proof (rule Cons.IH)
      show "I t" using Cons.prems(2,3) Ok by (meson list.set_intros(1))
    qed (use Cons.prems(1,2) in \<open>meson list.set_intros(2)\<close>)+
    with Ok show ?thesis by simp
  qed (use step in auto)
qed

lemmas try_fold_no_Panic = try_fold_excludes [where Bad = "\<lambda>r. r = Panic", simplified]
lemmas try_fold_no_Diverge_inv = try_fold_excludes [where Bad = "\<lambda>r. r = Diverge", simplified]

text \<open>The loop that rejects the first repeated key.\<close>

lemma distinct_fold_Ok:
  "try_fold (\<lambda>seen x. if k x |\<in>| seen then Err (e x) else Ok (finsert (k x) seen)) A xs = Ok B
     \<longleftrightarrow> distinct (map k xs) \<and> k ` set xs \<inter> fset A = {} \<and> B = A |\<union>| fset_of_list (map k xs)"
  by (induction xs arbitrary: A) (auto simp: fset_of_list_elem)

lemma try_fold_never_Panic:
  "(\<And>s x. x \<in> set xs \<Longrightarrow> f s x \<noteq> Panic) \<Longrightarrow> try_fold f s xs \<noteq> Panic"
  by (rule try_fold_no_Panic [where I = "\<lambda>_. True"]) auto

lemma for_each_simps [simp]:
  "for_each f [] = Ok ()"
  "for_each f (x # xs) = bind_o (f x) (\<lambda>_. for_each f xs)"
  by (simp_all add: for_each_def)

lemma for_each_Ok [outcome_simps]: "for_each f xs = Ok u \<longleftrightarrow> (\<forall>x \<in> set xs. f x = Ok ())"
  by (induction xs) (auto simp: bind_o_Ok)

lemma for_each_no_Panic: "(\<And>x. x \<in> set xs \<Longrightarrow> f x \<noteq> Panic) \<Longrightarrow> for_each f xs \<noteq> Panic"
  by (induction xs) (auto simp: bind_o_Panic)

lemma for_each_no_Diverge: "(\<And>x. x \<in> set xs \<Longrightarrow> f x \<noteq> Diverge) \<Longrightarrow> for_each f xs \<noteq> Diverge"
  by (induction xs) (auto simp: bind_o_Diverge)

lemma for_each_Panic_witness:
  "for_each f xs = Panic \<Longrightarrow> \<exists>x \<in> set xs. f x = Panic"
  by (induction xs) (auto simp: bind_o_Panic)

lemma for_each_Err_witness:
  "for_each f xs = Err e \<Longrightarrow> \<exists>x \<in> set xs. f x = Err e"
  by (induction xs) (auto simp: bind_o_Err)

section \<open>Ordered maps\<close>

fun upd_list :: "'k::linorder \<Rightarrow> 'v \<Rightarrow> ('k \<times> 'v) list \<Rightarrow> ('k \<times> 'v) list" where
  "upd_list k v [] = [(k, v)]"
| "upd_list k v ((a, b) # ps) =
     (if k < a then (k, v) # (a, b) # ps
      else if k = a then (k, v) # ps else (a, b) # upd_list k v ps)"

lemma set_upd_list_keys: "fst ` set (upd_list k v ps) = insert k (fst ` set ps)"
  by (induction ps rule: upd_list.induct) auto

lemma sorted_upd_list:
  "sorted_wrt (<) (map fst ps) \<Longrightarrow> sorted_wrt (<) (map fst (upd_list k v ps))"
proof (induction k v ps rule: upd_list.induct)
  case (2 k v a b ps)
  have "\<forall>x \<in> fst ` set (upd_list k v ps). a < x" if "a < k"
    using "2.prems" that by (auto simp: set_upd_list_keys)
  with "2" show ?case by (auto simp: not_less dest: order.strict_trans)
qed simp

lemma map_of_upd_list: "map_of (upd_list k v ps) = (map_of ps)(k \<mapsto> v)"
  by (induction k v ps rule: upd_list.induct) (auto simp: fun_eq_iff)

typedef (overloaded) ('k, 'v) btmap = "{ps :: ('k::linorder \<times> 'v) list. sorted_wrt (<) (map fst ps)}"
  morphisms bt_entries Btmap
  by (rule exI [of _ "[]"]) simp

setup_lifting type_definition_btmap

lift_definition bt_empty :: "('k::linorder, 'v) btmap" is "[]" by simp

lift_definition bt_get :: "('k::linorder, 'v) btmap \<Rightarrow> 'k \<Rightarrow> 'v option" is map_of .

lift_definition bt_insert :: "'k::linorder \<Rightarrow> 'v \<Rightarrow> ('k, 'v) btmap \<Rightarrow> ('k, 'v) btmap" is upd_list
  by (rule sorted_upd_list)

definition bt_keys :: "('k::linorder, 'v) btmap \<Rightarrow> 'k list" where
  "bt_keys m = map fst (bt_entries m)"

definition bt_values :: "('k::linorder, 'v) btmap \<Rightarrow> 'v list" where
  "bt_values m = map snd (bt_entries m)"

definition bt_len :: "('k::linorder, 'v) btmap \<Rightarrow> nat" where
  "bt_len m = length (bt_entries m)"

definition bt_contains :: "('k::linorder, 'v) btmap \<Rightarrow> 'k \<Rightarrow> bool" where
  "bt_contains m k \<longleftrightarrow> bt_get m k \<noteq> None"

text \<open>\<open>FromIterator\<close>: later entries replace earlier ones.\<close>

definition bt_of_list :: "('k::linorder \<times> 'v) list \<Rightarrow> ('k, 'v) btmap" where
  "bt_of_list ps = fold (\<lambda>(k, v). bt_insert k v) ps bt_empty"

lemma bt_eq_iff: "m = n \<longleftrightarrow> bt_entries m = bt_entries n"
  by (simp add: bt_entries_inject)

text \<open>Executable equality: keys are compared by their order, as \<open>Ord\<close> keys are.\<close>

lemma list_all2_entries:
  "list_all2 (\<lambda>(a, x) (b, y). a \<le> b \<and> b \<le> a \<and> x = y) ps qs \<longleftrightarrow> ps = (qs :: ('k::linorder \<times> 'v) list)"
proof -
  have "(\<lambda>(a, x) (b, y). a \<le> b \<and> b \<le> a \<and> x = y) = ((=) :: 'k \<times> 'v \<Rightarrow> _)"
    by (auto simp: fun_eq_iff)
  then show ?thesis by (simp add: list.rel_eq)
qed

instantiation btmap :: (linorder, equal) equal
begin

definition equal_btmap :: "('a, 'b) btmap \<Rightarrow> ('a, 'b) btmap \<Rightarrow> bool" where
  "equal_btmap m n =
     list_all2 (\<lambda>(a, x) (b, y). a \<le> b \<and> b \<le> a \<and> x = y) (bt_entries m) (bt_entries n)"

instance
  by standard (simp add: equal_btmap_def list_all2_entries bt_eq_iff)

end

lemma bt_entries_sorted: "sorted_wrt (<) (map fst (bt_entries m))"
  using bt_entries [of m] by simp

lemma bt_entries_distinct: "distinct (map fst (bt_entries m))"
  using bt_entries_sorted [of m] by (simp add: strict_sorted_iff)

lemma bt_entries_empty [simp, bt_simps]: "bt_entries bt_empty = []"
  by (simp add: bt_empty.rep_eq)

lemma bt_entries_insert [bt_simps]: "bt_entries (bt_insert k v m) = upd_list k v (bt_entries m)"
  by (simp add: bt_insert.rep_eq)

lemma bt_get_entries: "bt_get m k = map_of (bt_entries m) k"
  by (simp add: bt_get.rep_eq)

lemma bt_get_empty [simp]: "bt_get bt_empty k = None"
  by (simp add: bt_get_entries)

lemma bt_get_insert [simp]: "bt_get (bt_insert k v m) = (bt_get m)(k \<mapsto> v)"
  by (simp add: fun_eq_iff bt_get_entries bt_entries_insert map_of_upd_list)

lemma bt_get_Some_iff: "bt_get m k = Some v \<longleftrightarrow> (k, v) \<in> set (bt_entries m)"
  by (simp add: bt_get_entries bt_entries_distinct)

lemma set_bt_keys: "set (bt_keys m) = dom (bt_get m)"
  by (auto simp: bt_keys_def bt_get_Some_iff dom_def image_iff) force+

lemma in_bt_keys_iff: "k \<in> set (bt_keys m) \<longleftrightarrow> bt_contains m k"
  by (auto simp: set_bt_keys bt_contains_def)

lemma bt_contains_insert [simp]: "bt_contains (bt_insert k v m) k' \<longleftrightarrow> k' = k \<or> bt_contains m k'"
  by (auto simp: bt_contains_def)

lemma bt_contains_empty [simp]: "\<not> bt_contains bt_empty k"
  by (simp add: bt_contains_def)

lemma bt_keys_distinct [simp]: "distinct (bt_keys m)"
  by (simp add: bt_keys_def bt_entries_distinct)

lemma bt_keys_sorted [simp]: "sorted (bt_keys m)"
  using bt_entries_sorted [of m] by (simp add: bt_keys_def strict_sorted_iff)

lemma length_bt_keys [simp]: "length (bt_keys m) = bt_len m"
  by (simp add: bt_keys_def bt_len_def)

lemma bt_len_card: "bt_len m = card (dom (bt_get m))"
  using distinct_card [OF bt_keys_distinct, of m] by (simp add: set_bt_keys)

lemma finite_dom_bt_get [simp]: "finite (dom (bt_get m))"
  by (simp flip: set_bt_keys)

lemma set_bt_values: "set (bt_values m) = ran (bt_get m)"
  by (auto simp: bt_values_def ran_def bt_get_Some_iff image_iff) force+

text \<open>Two ordered maps with the same lookups are the same map.\<close>

lemma bt_ext:
  assumes "bt_get m = bt_get n"
  shows "m = n"
proof -
  have keys: "set (bt_keys m) = set (bt_keys n)" by (simp add: set_bt_keys assms)
  then have "map fst (bt_entries m) = map fst (bt_entries n)"
    using bt_entries_sorted [of m] bt_entries_sorted [of n]
    by (simp add: bt_keys_def strict_sorted_equal)
  moreover have "set (bt_entries m) = set (bt_entries n)"
    by (auto simp flip: bt_get_Some_iff simp: assms)
  ultimately show ?thesis
    by (simp add: bt_eq_iff bt_entries_distinct map_of_inject_set
        list_eq_iff_nth_eq nth_eq_iff_index_eq)
       (metis assms bt_get_Some_iff in_set_conv_nth nth_map option.inject prod.collapse)
qed

lemma bt_len_insert:
  "bt_len (bt_insert k v m) = (if bt_contains m k then bt_len m else Suc (bt_len m))"
  by (auto simp: bt_len_card bt_contains_def insert_absorb domIff)

lemma bt_get_of_list: "bt_get (bt_of_list ps) = map_of (rev ps)"
proof -
  have "bt_get (fold (\<lambda>(k, v). bt_insert k v) ps m) = bt_get m ++ map_of (rev ps)" for m
    by (induction ps arbitrary: m) (auto simp: map_add_def fun_eq_iff split: option.splits)
  then show ?thesis
    by (simp add: bt_of_list_def map_add_def fun_eq_iff split: option.splits)
qed

lemma bt_of_list_Nil [bt_simps]: "bt_of_list [] = bt_empty"
  by (simp add: bt_of_list_def)

lemma bt_of_list_eval [bt_simps]:
  "bt_of_list (ps @ [(k, v)]) = bt_insert k v (bt_of_list ps)"
  by (simp add: bt_of_list_def)

lemma bt_get_of_map_list:
  "bt_get (bt_of_list (map (\<lambda>p. (p, f p)) ks)) k = (if k \<in> set ks then Some (f k) else None)"
  by (induction ks rule: rev_induct) (auto simp: bt_of_list_Nil bt_of_list_eval)

end
