(* ===== verification/Rust_Text.thy ===== *)
theory Rust_Text
  imports Prelude
begin

text \<open>
  The parts of \<open>str\<close>, \<open>char\<close> and integer formatting the sources use, on UTF-8 bytes:
  Unicode white space and control characters as byte patterns, \<open>chars().take(n)\<close>,
  \<open>split\<close>, and decimal and hexadecimal printing. The byte patterns are exact on valid
  UTF-8, where a lead byte never occurs inside the encoding of another character.
\<close>

type_synonym byte = "8 word"

definition byte_vals :: "string \<Rightarrow> nat list" where
  "byte_vals s = map of_char s"

section \<open>Character classes\<close>

text \<open>
  \<open>ws_len\<close> is the number of bytes of the \<open>White_Space\<close> character at the front, 0 if there is
  none: U+0009..U+000D, U+0020, U+0085, U+00A0, U+1680, U+2000..U+200A, U+2028, U+2029,
  U+202F, U+205F and U+3000.
\<close>

definition ws_len :: "nat list \<Rightarrow> nat" where
  "ws_len bs =
     (case bs of
        [] \<Rightarrow> 0
      | a # _ \<Rightarrow>
          if 9 \<le> a \<and> a \<le> 13 \<or> a = 32 then 1
          else if take 2 bs = [194, 133] \<or> take 2 bs = [194, 160] then 2
          else if take 3 bs = [225, 154, 128]
               \<or> take 2 bs = [226, 128] \<and> 3 \<le> length bs \<and>
                   (128 \<le> bs ! 2 \<and> bs ! 2 \<le> 138 \<or> bs ! 2 = 168 \<or> bs ! 2 = 169 \<or> bs ! 2 = 175)
               \<or> take 3 bs = [226, 129, 159] \<or> take 3 bs = [227, 128, 128] then 3
          else 0)"

text \<open>\<open>s.trim().is_empty()\<close>: every character is white space.\<close>

function blank_bytes :: "nat list \<Rightarrow> bool" where
  "blank_bytes bs =
     (if bs = [] then True else if ws_len bs = 0 then False else blank_bytes (drop (ws_len bs) bs))"
  by pat_completeness auto
termination
  by (relation "measure length") auto

declare blank_bytes.simps [simp del]

definition trim_is_empty :: "string \<Rightarrow> bool" where
  "trim_is_empty s = blank_bytes (byte_vals s)"

text \<open>\<open>s.contains(char::is_whitespace)\<close>.\<close>

definition has_white_space :: "string \<Rightarrow> bool" where
  "has_white_space s = list_ex (\<lambda>bs. ws_len bs \<noteq> 0) (suffixes (byte_vals s))"

text \<open>\<open>s.chars().any(char::is_control)\<close>: U+0000..U+001F, U+007F and U+0080..U+009F.\<close>

definition control_at :: "nat list \<Rightarrow> bool" where
  "control_at bs =
     (case bs of
        [] \<Rightarrow> False
      | a # r \<Rightarrow> a < 32 \<or> a = 127
          \<or> a = 194 \<and> (case r of [] \<Rightarrow> False | b # _ \<Rightarrow> 128 \<le> b \<and> b \<le> 159))"

definition has_control :: "string \<Rightarrow> bool" where
  "has_control s = list_ex control_at (suffixes (byte_vals s))"

lemma trim_is_empty_Nil [simp]: "trim_is_empty []"
  by (simp add: trim_is_empty_def byte_vals_def blank_bytes.simps)

section \<open>Prefixes of characters, separators, digits\<close>

definition is_continuation :: "char \<Rightarrow> bool" where
  "is_continuation c \<longleftrightarrow> (128::nat) \<le> of_char c \<and> (of_char c :: nat) < 192"

text \<open>\<open>s.chars().take(n).collect()\<close>: the bytes of the first \<open>n\<close> characters.\<close>

fun take_chars :: "nat \<Rightarrow> string \<Rightarrow> string" where
  "take_chars n [] = []"
| "take_chars n (c # s) =
     (if is_continuation c then c # take_chars n s
      else case n of 0 \<Rightarrow> [] | Suc m \<Rightarrow> c # take_chars m s)"

definition chars_len :: "string \<Rightarrow> nat" where
  "chars_len s = length (filter (\<lambda>c. \<not> is_continuation c) s)"

lemma chars_len_take_chars: "chars_len (take_chars n s) \<le> n"
  by (induction n s rule: take_chars.induct) (auto simp: chars_len_def split: nat.splits)

lemma take_chars_prefix: "prefix (take_chars n s) s"
  by (induction n s rule: take_chars.induct) (auto split: nat.splits)

text \<open>\<open>s.split(sep)\<close>: always at least one piece.\<close>

fun split_on :: "char \<Rightarrow> string \<Rightarrow> string list" where
  "split_on sep [] = [[]]"
| "split_on sep (c # s) =
     (if c = sep then [] # split_on sep s
      else case split_on sep s of [] \<Rightarrow> [[c]] | p # ps \<Rightarrow> (c # p) # ps)"

lemma split_on_not_Nil [simp]: "split_on sep s \<noteq> []"
  by (induction s) (auto split: list.splits)

lemma split_on_no_sep: "p \<in> set (split_on sep s) \<Longrightarrow> sep \<notin> set p"
proof (induction s arbitrary: p)
  case (Cons c s)
  then show ?case by (auto split: list.splits if_splits)
qed simp

fun digits10 :: "nat \<Rightarrow> string" where
  "digits10 n =
     (if n < 10 then [char_of (48 + n)] else digits10 (n div 10) @ [char_of (48 + n mod 10)])"

declare digits10.simps [simp del]

definition digit_val :: "char \<Rightarrow> nat" where
  "digit_val c = of_char c - 48"

definition undigits10 :: "string \<Rightarrow> nat" where
  "undigits10 s = foldl (\<lambda>a c. a * 10 + digit_val c) 0 s"

lemma digit_val_char_of: "d < 10 \<Longrightarrow> digit_val (char_of (48 + d)) = d"
  by (simp add: digit_val_def)

lemma undigits10_digits10 [simp]: "undigits10 (digits10 n) = n"
proof (induction n rule: digits10.induct)
  case (1 n)
  show ?case
  proof (cases "n < 10")
    case True
    then show ?thesis
      by (subst digits10.simps) (simp add: undigits10_def digit_val_char_of)
  next
    case False
    with "1.IH" have "undigits10 (digits10 (n div 10)) = n div 10" by simp
    with False show ?thesis
      by (subst digits10.simps) (simp add: undigits10_def digit_val_char_of)
  qed
qed

lemma digits10_inject [simp]: "digits10 m = digits10 n \<longleftrightarrow> m = n"
  by (metis undigits10_digits10)

definition hex_digit :: "nat \<Rightarrow> char" where
  "hex_digit d = (if d < 10 then char_of (48 + d) else char_of (87 + d))"

text \<open>\<open>format!("{b:02x}")\<close>.\<close>

definition hex_byte :: "byte \<Rightarrow> string" where
  "hex_byte b = [hex_digit (unat b div 16), hex_digit (unat b mod 16)]"

definition hex_bytes :: "byte list \<Rightarrow> string" where
  "hex_bytes bs = concat (map hex_byte bs)"

lemma length_hex_byte [simp]: "length (hex_byte b) = 2"
  by (simp add: hex_byte_def)

lemma hex_digit_inj: "d < 16 \<Longrightarrow> e < 16 \<Longrightarrow> hex_digit d = hex_digit e \<Longrightarrow> d = e"
proof -
  assume d: "d < 16" and e: "e < 16" and eq: "hex_digit d = hex_digit e"
  have "(of_char (hex_digit d) :: nat) = of_char (hex_digit e)" using eq by simp
  with d e show ?thesis by (auto simp: hex_digit_def split: if_splits)
qed

lemma hex_byte_inj [simp]: "hex_byte a = hex_byte b \<longleftrightarrow> a = b"
proof
  assume "hex_byte a = hex_byte b"
  moreover have "unat a < 256" "unat b < 256"
    using unsigned_less [of a, where ?'a = nat] unsigned_less [of b, where ?'a = nat] by simp_all
  ultimately have "unat a div 16 = unat b div 16" "unat a mod 16 = unat b mod 16"
    by (auto simp: hex_byte_def intro!: hex_digit_inj)
  then have "unat a = unat b" by (metis div_mult_mod_eq)
  then show "a = b" by (rule unsigned_word_eqI)
qed simp

lemma hex_bytes_inj [simp]: "hex_bytes xs = hex_bytes ys \<longleftrightarrow> xs = ys"
proof
  assume "hex_bytes xs = hex_bytes ys"
  then show "xs = ys"
  proof (induction xs arbitrary: ys)
    case Nil
    then show ?case by (cases ys) (auto simp: hex_bytes_def hex_byte_def)
  next
    case (Cons x xs)
    then obtain y ys' where "ys = y # ys'"
      by (cases ys) (auto simp: hex_bytes_def hex_byte_def)
    with Cons show ?case
      by (auto simp: hex_bytes_def length_hex_byte)
  qed
qed simp

lemma length_hex_bytes [simp]: "length (hex_bytes bs) = 2 * length bs"
  by (induction bs) (auto simp: hex_bytes_def hex_byte_def)

end
