(* ===== verification/Kernel.thy ===== *)
theory Kernel
  imports Rust_Text
begin

text \<open>
  The boundary to \<open>sim-kernel\<close>, which is not part of the repository. Its value trees
  (\<open>Datum\<close>, \<open>Expr\<close>, \<open>Ref\<close>) are the datatypes of the constructors the sources build and
  match exhaustively. Symbols and content identities are type parameters: \<open>'s\<close> for
  \<open>Symbol\<close> and \<open>'c\<close> for \<open>ContentId\<close>, in the class \<open>linorder\<close> where the sources order
  them. Kernel functions are fields of the record \<open>kernel\<close>, an argument of every
  definition that calls one; what a theorem needs of them is a hypothesis of that theorem.
\<close>

section \<open>Value trees\<close>

datatype 's datum =
    DNil
  | DBool bool
  | DNumber 's string
  | DSymbol 's
  | DString string
  | DBytes "byte list"
  | DList "'s datum list"
  | DVector "'s datum list"
  | DMap "('s datum \<times> 's datum) list"
  | DSet "'s datum list"
  | DNode 's "('s \<times> 's datum) list"

datatype ('s, 'c) kref =
    RefSymbol 's
  | RefContent 'c
  | RefHandle "128 word"
  | RefCoord 's 'c

text \<open>
  \<open>sim_kernel::Error\<close>: the sources construct \<open>Eval\<close> only; what other kernel calls return is
  \<open>OtherError\<close>.
\<close>

datatype kernel_error = EvalError string | OtherError string

section \<open>Kernel operations\<close>

record ('s, 'c) kernel =
  sym_new :: "string \<Rightarrow> 's"
  sym_qualified :: "string \<Rightarrow> string \<Rightarrow> 's"
  sym_to_string :: "'s \<Rightarrow> string"
  cid_algorithm :: "'c \<Rightarrow> 's"
  cid_bytes :: "'c \<Rightarrow> byte list"
  datum_content_id :: "'s datum \<Rightarrow> (string, 'c) outcome"

text \<open>
  Documented behaviour of the kernel, named for use as hypotheses: a symbol prints as its
  name (\<open>sym_prints\<close>) and a qualified one as its parts with a slash between
  (\<open>sym_qualified_prints\<close>); qualified symbols are determined by their parts
  (\<open>sym_qualified_inj\<close>); a content identity consists of its algorithm and its bytes
  (\<open>cid_inj\<close>).
\<close>

definition sym_prints :: "('s, 'c) kernel \<Rightarrow> bool" where
  "sym_prints K \<longleftrightarrow> (\<forall>n. sym_to_string K (sym_new K n) = n)"

definition sym_qualified_prints :: "('s, 'c) kernel \<Rightarrow> bool" where
  "sym_qualified_prints K \<longleftrightarrow> (\<forall>a b. sym_to_string K (sym_qualified K a b) = a @ ''/'' @ b)"

definition sym_qualified_inj :: "('s, 'c) kernel \<Rightarrow> bool" where
  "sym_qualified_inj K \<longleftrightarrow>
     (\<forall>a b c d. sym_qualified K a b = sym_qualified K c d \<longrightarrow> a = c \<and> b = d)"

definition cid_inj :: "('s, 'c) kernel \<Rightarrow> bool" where
  "cid_inj K \<longleftrightarrow>
     (\<forall>a b. cid_algorithm K a = cid_algorithm K b \<and> cid_bytes K a = cid_bytes K b \<longrightarrow> a = b)"

text \<open>\<open>[0; 32]\<close>, the identity an unpinned import carries.\<close>

definition zero_id_bytes :: "byte list" where
  "zero_id_bytes = replicate 32 0"

end
