(* ===== verification/Deck_Types.thy ===== *)
theory Deck_Types
  imports Kernel
begin

text \<open>
  \<open>sim-source-deck/src/types.rs\<close>: the values a source deck is built from and the typed,
  fail-closed outcomes of building one. Content identities of bytes and decks are the
  kernel's \<open>ContentId\<close>, the type parameter \<open>'c\<close>.
\<close>

datatype 'c source_deck_id = SourceDeckId (sdid: 'c)
datatype 'c byte_content_id = ByteContentId (bcid: 'c)

record repository_snapshot =
  rs_owner :: string
  rs_repository :: string
  rs_revision :: string

record 'c source_file =
  sf_owner :: string
  sf_path :: string
  sf_bytes :: "byte list"
  sf_content_id :: "'c byte_content_id"

record excerpt =
  ex_id :: string
  ex_owner :: string
  ex_path :: string
  ex_start :: nat
  ex_end :: nat
  ex_bytes :: "byte list"

record 'c specimen_pin =
  sp_id :: string
  sp_owner :: string
  sp_bytes :: "byte list"
  sp_content_id :: "'c byte_content_id"

record index_anchor =
  ia_id :: string
  ia_owner :: string
  ia_source_path :: "string option"

record index_specimen =
  is_id :: string
  is_owner :: string

record index_fragment =
  if_owner :: string
  if_anchors :: "index_anchor list"
  if_specimens :: "index_specimen list"

record 'c fragment_pin =
  fp_owner :: string
  fp_bytes :: "byte list"
  fp_content_id :: "'c byte_content_id"

record 'c claim_certificate =
  cc_anchor :: string
  cc_owner :: string
  cc_fragment_id :: "'c byte_content_id"
  cc_digest :: "'c byte_content_id"

datatype limitation =
    SyntaxBound string string
  | ScannerEvidence string string
  | TruncatedEvidence string nat nat

datatype source_query = QAnchor string | QExcerpt string | QSpecimen string

datatype 'c grounded_evidence =
    GAnchor index_anchor
  | GExcerpt excerpt
  | GSpecimen "'c specimen_pin"

record deck_limits =
  dl_repositories :: nat
  dl_fragments :: nat
  dl_files :: nat
  dl_excerpts :: nat
  dl_specimens :: nat
  dl_queries :: nat
  dl_total_bytes :: nat

definition strict ::
  "nat \<Rightarrow> nat \<Rightarrow> nat \<Rightarrow> nat \<Rightarrow> nat \<Rightarrow> nat \<Rightarrow> nat \<Rightarrow> deck_limits" where
  "strict repositories fragments files excerpts specimens queries total_bytes =
     \<lparr>dl_repositories = repositories, dl_fragments = fragments, dl_files = files,
      dl_excerpts = excerpts, dl_specimens = specimens, dl_queries = queries,
      dl_total_bytes = total_bytes\<rparr>"

record 'c source_deck =
  sd_id :: "'c source_deck_id"
  sd_repositories :: "repository_snapshot list"
  sd_fragments :: "'c fragment_pin list"
  sd_files :: "'c source_file list"
  sd_evidence :: "'c grounded_evidence list"
  sd_limitations :: "limitation list"

datatype deck_failure =
    Unresolved string string
  | Ambiguous string string
  | Stale string
  | Truncated string
  | DeckOverLimit string nat nat
  | InvalidPath string
  | OwnerMismatch string
  | DeckDuplicate string string
  | DanglingAnchor string
  | Unclaimed string
  | MultiplyClaimed string
  | Substituted string
  | CertificateDigestMismatch string
  | ContentMismatch string
  | ExcerptForgery string
  | MissingLimitation string
  | Collision string
  | Decode string
  | DeckCanonical string

text \<open>
  The caller's \<open>FragmentDecoder\<close> is the field \<open>di_decode\<close>: the repository holds no
  implementation of the trait beside its tests.
\<close>

record 'c deck_input =
  di_repositories :: "repository_snapshot list"
  di_fragments :: "'c fragment_pin list"
  di_certificates :: "'c claim_certificate list"
  di_files :: "'c source_file list"
  di_excerpts :: "excerpt list"
  di_specimens :: "'c specimen_pin list"
  di_queries :: "source_query list"
  di_limitations :: "limitation list"
  di_limits :: deck_limits
  di_decode :: "byte list \<Rightarrow> (deck_failure, index_fragment) outcome"

end
