(* ===== verification/Roadmap_Types.thy ===== *)
theory Roadmap_Types
  imports Deck_Types
begin

text \<open>
  \<open>sim-roadmap-core\<close>: \<open>types.rs\<close>, \<open>id.rs\<close>, \<open>path.rs\<close> and \<open>completion.rs\<close>. Text identifiers are
  the newtypes of the \<open>text_id!\<close> macro over \<open>String\<close>; their validated constructor is
  \<open>text_id_new\<close>. Byte and item counts (\<open>usize\<close>) are natural numbers.
\<close>

type_synonym roadmap_id = string
type_synonym phase_id = string
type_synonym checkpoint_id = string
type_synonym import_id = string
type_synonym output_id = string
type_synonym obligation_id = string
type_synonym promise_id = string
type_synonym sketch_id = string
type_synonym owner_id = string
type_synonym resource_id = string
type_synonym effect_id = string
type_synonym capability_id = string
type_synonym change_id = string
type_synonym schema_id = string
type_synonym causal_path = "phase_id list"

section \<open>Limits and failures\<close>

record limits =
  id_bytes :: nat
  document_bytes :: nat
  prose_bytes :: nat
  max_phases :: nat
  max_imports :: nat
  outputs_per_phase :: nat
  checkpoints_per_phase :: nat
  children_per_phase :: nat
  tree_depth :: nat
  max_causal_path :: nat
  guide_queries :: nat
  guide_targets :: nat
  guide_promises :: nat
  guide_sketches :: nat
  sketch_bytes :: nat
  sketch_bindings :: nat

definition limits_default :: limits where
  "limits_default =
     \<lparr>id_bytes = 96, document_bytes = 1000000, prose_bytes = 16384, max_phases = 1024,
      max_imports = 128, outputs_per_phase = 128, checkpoints_per_phase = 256,
      children_per_phase = 256, tree_depth = 64, max_causal_path = 64, guide_queries = 128,
      guide_targets = 128, guide_promises = 128, guide_sketches = 64, sketch_bytes = 8192,
      sketch_bindings = 128\<rparr>"

datatype failure =
    InvalidText string string
  | OverLimit string nat nat
  | Duplicate string string
  | Missing string string
  | InvalidBinding sketch_id string
  | UnboundPromise promise_id
  | UnpinnedImport import_id
  | ClaimedRevisionMismatch
  | CanonicalFailure string
  | TreeFailure string causal_path phase_id "phase_id option"
  | Widening phase_id phase_id string string causal_path
  | CoverageFailure string phase_id obligation_id causal_path
  | CircularCompletion phase_id phase_id causal_path

section \<open>Identifiers and causal paths\<close>

definition validate_id :: "string \<Rightarrow> string \<Rightarrow> nat \<Rightarrow> (failure, unit) outcome" where
  "validate_id kind value maximum =
     (if value = [] then Err (InvalidText kind ''empty'')
      else if maximum < length value then Err (OverLimit ''id_bytes'' (length value) maximum)
      else if has_control value then Err (InvalidText kind ''control character'')
      else if value = ''.'' \<or> value = ''..'' \<or> CHR ''/'' \<in> set value \<or> CHR 0x5C \<in> set value
           then Err (InvalidText kind ''path-like'')
      else Ok ())"

definition text_id_new :: "string \<Rightarrow> string \<Rightarrow> (failure, string) outcome" where
  "text_id_new kind value =
     bind_o (validate_id kind value (id_bytes limits_default)) (\<lambda>_. Ok value)"

definition causal_path_new :: "phase_id list \<Rightarrow> limits \<Rightarrow> (failure, causal_path) outcome" where
  "causal_path_new parts l =
     (if max_causal_path l < length parts
      then Err (OverLimit ''causal_path'' (length parts) (max_causal_path l))
      else Ok parts)"

section \<open>Roadmap documents\<close>

record charter =
  ch_title :: string
  ch_intent :: string

record checkpoint_spec =
  cp_id :: checkpoint_id
  cp_statement :: string

datatype phase_body =
    Leaf "checkpoint_spec list"
  | Composite "phase_id list"

datatype 'c phase_ref =
    LocalRef phase_id
  | ImportedRef import_id phase_id 'c

record 'c output_ref =
  or_phase :: "'c phase_ref"
  or_output :: output_id

datatype 'c phase_dependency =
    Requires "'c phase_ref"
  | Consumes "'c output_ref"
  | PrefersAfter "'c phase_ref"

record owner_envelope =
  oe_mutable :: "owner_id fset"
  oe_read_only :: "owner_id fset"

datatype proof_policy = PolicyAll | PolicyAny

record ('s, 'c) acceptance_statement =
  as_obligation :: obligation_id
  as_subject :: "('s, 'c) kref"
  as_predicate :: 's
  as_object :: "('s, 'c) kref"
  as_supporting_refs :: "('s, 'c) kref list"

record ('s, 'c) acceptance_contract =
  ac_policy :: proof_policy
  ac_statements :: "(obligation_id, ('s, 'c) acceptance_statement) btmap"

datatype obligation_coverage =
    Contributes obligation_id phase_id obligation_id
  | RetainedAtParent obligation_id

record 'c output_contract =
  oc_description :: string
  oc_content :: "'c option"

datatype 'c roadmap_revision_id = RoadmapRevisionId (rrid: 'c)

record 'c pinned_roadmap_ref =
  pr_roadmap :: roadmap_id
  pr_revision :: "'c roadmap_revision_id"
  pr_root_phase :: phase_id
  pr_root_content :: 'c

datatype 'c phase_origin =
    Authored
  | OriginImported import_id phase_id 'c

record change_target =
  ct_change :: change_id
  ct_owner :: owner_id
  ct_package :: "string option"
  ct_description :: string

datatype 'c promise =
    PublicDeclaration promise_id owner_id string
  | SourcePostimage promise_id owner_id string 'c
  | CheckedSpecimen promise_id owner_id string
  | ProducedOutput promise_id output_id
  | AcceptancePromise promise_id obligation_id

fun promise_id_of :: "'c promise \<Rightarrow> promise_id" where
  "promise_id_of (PublicDeclaration i _ _) = i"
| "promise_id_of (SourcePostimage i _ _ _) = i"
| "promise_id_of (CheckedSpecimen i _ _) = i"
| "promise_id_of (ProducedOutput i _) = i"
| "promise_id_of (AcceptancePromise i _) = i"

datatype sketch_language = LangRust | LangSim | LangText | LangOther string
datatype sketch_role = RolePattern | RoleInterface | RoleExample | RoleConstraint

datatype sketch_binding =
    UsesBinding string source_query
  | ProducesBinding string promise_id

fun binding_label :: "sketch_binding \<Rightarrow> string" where
  "binding_label (UsesBinding label _) = label"
| "binding_label (ProducesBinding label _) = label"

record anchored_sketch =
  sk_id :: sketch_id
  sk_language :: sketch_language
  sk_role :: sketch_role
  sk_body :: string
  sk_bindings :: "sketch_binding list"

record 'c implementation_guide =
  g_uses :: "source_query list"
  g_change_targets :: "change_target list"
  g_promises :: "'c promise list"
  g_sketches :: "anchored_sketch list"

record ('s, 'c) phase_spec =
  ph_id :: phase_id
  ph_parent :: "phase_id option"
  ph_title :: string
  ph_intent :: string
  ph_body :: phase_body
  ph_dependencies :: "'c phase_dependency list"
  ph_owners :: owner_envelope
  ph_resources :: "resource_id fset"
  ph_effects :: "effect_id fset"
  ph_capabilities :: "capability_id fset"
  ph_changes :: "change_id fset"
  ph_acceptance :: "('s, 'c) acceptance_contract"
  ph_coverage :: "obligation_coverage list"
  ph_outputs :: "(output_id, 'c output_contract) btmap"
  ph_guide :: "'c implementation_guide"
  ph_origin :: "'c phase_origin"

record ('s, 'c) roadmap_spec =
  sp_schema :: schema_id
  sp_roadmap :: roadmap_id
  sp_charter :: charter
  sp_root :: phase_id
  sp_phases :: "(phase_id, ('s, 'c) phase_spec) btmap"
  sp_imports :: "(import_id, 'c pinned_roadmap_ref) btmap"
  sp_limits :: limits

record revision_change =
  rc_id :: change_id
  rc_rationale :: string

section \<open>Completion values\<close>

datatype obligation_disposition =
    ChildDisposition phase_id obligation_id
  | RetainedDisposition

record ('s, 'c) aggregate_acceptance =
  aa_authored :: "('s, 'c) acceptance_contract"
  aa_inherited :: "(phase_id \<times> ('s, 'c) acceptance_contract) list"
  aa_coverage :: "(obligation_id, obligation_disposition) btmap"

section \<open>Facts about identifiers\<close>

lemma causal_path_new_Ok [simp]:
  "causal_path_new parts l = Ok p \<longleftrightarrow> p = parts \<and> length parts \<le> max_causal_path l"
  by (auto simp: causal_path_new_def)

lemma causal_path_new_total [simp]:
  "causal_path_new parts l \<noteq> Panic" "causal_path_new parts l \<noteq> Diverge"
  by (simp_all add: causal_path_new_def)

text \<open>What a constructed identifier is: nonempty, at most 96 bytes, free of control characters
  and of the separators and names a path could be made of.\<close>

definition id_ok :: "string \<Rightarrow> bool" where
  "id_ok v \<longleftrightarrow> v \<noteq> [] \<and> length v \<le> 96 \<and> \<not> has_control v \<and> v \<noteq> ''.'' \<and> v \<noteq> ''..''
     \<and> CHR ''/'' \<notin> set v \<and> CHR 0x5C \<notin> set v"

lemma text_id_new_code [code]: "text_id_new kind value = bind_o (validate_id kind value 96) (\<lambda>_. Ok value)"
  by (simp add: text_id_new_def limits_default_def)

lemma text_id_new_Ok: "text_id_new kind v = Ok w \<longleftrightarrow> w = v \<and> id_ok v"
  by (auto simp: text_id_new_def validate_id_def id_ok_def limits_default_def)

lemma text_id_new_total: "text_id_new kind v \<noteq> Panic" "text_id_new kind v \<noteq> Diverge"
  by (auto simp: text_id_new_def validate_id_def)

end
