(* ===== verification/Roadmap_Tree.thy ===== *)
theory Roadmap_Tree
  imports Roadmap_Types
begin

text \<open>
  \<open>sim-roadmap-core/src/tree.rs\<close>: structural validation of the parent/child tree of a
  roadmap. \<open>tree_validate\<close> is \<open>Tree::validate\<close>; its two loops are \<open>declare_phase\<close> (with the
  inner loop \<open>declare_child\<close>) and the depth-first \<open>walk\<close>. The results of the theory: a
  validated specification is a tree (every phase has one root-to-phase path, recorded with
  bounded length; a phase has one lister; the root has none), and \<open>descendants\<close> is the
  strict descendant relation of that tree.
\<close>

record tree =
  tr_paths :: "(phase_id, causal_path) btmap"
  tr_descendants :: "(phase_id, phase_id fset) btmap"

definition tree_failure ::
  "('s, 'c) roadmap_spec \<Rightarrow> string \<Rightarrow> phase_id \<Rightarrow> phase_id option \<Rightarrow> phase_id list
     \<Rightarrow> (failure, failure) outcome" where
  "tree_failure spec rule phase related path =
     bind_o (causal_path_new path (sp_limits spec)) (\<lambda>p. Ok (TreeFailure rule p phase related))"

text \<open>\<open>return Err(tree_failure(..)?)\<close>.\<close>

definition tree_reject ::
  "('s, 'c) roadmap_spec \<Rightarrow> string \<Rightarrow> phase_id \<Rightarrow> phase_id option \<Rightarrow> phase_id list
     \<Rightarrow> (failure, 'a) outcome" where
  "tree_reject spec rule phase related path =
     bind_o (tree_failure spec rule phase related path) Err"

definition parent_lookup :: "phase_id \<Rightarrow> ('s, 'c) roadmap_spec \<Rightarrow> phase_id option" where
  "parent_lookup pid spec =
     (case bt_get (sp_phases spec) pid of None \<Rightarrow> None | Some p \<Rightarrow> ph_parent p)"

section \<open>Declarations\<close>

type_synonym declarations = "(phase_id, phase_id) btmap \<times> phase_id fset"

definition declare_child ::
  "('s, 'c) roadmap_spec \<Rightarrow> phase_id \<Rightarrow> declarations \<Rightarrow> phase_id \<Rightarrow> (failure, declarations) outcome" where
  "declare_child spec pid decl child =
     (let (declared_parent, declared_children) = decl in
      if child |\<in>| declared_children then Err (Duplicate ''child'' child)
      else if \<not> bt_contains (sp_phases spec) child
           then tree_reject spec ''missing-child'' pid (Some child) [pid]
      else if (case bt_get declared_parent child of None \<Rightarrow> False | Some p \<Rightarrow> p \<noteq> pid)
           then tree_reject spec ''duplicate-child'' child (Some pid) [pid, child]
      else bind_o (expect (bt_get (sp_phases spec) child)) (\<lambda>cp.
        if ph_parent cp \<noteq> Some pid
        then tree_reject spec ''parent-child-mismatch'' child (Some pid) [pid, child]
        else Ok (bt_insert child pid declared_parent, finsert child declared_children)))"

definition declare_parent ::
  "('s, 'c) roadmap_spec \<Rightarrow> declarations \<Rightarrow> ('s, 'c) phase_spec \<Rightarrow> (failure, declarations) outcome" where
  "declare_parent spec decl phase =
     (case ph_parent phase of
        None \<Rightarrow> Ok decl
      | Some parent \<Rightarrow>
          if \<not> bt_contains (sp_phases spec) parent
          then tree_reject spec ''missing-parent'' (ph_id phase) (Some parent) [ph_id phase]
          else Ok (bt_insert (ph_id phase) parent (fst decl), snd decl))"

definition declare_phase ::
  "('s, 'c) roadmap_spec \<Rightarrow> declarations \<Rightarrow> ('s, 'c) phase_spec \<Rightarrow> (failure, declarations) outcome" where
  "declare_phase spec decl phase =
     bind_o (declare_parent spec decl phase) (\<lambda>decl'.
     case ph_body phase of
       Leaf _ \<Rightarrow> Ok decl'
     | Composite children \<Rightarrow>
         if children_per_phase (sp_limits spec) < length children
         then tree_reject spec ''children-limit'' (ph_id phase) None [ph_id phase]
         else if children = []
         then tree_reject spec ''empty-composite'' (ph_id phase) None [ph_id phase]
         else try_fold (declare_child spec (ph_id phase)) decl' children)"

section \<open>The depth-first walk\<close>

text \<open>
  \<open>walk\<close> returns the updated \<open>visiting\<close> set and path map. The depth test bounds the recursion:
  \<open>prefix\<close> grows by one at every level.
\<close>

type_synonym walk_state = "phase_id fset \<times> (phase_id, causal_path) btmap"

function walk ::
    "('s, 'c) roadmap_spec \<Rightarrow> phase_id \<Rightarrow> phase_id list \<Rightarrow> walk_state \<Rightarrow> (failure, walk_state) outcome"
  and walk_children ::
    "('s, 'c) roadmap_spec \<Rightarrow> phase_id list \<Rightarrow> phase_id list \<Rightarrow> walk_state \<Rightarrow> (failure, walk_state) outcome"
where
  "walk spec pid pre st =
     (if pid |\<in>| fst st then tree_reject spec ''cycle'' pid None (pre @ [pid])
      else if tree_depth (sp_limits spec) < length (pre @ [pid])
      then tree_reject spec ''tree-depth-limit'' pid None (pre @ [pid])
      else bind_o (causal_path_new (pre @ [pid]) (sp_limits spec)) (\<lambda>path.
        bind_o (expect (bt_get (sp_phases spec) pid)) (\<lambda>phase.
        bind_o
          (case ph_body phase of
             Leaf _ \<Rightarrow> Ok (finsert pid (fst st), bt_insert pid path (snd st))
           | Composite children \<Rightarrow>
               walk_children spec children (pre @ [pid])
                 (finsert pid (fst st), bt_insert pid path (snd st)))
          (\<lambda>st'. Ok (fst st' |-| {|pid|}, snd st')))))"
| "walk_children spec [] pre st = Ok st"
| "walk_children spec (c # cs) pre st =
     bind_o (walk spec c pre st) (\<lambda>st'. walk_children spec cs pre st')"
  by pat_completeness auto
termination
  by (relation "measures
        [\<lambda>x. case x of Inl (spec, pid, pre, st) \<Rightarrow> Suc (tree_depth (sp_limits spec)) - length pre
                     | Inr (spec, cs, pre, st) \<Rightarrow> Suc (tree_depth (sp_limits spec)) - length pre,
         \<lambda>x. case x of Inl _ \<Rightarrow> 0 | Inr (spec, cs, pre, st) \<Rightarrow> Suc (length cs)]") auto

declare walk.simps [simp del]

section \<open>Validation\<close>

type_synonym descendant_map = "(phase_id, phase_id fset) btmap"

definition add_descendant ::
  "phase_id \<Rightarrow> descendant_map \<Rightarrow> phase_id \<Rightarrow> (failure, descendant_map) outcome" where
  "add_descendant phase d ancestor =
     bind_o (expect (bt_get d ancestor)) (\<lambda>s. Ok (bt_insert ancestor (finsert phase s) d))"

definition add_to_ancestors ::
  "descendant_map \<Rightarrow> phase_id \<times> causal_path \<Rightarrow> (failure, descendant_map) outcome" where
  "add_to_ancestors d entry =
     try_fold (add_descendant (fst entry)) d (take (length (snd entry) - 1) (snd entry))"

definition tree_descendants ::
  "('s, 'c) roadmap_spec \<Rightarrow> (phase_id, causal_path) btmap \<Rightarrow> (failure, descendant_map) outcome" where
  "tree_descendants spec paths =
     try_fold add_to_ancestors
       (bt_of_list (map (\<lambda>p. (p, {||})) (bt_keys (sp_phases spec)))) (bt_entries paths)"

definition tree_validate :: "('s, 'c) roadmap_spec \<Rightarrow> (failure, tree) outcome" where
  "tree_validate spec =
     (if max_phases (sp_limits spec) < bt_len (sp_phases spec)
      then tree_reject spec ''phase-limit'' (sp_root spec) None [sp_root spec]
      else bind_o (ok_or (bt_get (sp_phases spec) (sp_root spec))
                     (Missing ''root phase'' (sp_root spec))) (\<lambda>root.
      if ph_parent root \<noteq> None
      then tree_reject spec ''root-has-parent'' (sp_root spec) (ph_parent root) [sp_root spec]
      else
        let roots = map ph_id (filter (\<lambda>p. ph_parent p = None) (bt_values (sp_phases spec))) in
        if length roots \<noteq> 1 \<or> hd roots \<noteq> sp_root spec
        then let phase = (case roots of [] \<Rightarrow> sp_root spec | r # _ \<Rightarrow> r) in
             tree_reject spec ''exactly-one-root'' phase None [phase]
        else
        bind_o (try_fold (declare_phase spec) (bt_empty, {||}) (bt_values (sp_phases spec))) (\<lambda>_.
        bind_o (walk spec (sp_root spec) [] ({||}, bt_empty)) (\<lambda>st.
        let paths = snd st in
        if bt_len paths \<noteq> bt_len (sp_phases spec)
        then bind_o (expect (find (\<lambda>k. \<not> bt_contains paths k) (bt_keys (sp_phases spec)))) (\<lambda>phase.
             tree_reject spec ''disconnected-phase'' phase (parent_lookup phase spec) [phase])
        else bind_o (tree_descendants spec paths) (\<lambda>desc.
             Ok \<lparr>tr_paths = paths, tr_descendants = desc\<rparr>)))))"

section \<open>Shape of a specification\<close>

definition lists_child :: "('s, 'c) roadmap_spec \<Rightarrow> phase_id \<Rightarrow> phase_id \<Rightarrow> bool" where
  "lists_child spec a b \<longleftrightarrow>
     (\<exists>ph cs. bt_get (sp_phases spec) a = Some ph \<and> ph_body ph = Composite cs \<and> b \<in> set cs)"

definition tree_path :: "('s, 'c) roadmap_spec \<Rightarrow> phase_id list \<Rightarrow> phase_id \<Rightarrow> bool" where
  "tree_path spec p k \<longleftrightarrow> p \<noteq> [] \<and> hd p = sp_root spec \<and> last p = k
     \<and> successively (lists_child spec) p \<and> distinct p"

text \<open>What every entry of the path map satisfies.\<close>

definition paths_ok :: "('s, 'c) roadmap_spec \<Rightarrow> (phase_id, causal_path) btmap \<Rightarrow> bool" where
  "paths_ok spec m \<longleftrightarrow> (\<forall>k p. bt_get m k = Some p \<longrightarrow>
     tree_path spec p k \<and> length p \<le> tree_depth (sp_limits spec)
     \<and> length p \<le> max_causal_path (sp_limits spec) \<and> bt_contains (sp_phases spec) k)"

text \<open>Where the walk stands: the visiting set is the set of the prefix, which is a path.\<close>

definition walk_at :: "('s, 'c) roadmap_spec \<Rightarrow> phase_id list \<Rightarrow> walk_state \<Rightarrow> bool" where
  "walk_at spec pre st \<longleftrightarrow> fst st = fset_of_list pre \<and> distinct pre
     \<and> successively (lists_child spec) pre \<and> (pre \<noteq> [] \<longrightarrow> hd pre = sp_root spec)
     \<and> paths_ok spec (snd st)"

lemma tree_reject_not_Ok [simp]: "tree_reject spec rule ph rel path \<noteq> Ok x"
  by (auto simp: tree_reject_def tree_failure_def bind_o_Ok)

lemma tree_reject_total [simp]:
  "tree_reject spec rule ph rel path \<noteq> Panic" "tree_reject spec rule ph rel path \<noteq> Diverge"
  by (auto simp: tree_reject_def tree_failure_def bind_o_Panic bind_o_Diverge)

lemma tree_path_snoc:
  assumes "walk_at spec pre st" and "pid \<notin> set pre"
    and "if pre = [] then pid = sp_root spec else lists_child spec (last pre) pid"
  shows "tree_path spec (pre @ [pid]) pid"
  using assms by (auto simp: tree_path_def walk_at_def successively_append_iff split: if_splits)

lemma walk_Ok_elim:
  assumes "walk spec pid pre st = Ok st'"
  obtains phase st1 where "pid |\<notin>| fst st" "length pre < tree_depth (sp_limits spec)"
    "length pre < max_causal_path (sp_limits spec)" "bt_get (sp_phases spec) pid = Some phase"
    "(case ph_body phase of
        Leaf _ \<Rightarrow> Ok (finsert pid (fst st), bt_insert pid (pre @ [pid]) (snd st))
      | Composite children \<Rightarrow>
          walk_children spec children (pre @ [pid])
            (finsert pid (fst st), bt_insert pid (pre @ [pid]) (snd st))) = Ok st1"
    "st' = (fst st1 |-| {|pid|}, snd st1)"
  using assms by (subst (asm) walk.simps) (auto simp: bind_o_Ok split: if_splits)

lemma walk_at_step:
  assumes at: "walk_at spec pre st" and fresh: "pid |\<notin>| fst st"
    and edge: "if pre = [] then pid = sp_root spec else lists_child spec (last pre) pid"
    and depth: "length pre < tree_depth (sp_limits spec)" "length pre < max_causal_path (sp_limits spec)"
    and key: "bt_get (sp_phases spec) pid = Some phase"
  shows "walk_at spec (pre @ [pid]) (finsert pid (fst st), bt_insert pid (pre @ [pid]) (snd st))"
proof -
  have notin: "pid \<notin> set pre"
    using at fresh by (simp add: walk_at_def fset_of_list_elem)
  have path: "tree_path spec (pre @ [pid]) pid"
    by (rule tree_path_snoc [OF at notin edge])
  then have "paths_ok spec (bt_insert pid (pre @ [pid]) (snd st))"
    using at depth key by (auto simp: paths_ok_def walk_at_def bt_contains_def)
  with at path show ?thesis
    by (auto simp: walk_at_def tree_path_def fset_eq_iff fset_of_list_elem)
qed

lemma walk_at_leave:
  assumes "walk_at spec (pre @ [pid]) st"
  shows "walk_at spec pre (fst st |-| {|pid|}, snd st)"
  using assms by (auto simp: walk_at_def successively_append_iff fset_eq_iff fset_of_list_elem)

lemma walk_invariant:
  "walk spec pid pre st = Ok st' \<Longrightarrow> walk_at spec pre st
     \<Longrightarrow> (if pre = [] then pid = sp_root spec else lists_child spec (last pre) pid)
     \<Longrightarrow> walk_at spec pre st'"
  "walk_children spec cs pre st = Ok st' \<Longrightarrow> walk_at spec pre st \<Longrightarrow> pre \<noteq> []
     \<Longrightarrow> (\<forall>c \<in> set cs. lists_child spec (last pre) c) \<Longrightarrow> walk_at spec pre st'"
proof (induction spec pid pre st and spec cs pre st arbitrary: st' and st' rule: walk_walk_children.induct)
  case (1 spec pid pre st)
  from "1.prems"(1) obtain phase st1 where
    *: "pid |\<notin>| fst st" "length pre < tree_depth (sp_limits spec)"
      "length pre < max_causal_path (sp_limits spec)"
    and key: "bt_get (sp_phases spec) pid = Some phase"
    and body: "(case ph_body phase of
        Leaf _ \<Rightarrow> Ok (finsert pid (fst st), bt_insert pid (pre @ [pid]) (snd st))
      | Composite children \<Rightarrow>
          walk_children spec children (pre @ [pid])
            (finsert pid (fst st), bt_insert pid (pre @ [pid]) (snd st))) = Ok st1"
    and st': "st' = (fst st1 |-| {|pid|}, snd st1)"
    by (rule walk_Ok_elim)
  have inside: "walk_at spec (pre @ [pid]) (finsert pid (fst st), bt_insert pid (pre @ [pid]) (snd st))"
    by (rule walk_at_step [OF "1.prems"(2) *(1) "1.prems"(3) *(2,3) key])
  have "walk_at spec (pre @ [pid]) st1"
  proof (cases "ph_body phase")
    case (Leaf x1)
    with body inside show ?thesis by simp
  next
    case (Composite cs)
    then have kids: "\<forall>c \<in> set cs. lists_child spec (last (pre @ [pid])) c"
      using key by (auto simp: lists_child_def)
    have run: "walk_children spec cs (pre @ [pid])
        (finsert pid (fst st), bt_insert pid (pre @ [pid]) (snd st)) = Ok st1"
      using body Composite by simp
    show ?thesis
      by (rule "1.IH" [OF *(1) _ _ _ Composite run inside _ kids])
         (use * key in auto)
  qed
  then show ?case using st' by (simp add: walk_at_leave)
next
  case (2 spec pre st)
  then show ?case by simp
next
  case (3 spec c cs pre st)
  from "3.prems"(1) obtain st1 where first: "walk spec c pre st = Ok st1"
    and rest: "walk_children spec cs pre st1 = Ok st'"
    by (auto simp: bind_o_Ok)
  have "walk_at spec pre st1"
    using "3.IH"(1) [OF first "3.prems"(2)] "3.prems"(3,4) by simp
  with "3.IH"(2) [OF first rest] "3.prems"(3,4) show ?case by simp
qed

section \<open>What the declaration loop establishes\<close>

definition kids :: "('s, 'c) phase_spec \<Rightarrow> phase_id list" where
  "kids ph = (case ph_body ph of Leaf _ \<Rightarrow> [] | Composite cs \<Rightarrow> cs)"

definition child_ok :: "('s, 'c) roadmap_spec \<Rightarrow> phase_id \<Rightarrow> phase_id \<Rightarrow> bool" where
  "child_ok spec pid c \<longleftrightarrow>
     (\<exists>cp. bt_get (sp_phases spec) c = Some cp \<and> ph_parent cp = Some pid)"

lemma lists_child_kids:
  "lists_child spec a b \<longleftrightarrow> (\<exists>ph. bt_get (sp_phases spec) a = Some ph \<and> b \<in> set (kids ph))"
proof
  assume "lists_child spec a b"
  then show "\<exists>ph. bt_get (sp_phases spec) a = Some ph \<and> b \<in> set (kids ph)"
    by (auto simp: lists_child_def kids_def)
next
  assume "\<exists>ph. bt_get (sp_phases spec) a = Some ph \<and> b \<in> set (kids ph)"
  then obtain ph where "bt_get (sp_phases spec) a = Some ph" "b \<in> set (kids ph)" by blast
  then show "lists_child spec a b"
    by (cases "ph_body ph") (auto simp: lists_child_def kids_def)
qed

lemma declare_child_Ok:
  assumes "declare_child spec pid decl c = Ok decl'"
  shows "c |\<notin>| snd decl" "snd decl' = finsert c (snd decl)" "child_ok spec pid c"
  using assms
  by (auto simp: declare_child_def child_ok_def bt_contains_def bind_o_Ok split: prod.splits if_splits)

lemma declare_children_Ok:
  "try_fold (declare_child spec pid) decl cs = Ok decl' \<Longrightarrow>
     distinct cs \<and> set cs \<inter> fset (snd decl) = {} \<and> fset (snd decl') = fset (snd decl) \<union> set cs
     \<and> (\<forall>c \<in> set cs. child_ok spec pid c)"
proof (induction cs arbitrary: decl)
  case (Cons c cs)
  then obtain d where d: "declare_child spec pid decl c = Ok d"
    and rest: "try_fold (declare_child spec pid) d cs = Ok decl'"
    by (auto simp: bind_o_Ok)
  from Cons.IH [OF rest] declare_child_Ok [OF d] show ?case by auto
qed simp

lemma declare_phase_Ok:
  assumes "declare_phase spec decl ph = Ok decl'"
  shows "distinct (kids ph) \<and> set (kids ph) \<inter> fset (snd decl) = {}
     \<and> fset (snd decl') = fset (snd decl) \<union> set (kids ph)
     \<and> (\<forall>c \<in> set (kids ph). child_ok spec (ph_id ph) c)
     \<and> (\<forall>parent. ph_parent ph = Some parent \<longrightarrow> bt_contains (sp_phases spec) parent)
     \<and> ph_body ph \<noteq> Composite [] \<and> length (kids ph) \<le> children_per_phase (sp_limits spec)"
proof -
  from assms obtain d where d: "declare_parent spec decl ph = Ok d" "snd d = snd decl"
    and parent: "\<forall>parent. ph_parent ph = Some parent \<longrightarrow> bt_contains (sp_phases spec) parent"
    and rest: "(case ph_body ph of Leaf _ \<Rightarrow> Ok d
     | Composite children \<Rightarrow>
         if children_per_phase (sp_limits spec) < length children
         then tree_reject spec ''children-limit'' (ph_id ph) None [ph_id ph]
         else if children = []
         then tree_reject spec ''empty-composite'' (ph_id ph) None [ph_id ph]
         else try_fold (declare_child spec (ph_id ph)) d children) = Ok decl'"
    by (auto simp: declare_phase_def declare_parent_def bind_o_Ok split: option.splits if_splits)
  show ?thesis
  proof (cases "ph_body ph")
    case (Leaf x)
    with rest d parent show ?thesis by (simp add: kids_def)
  next
    case (Composite cs)
    with rest have "try_fold (declare_child spec (ph_id ph)) d cs = Ok decl'" "cs \<noteq> []"
      "length cs \<le> children_per_phase (sp_limits spec)"
      by (auto split: if_splits)
    with declare_children_Ok [OF this(1)] d parent Composite show ?thesis
      by (simp add: kids_def)
  qed
qed

lemma declare_phases_Ok:
  "try_fold (declare_phase spec) decl phs = Ok decl' \<Longrightarrow>
     distinct (concat (map kids phs)) \<and> set (concat (map kids phs)) \<inter> fset (snd decl) = {}
     \<and> (\<forall>ph \<in> set phs. \<forall>c \<in> set (kids ph). child_ok spec (ph_id ph) c)
     \<and> (\<forall>ph \<in> set phs. \<forall>parent. ph_parent ph = Some parent \<longrightarrow> bt_contains (sp_phases spec) parent)
     \<and> (\<forall>ph \<in> set phs. ph_body ph \<noteq> Composite [] \<and> length (kids ph) \<le> children_per_phase (sp_limits spec))"
proof (induction phs arbitrary: decl)
  case (Cons ph phs)
  then obtain d where d: "declare_phase spec decl ph = Ok d"
    and rest: "try_fold (declare_phase spec) d phs = Ok decl'"
    by (auto simp: bind_o_Ok)
  from Cons.IH [OF rest] declare_phase_Ok [OF d] show ?case by auto
qed simp

lemma distinct_concat_unique:
  "distinct (concat (map f xs)) \<Longrightarrow> x \<in> set xs \<Longrightarrow> y \<in> set xs \<Longrightarrow> c \<in> set (f x)
     \<Longrightarrow> c \<in> set (f y) \<Longrightarrow> x = y"
  by (induction xs) auto

section \<open>Validated specifications are trees\<close>

text \<open>
  The abstract specification of \<open>Tree::validate\<close>: \<open>lists_child\<close> is a forest over the phases with
  exactly one root, every phase is reached from that root, and no path is longer than
  the depth limit.
\<close>

definition is_tree :: "('s, 'c) roadmap_spec \<Rightarrow> bool" where
  "is_tree spec \<longleftrightarrow>
     bt_contains (sp_phases spec) (sp_root spec)
     \<and> (\<forall>a b. lists_child spec a b \<longrightarrow> bt_contains (sp_phases spec) b \<and> b \<noteq> sp_root spec)
     \<and> (\<forall>a a' b. lists_child spec a b \<longrightarrow> lists_child spec a' b \<longrightarrow> a = a')
     \<and> (\<forall>k. bt_contains (sp_phases spec) k \<longrightarrow>
           (\<exists>p. tree_path spec p k \<and> length p \<le> tree_depth (sp_limits spec)))"

lemma tree_path_keys:
  assumes "tree_path spec p k" "b \<in> set p" "bt_contains (sp_phases spec) (sp_root spec)"
    "\<And>a c. lists_child spec a c \<Longrightarrow> bt_contains (sp_phases spec) c"
  shows "bt_contains (sp_phases spec) b"
proof -
  from assms(2) obtain i where i: "i < length p" "p ! i = b" by (auto simp: in_set_conv_nth)
  show ?thesis
  proof (cases i)
    case 0
    with i assms show ?thesis by (auto simp: tree_path_def hd_conv_nth)
  next
    case (Suc j)
    then have "lists_child spec (p ! j) b"
      using i assms(1) by (auto simp: tree_path_def successively_conv_nth)
    then show ?thesis by (rule assms(4))
  qed
qed

lemma tree_path_unique:
  assumes "is_tree spec" "tree_path spec p k" "tree_path spec q k"
  shows "p = q"
  using assms(2,3)
proof (induction p arbitrary: q k rule: rev_induct)
  case Nil
  then show ?case by (simp add: tree_path_def)
next
  case (snoc x p)
  then obtain q' where q: "q = q' @ [x]"
    by (cases q rule: rev_cases) (auto simp: tree_path_def)
  show ?case
  proof (cases "p = [] \<or> q' = []")
    case True
    then show ?thesis
      using snoc.prems q assms(1)
      by (cases "p = []"; cases "q' = []")
         (auto simp: tree_path_def is_tree_def successively_append_iff)
  next
    case False
    then have "lists_child spec (last p) x" "lists_child spec (last q') x"
      using snoc.prems q by (auto simp: tree_path_def successively_append_iff)
    then have "last p = last q'" using assms(1) by (auto simp: is_tree_def)
    moreover have "tree_path spec p (last p)" "tree_path spec q' (last q')"
      using snoc.prems q False by (auto simp: tree_path_def successively_append_iff)
    ultimately show ?thesis using snoc.IH q by auto
  qed
qed

lemma tree_path_extend:
  assumes "is_tree spec" "tree_path spec p a" "lists_child spec a b"
  shows "tree_path spec (p @ [b]) b"
proof -
  have "bt_contains (sp_phases spec) b" using assms(1,3) by (auto simp: is_tree_def)
  then obtain q where q: "tree_path spec q b" using assms(1) by (auto simp: is_tree_def)
  have "b \<noteq> sp_root spec" using assms by (auto simp: is_tree_def)
  obtain q' where qb: "q = q' @ [b]"
    using q by (cases q rule: rev_cases) (auto simp: tree_path_def)
  moreover have "q' \<noteq> []"
    using q qb \<open>b \<noteq> sp_root spec\<close> by (auto simp: tree_path_def)
  ultimately have q': "q = q' @ [b]" "q' \<noteq> []" by simp_all
  then have "lists_child spec (last q') b"
    using q by (auto simp: tree_path_def successively_append_iff)
  then have "last q' = a" using assms(1,3) by (auto simp: is_tree_def)
  moreover have "tree_path spec q' (last q')"
    using q q' by (auto simp: tree_path_def successively_append_iff)
  ultimately have "q' = p" using tree_path_unique assms(1,2) by blast
  with q q' show ?thesis by simp
qed

lemma tree_validate_Ok_elim:
  assumes "tree_validate spec = Ok t"
  obtains root decl st where
    "bt_len (sp_phases spec) \<le> max_phases (sp_limits spec)"
    "bt_get (sp_phases spec) (sp_root spec) = Some root" "ph_parent root = None"
    "map ph_id (filter (\<lambda>p. ph_parent p = None) (bt_values (sp_phases spec))) = [sp_root spec]"
    "try_fold (declare_phase spec) (bt_empty, {||}) (bt_values (sp_phases spec)) = Ok decl"
    "walk spec (sp_root spec) [] ({||}, bt_empty) = Ok st" "tr_paths t = snd st"
    "bt_len (snd st) = bt_len (sp_phases spec)"
    "tree_descendants spec (snd st) = Ok (tr_descendants t)"
  using assms
  by (auto simp: tree_validate_def Let_def bind_o_Ok length_Suc_conv split: if_splits)

lemma tree_validate_paths:
  assumes "tree_validate spec = Ok t"
  shows "paths_ok spec (tr_paths t)"
    and "bt_contains (tr_paths t) k \<longleftrightarrow> bt_contains (sp_phases spec) k"
proof -
  from assms obtain st where w: "walk spec (sp_root spec) [] ({||}, bt_empty) = Ok st"
    and t: "tr_paths t = snd st" and len: "bt_len (snd st) = bt_len (sp_phases spec)"
    by (elim tree_validate_Ok_elim)
  have "walk_at spec [] ({||}, bt_empty)"
    by (simp add: walk_at_def paths_ok_def)
  from walk_invariant(1) [OF w this] have ok: "paths_ok spec (snd st)"
    by (simp add: walk_at_def)
  then show "paths_ok spec (tr_paths t)" by (simp add: t)
  have "dom (bt_get (snd st)) \<subseteq> dom (bt_get (sp_phases spec))"
    using ok by (auto simp: paths_ok_def bt_contains_def)
  then have "dom (bt_get (snd st)) = dom (bt_get (sp_phases spec))"
    using len by (simp add: bt_len_card card_subset_eq)
  then show "bt_contains (tr_paths t) k \<longleftrightarrow> bt_contains (sp_phases spec) k"
    by (auto simp: t bt_contains_def)
qed

text \<open>The facts about single phases that the declaration loop has checked.\<close>

lemma tree_validate_declared:
  assumes "tree_validate spec = Ok t"
  shows "bt_get (sp_phases spec) a = Some ph \<Longrightarrow> c \<in> set (kids ph) \<Longrightarrow> child_ok spec (ph_id ph) c"
    and "bt_get (sp_phases spec) a = Some ph \<Longrightarrow> ph_body ph \<noteq> Composite []"
    and "bt_get (sp_phases spec) a = Some ph \<Longrightarrow> ph_parent ph = Some q \<Longrightarrow> bt_contains (sp_phases spec) q"
    and "lists_child spec a c \<Longrightarrow> lists_child spec b c \<Longrightarrow> a = b"
proof -
  from assms obtain decl where
    d: "try_fold (declare_phase spec) (bt_empty, {||}) (bt_values (sp_phases spec)) = Ok decl"
    by (elim tree_validate_Ok_elim)
  note facts = declare_phases_Ok [OF d]
  have val: "ph \<in> set (bt_values (sp_phases spec))" if "bt_get (sp_phases spec) a = Some ph" for a ph
    using that by (auto simp: set_bt_values ran_def)
  show "bt_get (sp_phases spec) a = Some ph \<Longrightarrow> c \<in> set (kids ph) \<Longrightarrow> child_ok spec (ph_id ph) c"
    and "bt_get (sp_phases spec) a = Some ph \<Longrightarrow> ph_body ph \<noteq> Composite []"
    and "bt_get (sp_phases spec) a = Some ph \<Longrightarrow> ph_parent ph = Some q \<Longrightarrow> bt_contains (sp_phases spec) q"
    using facts val by blast+
  have dist: "distinct (concat (map (\<lambda>e. kids (snd e)) (bt_entries (sp_phases spec))))"
    using facts by (simp add: bt_values_def comp_def)
  show "a = b" if la: "lists_child spec a c" and lb: "lists_child spec b c"
  proof -
    from la lb obtain pa pb where "(a, pa) \<in> set (bt_entries (sp_phases spec))" "c \<in> set (kids pa)"
      "(b, pb) \<in> set (bt_entries (sp_phases spec))" "c \<in> set (kids pb)"
      by (auto simp: lists_child_kids bt_get_Some_iff)
    then have "(a, pa) = (b, pb)" by (intro distinct_concat_unique [OF dist]) auto
    then show ?thesis by simp
  qed
qed

text \<open>
  The local rules of \<open>Tree::validate\<close>: the two counts, one phase without a parent and that is the
  root, parents that exist, and child lists that are neither empty nor too long nor repeat a child
  and agree with what the children declare.
\<close>

definition tree_declared :: "('s, 'c) roadmap_spec \<Rightarrow> bool" where
  "tree_declared spec \<longleftrightarrow>
     bt_len (sp_phases spec) \<le> max_phases (sp_limits spec)
     \<and> (\<exists>r. bt_get (sp_phases spec) (sp_root spec) = Some r \<and> ph_parent r = None)
     \<and> (\<forall>a ph. bt_get (sp_phases spec) a = Some ph \<longrightarrow>
          (case ph_parent ph of None \<Rightarrow> ph_id ph = sp_root spec | Some q \<Rightarrow> bt_contains (sp_phases spec) q)
          \<and> (\<forall>cs. ph_body ph = Composite cs \<longrightarrow>
               cs \<noteq> [] \<and> distinct cs \<and> length cs \<le> children_per_phase (sp_limits spec)
               \<and> (\<forall>c \<in> set cs. \<exists>child. bt_get (sp_phases spec) c = Some child \<and> ph_parent child = Some (ph_id ph))))"

lemma tree_validate_declares:
  assumes ok: "tree_validate spec = Ok t"
  shows "tree_declared spec"
proof -
  from ok obtain root decl where root: "bt_len (sp_phases spec) \<le> max_phases (sp_limits spec)"
    "bt_get (sp_phases spec) (sp_root spec) = Some root" "ph_parent root = None"
    and roots: "map ph_id (filter (\<lambda>p. ph_parent p = None) (bt_values (sp_phases spec))) = [sp_root spec]"
    and d: "try_fold (declare_phase spec) (bt_empty, {||}) (bt_values (sp_phases spec)) = Ok decl"
    by (elim tree_validate_Ok_elim)
  note facts = declare_phases_Ok [OF d]
  have val: "ph \<in> set (bt_values (sp_phases spec))" if "bt_get (sp_phases spec) a = Some ph" for a ph
    using that by (auto simp: set_bt_values ran_def)
  have orphan: "ph_id ph = sp_root spec" if "bt_get (sp_phases spec) a = Some ph" "ph_parent ph = None" for a ph
  proof -
    have "ph_id ph \<in> set (map ph_id (filter (\<lambda>p. ph_parent p = None) (bt_values (sp_phases spec))))"
      using val that by simp
    then show ?thesis unfolding roots by simp
  qed
  have dist: "distinct (kids ph)" if "bt_get (sp_phases spec) a = Some ph" for a ph
    using facts val [OF that] by (simp add: distinct_concat_iff)
  have size: "length (kids ph) \<le> children_per_phase (sp_limits spec)"
    if "bt_get (sp_phases spec) a = Some ph" for a ph
    using facts val [OF that] by blast
  show ?thesis
    unfolding tree_declared_def
  proof (intro conjI allI impI ballI)
    show "bt_len (sp_phases spec) \<le> max_phases (sp_limits spec)" by (rule root)
    show "\<exists>r. bt_get (sp_phases spec) (sp_root spec) = Some r \<and> ph_parent r = None"
      using root by simp
    fix a ph assume ph: "bt_get (sp_phases spec) a = Some ph"
    show "case ph_parent ph of None \<Rightarrow> ph_id ph = sp_root spec | Some q \<Rightarrow> bt_contains (sp_phases spec) q"
      using orphan [OF ph] tree_validate_declared(3) [OF ok ph] by (simp split: option.split)
    fix cs assume cs: "ph_body ph = Composite cs"
    then have kids: "kids ph = cs" by (simp add: kids_def)
    show "cs \<noteq> []" using tree_validate_declared(2) [OF ok ph] cs by simp
    show "distinct cs" using dist [OF ph] kids by simp
    show "length cs \<le> children_per_phase (sp_limits spec)" using size [OF ph] kids by simp
    fix c assume "c \<in> set cs"
    with tree_validate_declared(1) [OF ok ph] kids have "child_ok spec (ph_id ph) c" by simp
    then show "\<exists>child. bt_get (sp_phases spec) c = Some child \<and> ph_parent child = Some (ph_id ph)"
      by (auto simp: child_ok_def)
  qed
qed

lemma tree_validate_is_tree:
  assumes ok: "tree_validate spec = Ok t"
  shows "is_tree spec"
  unfolding is_tree_def
proof (intro conjI allI impI)
  from ok obtain root where root: "bt_get (sp_phases spec) (sp_root spec) = Some root"
    "ph_parent root = None" by (elim tree_validate_Ok_elim)
  then show "bt_contains (sp_phases spec) (sp_root spec)" by (simp add: bt_contains_def)
  fix a b
  assume ab: "lists_child spec a b"
  then obtain ph where "bt_get (sp_phases spec) a = Some ph" "b \<in> set (kids ph)"
    by (auto simp: lists_child_kids)
  then have "child_ok spec (ph_id ph) b" by (rule tree_validate_declared(1) [OF ok])
  with root show "bt_contains (sp_phases spec) b" "b \<noteq> sp_root spec"
    by (auto simp: child_ok_def bt_contains_def)
next
  fix a a' b
  assume "lists_child spec a b" "lists_child spec a' b"
  then show "a = a'" by (rule tree_validate_declared(4) [OF ok])
next
  fix k
  assume "bt_contains (sp_phases spec) k"
  then have "bt_contains (tr_paths t) k" by (simp add: tree_validate_paths [OF ok])
  then obtain p where "bt_get (tr_paths t) k = Some p" by (auto simp: bt_contains_def)
  then show "\<exists>p. tree_path spec p k \<and> length p \<le> tree_depth (sp_limits spec)"
    using tree_validate_paths(1) [OF ok] by (auto simp: paths_ok_def)
qed

lemma tree_validate_path:
  assumes ok: "tree_validate spec = Ok t" and k: "bt_contains (sp_phases spec) k"
  obtains p where "bt_get (tr_paths t) k = Some p" "tree_path spec p k"
    "length p \<le> tree_depth (sp_limits spec)" "length p \<le> max_causal_path (sp_limits spec)"
proof -
  from k obtain p where "bt_get (tr_paths t) k = Some p"
    using tree_validate_paths(2) [OF ok, of k] by (auto simp: bt_contains_def)
  then show ?thesis using that tree_validate_paths(1) [OF ok] by (auto simp: paths_ok_def)
qed

section \<open>Descendants\<close>

lemma add_descendant_fold:
  "set ancs \<subseteq> dom (bt_get d) \<Longrightarrow>
     \<exists>d'. try_fold (add_descendant ph) d ancs = Ok d'
       \<and> (\<forall>a. bt_get d' a = (if a \<in> set ancs then map_option (finsert ph) (bt_get d a) else bt_get d a))"
proof (induction ancs arbitrary: d)
  case (Cons a ancs)
  then obtain s where s: "bt_get d a = Some s" by auto
  let ?e = "bt_insert a (finsert ph s) d"
  have "set ancs \<subseteq> dom (bt_get ?e)" using Cons.prems by auto
  from Cons.IH [OF this] obtain d' where "try_fold (add_descendant ph) ?e ancs = Ok d'"
    "\<forall>b. bt_get d' b = (if b \<in> set ancs then map_option (finsert ph) (bt_get ?e b) else bt_get ?e b)"
    by blast
  moreover have "add_descendant ph d a = Ok ?e" using s by (simp add: add_descendant_def)
  ultimately show ?case using s by auto
qed simp

definition descendants_from :: "(phase_id \<times> causal_path) list \<Rightarrow> phase_id \<Rightarrow> phase_id set" where
  "descendants_from es a = {ph. \<exists>path. (ph, path) \<in> set es \<and> a \<in> set (butlast path)}"

lemma descendants_fold:
  "\<forall>e \<in> set es. set (butlast (snd e)) \<subseteq> dom (bt_get d) \<Longrightarrow>
     \<exists>d'. try_fold add_to_ancestors d es = Ok d' \<and> dom (bt_get d') = dom (bt_get d)
       \<and> (\<forall>a D. bt_get d a = Some D \<longrightarrow>
             (\<exists>D'. bt_get d' a = Some D' \<and> fset D' = fset D \<union> descendants_from es a))"
proof (induction es arbitrary: d)
  case Nil
  then show ?case by (simp add: descendants_from_def)
next
  case (Cons e es)
  obtain ph path where e: "e = (ph, path)" by (cases e)
  have "set (butlast path) \<subseteq> dom (bt_get d)" using Cons.prems e by simp
  from add_descendant_fold [OF this, of ph] obtain m where m: "add_to_ancestors d e = Ok m"
    and get: "\<forall>a. bt_get m a =
          (if a \<in> set (butlast path) then map_option (finsert ph) (bt_get d a) else bt_get d a)"
    by (auto simp: add_to_ancestors_def e butlast_conv_take)
  have dom: "dom (bt_get m) = dom (bt_get d)" by (auto simp: get split: if_splits)
  then have "\<forall>e \<in> set es. set (butlast (snd e)) \<subseteq> dom (bt_get m)" using Cons.prems by simp
  from Cons.IH [OF this] obtain d' where d': "try_fold add_to_ancestors m es = Ok d'"
    "dom (bt_get d') = dom (bt_get m)"
    and grown: "\<forall>a D. bt_get m a = Some D \<longrightarrow>
       (\<exists>D'. bt_get d' a = Some D' \<and> fset D' = fset D \<union> descendants_from es a)" by blast
  have "\<exists>D'. bt_get d' a = Some D' \<and> fset D' = fset D \<union> descendants_from (e # es) a"
    if "bt_get d a = Some D" for a D
  proof (cases "a \<in> set (butlast path)")
    case True
    then have "bt_get m a = Some (finsert ph D)" using get that by simp
    with grown True show ?thesis by (fastforce simp: descendants_from_def e)
  next
    case False
    then have "bt_get m a = Some D" using get that by simp
    with grown False show ?thesis by (fastforce simp: descendants_from_def e)
  qed
  then show ?case using m d' dom by auto
qed

lemma initial_descendants:
  "bt_get (bt_of_list (map (\<lambda>p. (p, {||})) (bt_keys m))) k = (if bt_contains m k then Some {||} else None)"
  by (simp add: bt_get_of_map_list [where f = "\<lambda>_. {||}"] in_bt_keys_iff)

lemma tree_descendants_correct:
  assumes ok: "paths_ok spec paths"
    and root: "bt_contains (sp_phases spec) (sp_root spec)"
    and listed: "\<And>a c. lists_child spec a c \<Longrightarrow> bt_contains (sp_phases spec) c"
  shows "\<exists>d. tree_descendants spec paths = Ok d
    \<and> (\<forall>a. bt_contains (sp_phases spec) a \<longrightarrow>
         (\<exists>D. bt_get d a = Some D \<and> fset D = {k. \<exists>p. bt_get paths k = Some p \<and> a \<in> set (butlast p)}))"
proof -
  let ?d0 = "bt_of_list (map (\<lambda>p. (p, {||})) (bt_keys (sp_phases spec))) :: descendant_map"
  have on_path: "bt_contains (sp_phases spec) b" if "tree_path spec p k" "b \<in> set p" for p k b
    by (rule tree_path_keys [OF that root listed])
  have "\<forall>e \<in> set (bt_entries paths). set (butlast (snd e)) \<subseteq> dom (bt_get ?d0)"
  proof (intro ballI subsetI)
    fix e x
    assume "e \<in> set (bt_entries paths)" "x \<in> set (butlast (snd e))"
    then have "bt_get paths (fst e) = Some (snd e)" "x \<in> set (snd e)"
      by (auto simp: bt_get_Some_iff dest: in_set_butlastD)
    then have "bt_contains (sp_phases spec) x" using ok on_path unfolding paths_ok_def by blast
    then show "x \<in> dom (bt_get ?d0)" by (simp add: initial_descendants dom_def)
  qed
  from descendants_fold [OF this] obtain d where
    run: "try_fold add_to_ancestors ?d0 (bt_entries paths) = Ok d"
    and grown: "\<forall>a D. bt_get ?d0 a = Some D \<longrightarrow>
       (\<exists>D'. bt_get d a = Some D' \<and> fset D' = fset D \<union> descendants_from (bt_entries paths) a)" by blast
  have "\<exists>D. bt_get d a = Some D \<and> fset D = {k. \<exists>p. bt_get paths k = Some p \<and> a \<in> set (butlast p)}"
    if "bt_contains (sp_phases spec) a" for a
  proof -
    have "bt_get ?d0 a = Some {||}" using that by (simp add: initial_descendants)
    with grown obtain D where "bt_get d a = Some D"
      "fset D = fset {||} \<union> descendants_from (bt_entries paths) a" by blast
    then show ?thesis by (simp add: descendants_from_def flip: bt_get_Some_iff)
  qed
  with run show ?thesis by (auto simp: tree_descendants_def)
qed

lemma tree_validate_descendants:
  assumes ok: "tree_validate spec = Ok t" and a: "bt_contains (sp_phases spec) a"
  obtains D where "bt_get (tr_descendants t) a = Some D"
    "\<And>k. k |\<in>| D \<longleftrightarrow> (\<exists>p. tree_path spec p k \<and> bt_contains (sp_phases spec) k \<and> a \<in> set (butlast p))"
proof -
  note tree = tree_validate_is_tree [OF ok]
  from ok have "tree_descendants spec (tr_paths t) = Ok (tr_descendants t)"
    by (elim tree_validate_Ok_elim) simp
  with tree_descendants_correct [OF tree_validate_paths(1) [OF ok]] tree a
  obtain D where D: "bt_get (tr_descendants t) a = Some D"
    "fset D = {k. \<exists>p. bt_get (tr_paths t) k = Some p \<and> a \<in> set (butlast p)}"
    by (auto simp: is_tree_def)
  have "k |\<in>| D \<longleftrightarrow> (\<exists>p. tree_path spec p k \<and> bt_contains (sp_phases spec) k \<and> a \<in> set (butlast p))"
    for k
  proof
    assume "k |\<in>| D"
    with D obtain p where "bt_get (tr_paths t) k = Some p" "a \<in> set (butlast p)" by auto
    then show "\<exists>p. tree_path spec p k \<and> bt_contains (sp_phases spec) k \<and> a \<in> set (butlast p)"
      using tree_validate_paths(1) [OF ok] by (auto simp: paths_ok_def)
  next
    assume "\<exists>p. tree_path spec p k \<and> bt_contains (sp_phases spec) k \<and> a \<in> set (butlast p)"
    then obtain p where p: "tree_path spec p k" "bt_contains (sp_phases spec) k" "a \<in> set (butlast p)"
      by blast
    from tree_validate_path [OF ok p(2)] obtain q where
      "bt_get (tr_paths t) k = Some q" "tree_path spec q k" by blast
    with tree_path_unique [OF tree p(1)] p(3) D(2) show "k |\<in>| D" by auto
  qed
  with D(1) that show ?thesis by blast
qed

section \<open>Validation never panics\<close>

lemma walk_no_Panic:
  "\<forall>a b. lists_child spec a b \<longrightarrow> bt_contains (sp_phases spec) b \<Longrightarrow>
     bt_contains (sp_phases spec) pid \<Longrightarrow> walk spec pid pre st \<noteq> Panic"
  "\<forall>a b. lists_child spec a b \<longrightarrow> bt_contains (sp_phases spec) b \<Longrightarrow>
     \<forall>c \<in> set cs. bt_contains (sp_phases spec) c \<Longrightarrow> walk_children spec cs pre st \<noteq> Panic"
proof (induction spec pid pre st and spec cs pre st rule: walk_walk_children.induct)
  case (1 spec pid pre st)
  from "1.prems"(2) obtain phase where key: "bt_get (sp_phases spec) pid = Some phase"
    by (auto simp: bt_contains_def)
  show ?case
  proof
    assume "walk spec pid pre st = Panic"
    then obtain children where *: "pid |\<notin>| fst st"
      "\<not> tree_depth (sp_limits spec) < length (pre @ [pid])"
      "causal_path_new (pre @ [pid]) (sp_limits spec) = Ok (pre @ [pid])"
      and body: "ph_body phase = Composite children"
      and bad: "walk_children spec children (pre @ [pid])
         (finsert pid (fst st), bt_insert pid (pre @ [pid]) (snd st)) = Panic"
      using key
      by (subst (asm) walk.simps) (auto simp: bind_o_Panic split: if_splits phase_body.splits)
    have "\<forall>c \<in> set children. bt_contains (sp_phases spec) c"
      using "1.prems"(1) key body unfolding lists_child_def by blast
    with "1.IH" [OF *, of phase children] key body bad "1.prems"(1) show False by simp
  qed
next
  case (3 spec c cs pre st)
  show ?case
  proof (cases "walk spec c pre st")
    case (Ok st1)
    with "3.IH"(2) [OF Ok] "3.prems" show ?thesis by simp
  next
    case Panic
    with "3.IH"(1) "3.prems" show ?thesis by simp
  qed auto
qed simp

lemma declare_child_no_Panic: "declare_child spec pid decl c \<noteq> Panic"
  by (auto simp: declare_child_def bind_o_Panic bt_contains_def split: prod.splits if_splits)

lemma declare_phase_no_Panic: "declare_phase spec decl ph \<noteq> Panic"
proof -
  have "try_fold (declare_child spec (ph_id ph)) d cs \<noteq> Panic" for d cs
    by (rule try_fold_no_Panic [where I = "\<lambda>_. True"]) (auto simp: declare_child_no_Panic)
  then show ?thesis
    by (auto simp: declare_phase_def declare_parent_def bind_o_Panic
        split: phase_body.splits option.splits if_splits)
qed

lemma missing_key_found:
  assumes "dom (bt_get m) \<subseteq> dom (bt_get n)" "bt_len m \<noteq> bt_len n"
  shows "find (\<lambda>k. \<not> bt_contains m k) (bt_keys n) \<noteq> None"
proof
  assume "find (\<lambda>k. \<not> bt_contains m k) (bt_keys n) = None"
  then have "\<forall>k \<in> set (bt_keys n). k \<in> dom (bt_get m)"
    by (auto simp: find_None_iff bt_contains_def)
  then have "dom (bt_get n) \<subseteq> dom (bt_get m)" by (simp add: set_bt_keys subset_iff)
  with assms(1) have "dom (bt_get m) = dom (bt_get n)" by (rule equalityI)
  with assms(2) show False by (simp add: bt_len_card)
qed

text \<open>Once the declarations are accepted, the rest of the run is on solid ground: keys the walk
  looks up exist and the paths it records are paths.\<close>

lemma declared_children_exist:
  assumes "try_fold (declare_phase spec) (bt_empty, {||}) (bt_values (sp_phases spec)) = Ok decl"
    and "lists_child spec a b"
  shows "bt_contains (sp_phases spec) b"
proof -
  from assms(2) obtain ph where "ph \<in> set (bt_values (sp_phases spec))" "b \<in> set (kids ph)"
    by (auto simp: lists_child_kids set_bt_values ran_def)
  with declare_phases_Ok [OF assms(1)] have "child_ok spec (ph_id ph) b" by blast
  then show ?thesis by (auto simp: child_ok_def bt_contains_def)
qed

lemma walk_root_paths_ok:
  assumes "walk spec (sp_root spec) [] ({||}, bt_empty) = Ok st"
  shows "paths_ok spec (snd st)"
proof -
  have "walk_at spec [] ({||}, bt_empty)" by (simp add: walk_at_def paths_ok_def)
  from walk_invariant(1) [OF assms this] show ?thesis by (simp add: walk_at_def)
qed

lemma paths_ok_keys: "paths_ok spec paths \<Longrightarrow> dom (bt_get paths) \<subseteq> dom (bt_get (sp_phases spec))"
  by (auto simp: paths_ok_def bt_contains_def)

lemma tree_validate_no_Panic: "tree_validate spec \<noteq> Panic"
proof
  assume bad: "tree_validate spec = Panic"
  have "try_fold (declare_phase spec) d phs \<noteq> Panic" for d phs
    by (rule try_fold_no_Panic [where I = "\<lambda>_. True"]) (auto simp: declare_phase_no_Panic)
  with bad obtain root decl where root: "bt_get (sp_phases spec) (sp_root spec) = Some root"
    and decl: "try_fold (declare_phase spec) (bt_empty, {||}) (bt_values (sp_phases spec)) = Ok decl"
    and rest: "walk spec (sp_root spec) [] ({||}, bt_empty) = Panic \<or>
      (\<exists>st. walk spec (sp_root spec) [] ({||}, bt_empty) = Ok st \<and>
        (bt_len (snd st) \<noteq> bt_len (sp_phases spec)
           \<and> find (\<lambda>k. \<not> bt_contains (snd st) k) (bt_keys (sp_phases spec)) = None
         \<or> tree_descendants spec (snd st) = Panic))"
    by (auto simp: tree_validate_def Let_def bind_o_Panic split: if_splits)
  note listed = declared_children_exist [OF decl]
  have rooted: "bt_contains (sp_phases spec) (sp_root spec)" using root by (simp add: bt_contains_def)
  then have "walk spec (sp_root spec) [] ({||}, bt_empty) \<noteq> Panic"
    using listed by (intro walk_no_Panic(1)) auto
  with rest obtain st where st: "walk spec (sp_root spec) [] ({||}, bt_empty) = Ok st"
    and "bt_len (snd st) \<noteq> bt_len (sp_phases spec)
           \<and> find (\<lambda>k. \<not> bt_contains (snd st) k) (bt_keys (sp_phases spec)) = None
         \<or> tree_descendants spec (snd st) = Panic" by blast
  moreover note walk_root_paths_ok [OF st]
  ultimately show False
    using missing_key_found [OF paths_ok_keys] tree_descendants_correct [OF _ rooted listed] by fastforce
qed

lemma walk_no_Diverge: "walk spec pid pre st \<noteq> Diverge" "walk_children spec cs pre st \<noteq> Diverge"
proof (induction spec pid pre st and spec cs pre st rule: walk_walk_children.induct)
  case (1 spec pid pre st)
  show ?case
  proof (cases "bt_get (sp_phases spec) pid")
    case None
    then show ?thesis by (subst walk.simps) (auto simp: bind_o_Diverge)
  next
    case (Some phase)
    with "1.IH" [of _ phase] show ?thesis
      by (subst walk.simps) (cases "ph_body phase"; auto simp: bind_o_Diverge)
  qed
qed (auto simp: bind_o_Diverge)

lemma tree_validate_no_Diverge: "tree_validate spec \<noteq> Diverge"
proof -
  have "declare_child spec pid decl c \<noteq> Diverge" for pid decl c
    by (auto simp: declare_child_def bind_o_Diverge split: prod.splits)
  then have "try_fold (declare_child spec pid) decl cs \<noteq> Diverge" for pid decl cs
    by (simp add: try_fold_no_Diverge)
  then have "declare_phase spec decl ph \<noteq> Diverge" for decl ph
    by (auto simp: declare_phase_def declare_parent_def bind_o_Diverge
        split: phase_body.splits option.splits if_splits)
  moreover have "add_to_ancestors d e \<noteq> Diverge" for d e
    by (auto simp: add_to_ancestors_def add_descendant_def bind_o_Diverge intro!: try_fold_no_Diverge)
  ultimately have "try_fold (declare_phase spec) decl phs \<noteq> Diverge"
    "tree_descendants spec paths \<noteq> Diverge" for decl phs paths
    by (simp_all add: tree_descendants_def try_fold_no_Diverge)
  then show ?thesis
    by (auto simp: tree_validate_def Let_def bind_o_Diverge walk_no_Diverge split: if_splits)
qed

end
