(* ===== verification/Roadmap_Admit.thy ===== *)
theory Roadmap_Admit
  imports Roadmap_Tree
begin

text \<open>
  \<open>sim-roadmap-core\<close>: \<open>inheritance.rs\<close> and \<open>admit.rs\<close>. \<open>compile\<close> is \<open>AdmittedRoadmap::compile\<close>:
  structural validation, the rejection of dependencies on oneself or a descendant, and the
  root-to-leaf compilation of envelopes and acceptance. \<open>compile_phase\<close> recurses without a
  guard of its own; its fuel is the depth limit, which \<open>compile_terminates\<close> shows to be enough
  for every specification that passes validation. An index on a missing key is \<open>Panic\<close>.
\<close>

section \<open>Envelope inheritance\<close>

definition narrowed ::
  "string fset \<Rightarrow> string fset \<Rightarrow> phase_id \<Rightarrow> phase_id \<Rightarrow> string \<Rightarrow> causal_path
     \<Rightarrow> (failure, string fset) outcome" where
  "narrowed ancestor child ancestor_id child_id field path =
     (case sorted_list_of_fset (child |-| ancestor) of
        v # _ \<Rightarrow> Err (Widening ancestor_id child_id field v path)
      | [] \<Rightarrow> Ok child)"

definition narrowed_owners ::
  "owner_id fset \<Rightarrow> owner_id fset \<Rightarrow> owner_id fset \<Rightarrow> owner_id fset \<Rightarrow> phase_id \<Rightarrow> phase_id
     \<Rightarrow> causal_path \<Rightarrow> (failure, unit) outcome" where
  "narrowed_owners ancestor_mutable ancestor_read child_mutable child_read ancestor_id child_id path =
     bind_o (narrowed ancestor_mutable child_mutable ancestor_id child_id ''owners.mutable'' path) (\<lambda>_.
     let allowed = ancestor_mutable |\<union>| ancestor_read in
     bind_o (narrowed allowed child_read ancestor_id child_id ''owners.read_only'' path) (\<lambda>_. Ok ()))"

definition acceptance_map ::
  "(phase_id \<times> ('s, 'c) acceptance_contract) list \<Rightarrow> (phase_id, ('s, 'c) acceptance_contract) btmap" where
  "acceptance_map items = bt_of_list items"

definition patch :: "'a fset \<Rightarrow> 'a fset \<Rightarrow> 'a fset" where
  "patch parent authored = (if authored = {||} then parent else authored)"

definition narrow_patch ::
  "string fset \<Rightarrow> string fset \<Rightarrow> phase_id \<Rightarrow> phase_id \<Rightarrow> string \<Rightarrow> causal_path
     \<Rightarrow> (failure, string fset) outcome" where
  "narrow_patch parent authored parent_id pid field path =
     (if authored = {||} then Ok parent else narrowed parent authored parent_id pid field path)"

section \<open>Admitted phases\<close>

record ('s, 'c) admitted_phase =
  authored_owners :: owner_envelope
  effective_owners :: owner_envelope
  authored_resources :: "resource_id fset"
  effective_resources :: "resource_id fset"
  authored_capabilities :: "capability_id fset"
  effective_capabilities :: "capability_id fset"
  authored_effects :: "effect_id fset"
  effective_effects :: "effect_id fset"
  authored_changes :: "change_id fset"
  effective_changes :: "change_id fset"
  adm_acceptance :: "('s, 'c) aggregate_acceptance"

record ('s, 'c) admitted_roadmap =
  adm_phases :: "(phase_id, ('s, 'c) admitted_phase) btmap"

section \<open>Obligation coverage\<close>

type_synonym dispositions = "(obligation_id, obligation_disposition) btmap"

definition child_contracts ::
  "('s, 'c) roadmap_spec \<Rightarrow> phase_id list
     \<Rightarrow> (failure, (phase_id \<times> ('s, 'c) acceptance_contract) list) outcome" where
  "child_contracts spec children =
     try_fold (\<lambda>acc c. bind_o (expect (bt_get (sp_phases spec) c)) (\<lambda>cp. Ok (acc @ [(c, ph_acceptance cp)])))
       [] children"

definition cover_marker ::
  "phase_id \<Rightarrow> causal_path \<Rightarrow> phase_id list \<Rightarrow> (phase_id, ('s, 'c) acceptance_contract) btmap
     \<Rightarrow> ('s, 'c) acceptance_contract \<Rightarrow> dispositions \<Rightarrow> obligation_coverage
     \<Rightarrow> (failure, dispositions) outcome" where
  "cover_marker parent_id path children child_acceptance acceptance ds marker =
     bind_o
       (case marker of
          RetainedAtParent parent \<Rightarrow> Ok (parent, RetainedDisposition)
        | Contributes parent phase child \<Rightarrow>
            if phase \<notin> set children
            then Err (CoverageFailure ''invented-child-obligation'' parent_id child path)
            else bind_o (expect (bt_get child_acceptance phase)) (\<lambda>contract.
              if \<not> bt_contains (ac_statements contract) child
              then Err (CoverageFailure ''invented-child-obligation'' parent_id child path)
              else Ok (parent, ChildDisposition phase child)))
       (\<lambda>(parent, disposition).
          if \<not> bt_contains (ac_statements acceptance) parent
          then Err (CoverageFailure ''unknown-parent-obligation'' parent_id parent path)
          else if bt_contains ds parent
          then Err (CoverageFailure ''duplicate-parent-coverage'' parent_id parent path)
          else Ok (bt_insert parent disposition ds))"

definition traced_pairs :: "obligation_coverage list \<Rightarrow> (phase_id \<times> obligation_id) list" where
  "traced_pairs coverage =
     List.map_filter (\<lambda>c. case c of Contributes _ phase child \<Rightarrow> Some (phase, child) | _ \<Rightarrow> None) coverage"

definition validate_coverage ::
  "('s, 'c) roadmap_spec \<Rightarrow> phase_id \<Rightarrow> ('s, 'c) acceptance_contract \<Rightarrow> (failure, dispositions) outcome" where
  "validate_coverage spec parent_id acceptance =
     bind_o (expect (bt_get (sp_phases spec) parent_id)) (\<lambda>phase.
     case ph_body phase of
       Leaf _ \<Rightarrow> Ok bt_empty
     | Composite children \<Rightarrow>
         bind_o (tree_validate spec) (\<lambda>tree.
         bind_o (expect (bt_get (tr_paths tree) parent_id)) (\<lambda>path.
         bind_o (child_contracts spec children) (\<lambda>contracts.
         let child_acceptance = acceptance_map contracts in
         bind_o (try_fold (cover_marker parent_id path children child_acceptance acceptance)
                   bt_empty (ph_coverage phase)) (\<lambda>ds.
         bind_o (for_each (\<lambda>obligation.
                   if bt_contains ds obligation then Ok ()
                   else Err (CoverageFailure ''dropped-parent-obligation'' parent_id obligation path))
                   (bt_keys (ac_statements acceptance))) (\<lambda>_.
         let traced = traced_pairs (ph_coverage phase) in
         bind_o (for_each (\<lambda>(child_phase, contract).
                   for_each (\<lambda>obligation.
                     if (child_phase, obligation) \<in> set traced then Ok ()
                     else Err (CoverageFailure ''untraced-child-obligation'' parent_id obligation path))
                     (bt_keys (ac_statements contract)))
                   (bt_entries child_acceptance)) (\<lambda>_. Ok ds)))))))"

section \<open>Completion cycles\<close>

fun local_reference :: "'c phase_dependency \<Rightarrow> phase_id option" where
  "local_reference (Requires (LocalRef i)) = Some i"
| "local_reference (PrefersAfter (LocalRef i)) = Some i"
| "local_reference (Consumes output) = (case or_phase output of LocalRef i \<Rightarrow> Some i | _ \<Rightarrow> None)"
| "local_reference _ = None"

definition reject_dependency ::
  "tree \<Rightarrow> ('s, 'c) phase_spec \<Rightarrow> 'c phase_dependency \<Rightarrow> (failure, unit) outcome" where
  "reject_dependency tree phase dependency =
     (case local_reference dependency of
        None \<Rightarrow> Ok ()
      | Some dep \<Rightarrow>
          bind_o (if dep = ph_id phase then Ok True
                  else bind_o (expect (bt_get (tr_descendants tree) (ph_id phase))) (\<lambda>ds. Ok (dep |\<in>| ds)))
            (\<lambda>circular.
             if circular
             then bind_o (expect (bt_get (tr_paths tree) (ph_id phase))) (\<lambda>path.
                    Err (CircularCompletion (ph_id phase) dep path))
             else Ok ()))"

definition reject_completion_cycles ::
  "('s, 'c) roadmap_spec \<Rightarrow> tree \<Rightarrow> (failure, unit) outcome" where
  "reject_completion_cycles spec tree =
     for_each (\<lambda>phase. for_each (reject_dependency tree phase) (ph_dependencies phase))
       (bt_values (sp_phases spec))"

section \<open>Compilation\<close>

text \<open>
  \<open>admit_phase\<close> is the body of \<open>compile_phase\<close> up to the construction of \<open>current\<close>.
\<close>

definition admit_phase ::
  "('s, 'c) roadmap_spec \<Rightarrow> tree \<Rightarrow> phase_id \<Rightarrow> (phase_id \<times> ('s, 'c) admitted_phase) option
     \<Rightarrow> (failure, ('s, 'c) admitted_phase) outcome" where
  "admit_phase spec tree pid parent =
     bind_o (expect (bt_get (sp_phases spec) pid)) (\<lambda>phase.
     bind_o (expect (bt_get (tr_paths tree) pid)) (\<lambda>path.
     bind_o
       (case parent of
          Some (parent_id, p) \<Rightarrow>
            bind_o (narrowed_owners (oe_mutable (effective_owners p)) (oe_read_only (effective_owners p))
                      (oe_mutable (ph_owners phase)) (oe_read_only (ph_owners phase)) parent_id pid path) (\<lambda>_.
            bind_o (narrow_patch (effective_resources p) (ph_resources phase) parent_id pid ''resources'' path)
              (\<lambda>resources.
            bind_o (narrow_patch (effective_capabilities p) (ph_capabilities phase) parent_id pid
                      ''capabilities'' path) (\<lambda>capabilities.
            bind_o (narrow_patch (effective_effects p) (ph_effects phase) parent_id pid ''effects'' path)
              (\<lambda>effects.
            bind_o (narrow_patch (effective_changes p) (ph_changes phase) parent_id pid ''change-targets'' path)
              (\<lambda>changes.
            Ok (\<lparr>oe_mutable = patch (oe_mutable (effective_owners p)) (oe_mutable (ph_owners phase)),
                 oe_read_only = patch (oe_read_only (effective_owners p)) (oe_read_only (ph_owners phase))\<rparr>,
                resources, capabilities, effects, changes,
                aa_inherited (adm_acceptance p) @ [(parent_id, aa_authored (adm_acceptance p))]))))))
        | None \<Rightarrow>
            Ok (ph_owners phase, ph_resources phase, ph_capabilities phase, ph_effects phase,
                ph_changes phase, []))
       (\<lambda>(owners, resources, capabilities, effects, changes, inherited).
     bind_o (validate_coverage spec pid (ph_acceptance phase)) (\<lambda>coverage.
     Ok \<lparr>authored_owners = ph_owners phase, effective_owners = owners,
         authored_resources = ph_resources phase, effective_resources = resources,
         authored_capabilities = ph_capabilities phase, effective_capabilities = capabilities,
         authored_effects = ph_effects phase, effective_effects = effects,
         authored_changes = ph_changes phase, effective_changes = changes,
         adm_acceptance = \<lparr>aa_authored = ph_acceptance phase, aa_inherited = inherited,
                           aa_coverage = coverage\<rparr>\<rparr>))))"

fun compile_phase ::
  "nat \<Rightarrow> ('s, 'c) roadmap_spec \<Rightarrow> tree \<Rightarrow> phase_id \<Rightarrow> (phase_id \<times> ('s, 'c) admitted_phase) option
     \<Rightarrow> (phase_id, ('s, 'c) admitted_phase) btmap
     \<Rightarrow> (failure, (phase_id, ('s, 'c) admitted_phase) btmap) outcome" where
  "compile_phase 0 spec tree pid parent admitted = Diverge"
| "compile_phase (Suc fuel) spec tree pid parent admitted =
     bind_o (expect (bt_get (sp_phases spec) pid)) (\<lambda>phase.
     bind_o (admit_phase spec tree pid parent) (\<lambda>current.
     case ph_body phase of
       Leaf _ \<Rightarrow> Ok (bt_insert pid current admitted)
     | Composite children \<Rightarrow>
         try_fold (\<lambda>a child. compile_phase fuel spec tree child (Some (pid, current)) a)
           (bt_insert pid current admitted) children))"

definition compile :: "('s, 'c) roadmap_spec \<Rightarrow> (failure, ('s, 'c) admitted_roadmap) outcome" where
  "compile spec =
     bind_o (tree_validate spec) (\<lambda>tree.
     bind_o (reject_completion_cycles spec tree) (\<lambda>_.
     bind_o (compile_phase (tree_depth (sp_limits spec)) spec tree (sp_root spec) None bt_empty) (\<lambda>phases.
     Ok \<lparr>adm_phases = phases\<rparr>)))"

text \<open>\<open>RoadmapSpec::admit\<close>.\<close>

definition admit :: "('s, 'c) roadmap_spec \<Rightarrow> (failure, ('s, 'c) admitted_roadmap) outcome" where
  "admit spec = compile spec"

section \<open>Narrowing\<close>

lemma sorted_list_of_fset_Nil: "sorted_list_of_fset A = [] \<longleftrightarrow> A = {||}"
  by (auto simp: sorted_list_of_fset.rep_eq sorted_list_of_set_eq_Nil_iff)

lemma narrowed_Ok [simp]: "narrowed a c ai ci field path = Ok r \<longleftrightarrow> r = c \<and> c |\<subseteq>| a"
proof -
  have "c |-| a = {||} \<longleftrightarrow> c |\<subseteq>| a" by auto
  then show ?thesis
    by (auto simp: narrowed_def split: list.splits simp flip: sorted_list_of_fset_Nil)
qed

lemma narrowed_total [simp]:
  "narrowed a c ai ci field path \<noteq> Panic" "narrowed a c ai ci field path \<noteq> Diverge"
  by (auto simp: narrowed_def split: list.splits)

lemma narrow_patch_Ok [simp]:
  "narrow_patch p a pi ci field path = Ok r \<longleftrightarrow> r = patch p a \<and> r |\<subseteq>| p"
  by (auto simp: narrow_patch_def patch_def)

lemma narrow_patch_total [simp]:
  "narrow_patch p a pi ci field path \<noteq> Panic" "narrow_patch p a pi ci field path \<noteq> Diverge"
  by (auto simp: narrow_patch_def)

lemma narrowed_owners_Ok [simp]:
  "narrowed_owners am ar cm cr ai ci path = Ok u \<longleftrightarrow> cm |\<subseteq>| am \<and> cr |\<subseteq>| am |\<union>| ar"
  by (auto simp: narrowed_owners_def bind_o_Ok)

lemma narrowed_owners_total [simp]:
  "narrowed_owners am ar cm cr ai ci path \<noteq> Panic" "narrowed_owners am ar cm cr ai ci path \<noteq> Diverge"
  by (auto simp: narrowed_owners_def bind_o_Panic bind_o_Diverge)

text \<open>The contract between a phase and its parent: no envelope is wider than the parent's.\<close>

definition narrows :: "('s, 'c) admitted_phase \<Rightarrow> ('s, 'c) admitted_phase \<Rightarrow> bool" where
  "narrows p c \<longleftrightarrow>
     oe_mutable (effective_owners c) |\<subseteq>| oe_mutable (effective_owners p)
     \<and> oe_read_only (effective_owners c) |\<subseteq>|
         oe_mutable (effective_owners p) |\<union>| oe_read_only (effective_owners p)
     \<and> effective_resources c |\<subseteq>| effective_resources p
     \<and> effective_capabilities c |\<subseteq>| effective_capabilities p
     \<and> effective_effects c |\<subseteq>| effective_effects p
     \<and> effective_changes c |\<subseteq>| effective_changes p"

lemma narrows_refl: "narrows p p"
  by (auto simp: narrows_def)

lemma narrows_trans: "narrows a b \<Longrightarrow> narrows b c \<Longrightarrow> narrows a c"
  unfolding narrows_def by blast

lemma patch_narrows: "a |\<subseteq>| p \<Longrightarrow> patch p a |\<subseteq>| p"
  by (simp add: patch_def)

lemma patch_narrows2: "a |\<subseteq>| m |\<union>| p \<Longrightarrow> patch p a |\<subseteq>| m |\<union>| p"
  by (auto simp: patch_def)

lemma admit_phase_child:
  assumes "admit_phase spec t pid (Some (parent_id, p)) = Ok e"
  shows "narrows p e"
    and "aa_inherited (adm_acceptance e) =
           aa_inherited (adm_acceptance p) @ [(parent_id, aa_authored (adm_acceptance p))]"
proof -
  show "narrows p e"
    using assms
    by (clarsimp simp: admit_phase_def bind_o_Ok) (simp add: narrows_def patch_narrows patch_narrows2)
  show "aa_inherited (adm_acceptance e) =
           aa_inherited (adm_acceptance p) @ [(parent_id, aa_authored (adm_acceptance p))]"
    using assms by (auto simp: admit_phase_def bind_o_Ok)
qed

lemma admit_phase_local:
  assumes "admit_phase spec t pid parent = Ok e"
  obtains phase where "bt_get (sp_phases spec) pid = Some phase"
    "authored_owners e = ph_owners phase" "authored_resources e = ph_resources phase"
    "authored_capabilities e = ph_capabilities phase" "authored_effects e = ph_effects phase"
    "authored_changes e = ph_changes phase" "aa_authored (adm_acceptance e) = ph_acceptance phase"
    "validate_coverage spec pid (ph_acceptance phase) = Ok (aa_coverage (adm_acceptance e))"
  using assms by (auto simp: admit_phase_def bind_o_Ok split: option.splits)

section \<open>The entries of an admitted roadmap\<close>

text \<open>
  An entry is determined by the path to its phase: the root is admitted without a parent,
  a child with its parent's entry.
\<close>

inductive admitted_entry ::
  "('s, 'c) roadmap_spec \<Rightarrow> tree \<Rightarrow> phase_id \<Rightarrow> ('s, 'c) admitted_phase \<Rightarrow> bool"
  for spec t where
  entry_root: "admit_phase spec t (sp_root spec) None = Ok e \<Longrightarrow> admitted_entry spec t (sp_root spec) e"
| entry_child: "admitted_entry spec t a ea \<Longrightarrow> lists_child spec a b
    \<Longrightarrow> admit_phase spec t b (Some (a, ea)) = Ok e \<Longrightarrow> admitted_entry spec t b e"

lemma admitted_entry_rootD:
  assumes "is_tree spec" "admitted_entry spec t (sp_root spec) e"
  shows "admit_phase spec t (sp_root spec) None = Ok e"
  using assms(2)
proof (cases rule: admitted_entry.cases)
  case entry_root
  then show ?thesis by simp
next
  case (entry_child a ea)
  with assms(1) show ?thesis by (auto simp: is_tree_def)
qed

lemma admitted_entry_childD:
  assumes "is_tree spec" "admitted_entry spec t b e" "lists_child spec a b"
  obtains ea where "admitted_entry spec t a ea" "admit_phase spec t b (Some (a, ea)) = Ok e"
  using assms(2)
proof (cases rule: admitted_entry.cases)
  case entry_root
  with assms(1,3) have False by (auto simp: is_tree_def)
  then show ?thesis ..
next
  case (entry_child a' ea)
  moreover from this have "a' = a" using assms(1,3) by (auto simp: is_tree_def)
  ultimately show ?thesis using that by simp
qed

lemma admitted_entry_unique:
  assumes "is_tree spec" "admitted_entry spec t k e" "admitted_entry spec t k e'"
  shows "e' = e"
  using assms(2,3)
proof (induction arbitrary: e' rule: admitted_entry.induct)
  case (entry_root e)
  then show ?case using admitted_entry_rootD [OF assms(1)] by fastforce
next
  case (entry_child a ea b e)
  from admitted_entry_childD [OF assms(1) entry_child.prems entry_child.hyps(2)] obtain ea' where
    "admitted_entry spec t a ea'" "admit_phase spec t b (Some (a, ea')) = Ok e'" .
  with entry_child.IH entry_child.hyps(3) show ?case by auto
qed

definition parent_entry ::
  "('s, 'c) roadmap_spec \<Rightarrow> tree \<Rightarrow> phase_id \<Rightarrow> (phase_id \<times> ('s, 'c) admitted_phase) option \<Rightarrow> bool" where
  "parent_entry spec t pid parent \<longleftrightarrow>
     (case parent of None \<Rightarrow> pid = sp_root spec
      | Some (a, ea) \<Rightarrow> admitted_entry spec t a ea \<and> lists_child spec a pid)"

definition entries_ok ::
  "('s, 'c) roadmap_spec \<Rightarrow> tree \<Rightarrow> (phase_id, ('s, 'c) admitted_phase) btmap \<Rightarrow> bool" where
  "entries_ok spec t m \<longleftrightarrow> (\<forall>k e. bt_get m k = Some e \<longrightarrow> admitted_entry spec t k e)"

lemma compile_phase_Suc_elim:
  assumes "compile_phase (Suc fuel) spec t pid parent adm = Ok adm'"
  obtains phase e where "bt_get (sp_phases spec) pid = Some phase"
    "admit_phase spec t pid parent = Ok e"
    "try_fold (\<lambda>a c. compile_phase fuel spec t c (Some (pid, e)) a) (bt_insert pid e adm) (kids phase)
       = Ok adm'"
proof -
  from assms obtain phase e where key: "bt_get (sp_phases spec) pid = Some phase"
    and e: "admit_phase spec t pid parent = Ok e"
    and run: "(case ph_body phase of Leaf _ \<Rightarrow> Ok (bt_insert pid e adm)
     | Composite children \<Rightarrow>
         try_fold (\<lambda>a child. compile_phase fuel spec t child (Some (pid, e)) a)
           (bt_insert pid e adm) children) = Ok adm'"
    by (auto simp: bind_o_Ok)
  then show ?thesis by (intro that [OF key e]) (cases "ph_body phase"; simp add: kids_def)
qed

lemma parent_entry_admitted:
  assumes "parent_entry spec t pid parent" "admit_phase spec t pid parent = Ok e"
  shows "admitted_entry spec t pid e"
  using assms by (auto simp: parent_entry_def split: option.splits intro: admitted_entry.intros)

lemma compile_phase_entries:
  "compile_phase fuel spec t pid parent adm = Ok adm' \<Longrightarrow> parent_entry spec t pid parent
     \<Longrightarrow> entries_ok spec t adm \<Longrightarrow> entries_ok spec t adm'"
proof (induction fuel arbitrary: pid parent adm adm')
  case (Suc fuel)
  from Suc.prems(1) obtain phase e where key: "bt_get (sp_phases spec) pid = Some phase"
    and e: "admit_phase spec t pid parent = Ok e"
    and run: "try_fold (\<lambda>a c. compile_phase fuel spec t c (Some (pid, e)) a) (bt_insert pid e adm)
       (kids phase) = Ok adm'"
    by (rule compile_phase_Suc_elim)
  have entry: "admitted_entry spec t pid e" using Suc.prems(2) e by (rule parent_entry_admitted)
  have kid: "parent_entry spec t c (Some (pid, e))" if "c \<in> set (kids phase)" for c
    using that entry key by (auto simp: parent_entry_def lists_child_kids)
  have "entries_ok spec t (bt_insert pid e adm)"
    using Suc.prems(3) entry by (auto simp: entries_ok_def)
  with run show ?case
    by (rule try_fold_invariant [where I = "entries_ok spec t"]) (use Suc.IH kid in blast)
qed simp

lemma compile_phase_reaches:
  "compile_phase fuel spec t pid parent adm = Ok adm' \<Longrightarrow>
     dom (bt_get adm) \<subseteq> dom (bt_get adm')
     \<and> (\<forall>q. successively (lists_child spec) (pid # q) \<longrightarrow> set (pid # q) \<subseteq> dom (bt_get adm'))"
proof (induction fuel arbitrary: pid parent adm adm')
  case (Suc fuel)
  from Suc.prems(1) obtain phase e where key: "bt_get (sp_phases spec) pid = Some phase"
    and run: "try_fold (\<lambda>a c. compile_phase fuel spec t c (Some (pid, e)) a) (bt_insert pid e adm)
       (kids phase) = Ok adm'"
    by (rule compile_phase_Suc_elim)
  have mono: "dom (bt_get s) \<subseteq> dom (bt_get s')"
    if "try_fold (\<lambda>a c. compile_phase fuel spec t c (Some (pid, e)) a) s cs = Ok s'" for s s' cs
    by (rule try_fold_invariant [OF that, where I = "\<lambda>x. dom (bt_get s) \<subseteq> dom (bt_get x)"])
       (use Suc.IH in blast)+
  have grown: "insert pid (dom (bt_get adm)) \<subseteq> dom (bt_get adm')"
    using mono [OF run] by simp
  have "set (pid # q) \<subseteq> dom (bt_get adm')" if chain: "successively (lists_child spec) (pid # q)" for q
  proof (cases q)
    case Nil
    with grown show ?thesis by simp
  next
    case (Cons c q')
    with chain key have c: "c \<in> set (kids phase)" and sub: "successively (lists_child spec) (c # q')"
      by (auto simp: lists_child_kids)
    from try_fold_split [OF run c] obtain ys zs s1 s2 where
      "compile_phase fuel spec t c (Some (pid, e)) s1 = Ok s2"
      "try_fold (\<lambda>a c. compile_phase fuel spec t c (Some (pid, e)) a) s2 zs = Ok adm'" by metis
    then have "set (c # q') \<subseteq> dom (bt_get adm')" using Suc.IH sub mono by blast
    with grown Cons show ?thesis by auto
  qed
  with grown show ?case by auto
qed simp

section \<open>Compilation: soundness\<close>

lemma compile_Ok_elim:
  assumes "compile spec = Ok r"
  obtains t where "tree_validate spec = Ok t" "reject_completion_cycles spec t = Ok ()"
    "compile_phase (tree_depth (sp_limits spec)) spec t (sp_root spec) None bt_empty = Ok (adm_phases r)"
  using assms by (auto simp: compile_def bind_o_Ok)

lemma compile_entries:
  assumes "compile spec = Ok r" "tree_validate spec = Ok t"
  shows "bt_contains (adm_phases r) k \<longleftrightarrow> bt_contains (sp_phases spec) k"
    and "bt_get (adm_phases r) k = Some e \<Longrightarrow> admitted_entry spec t k e"
proof -
  from assms have run:
    "compile_phase (tree_depth (sp_limits spec)) spec t (sp_root spec) None bt_empty = Ok (adm_phases r)"
    by (auto elim: compile_Ok_elim)
  have ok: "entries_ok spec t (adm_phases r)"
    by (rule compile_phase_entries [OF run]) (simp_all add: parent_entry_def entries_ok_def)
  then show "bt_get (adm_phases r) k = Some e \<Longrightarrow> admitted_entry spec t k e"
    by (simp add: entries_ok_def)
  have in_spec: "bt_contains (sp_phases spec) k" if "admitted_entry spec t k e" for e
    using that by (cases rule: admitted_entry.cases) (auto elim!: admit_phase_local simp: bt_contains_def)
  show "bt_contains (adm_phases r) k \<longleftrightarrow> bt_contains (sp_phases spec) k"
  proof
    assume "bt_contains (adm_phases r) k"
    then show "bt_contains (sp_phases spec) k"
      using ok in_spec by (auto simp: bt_contains_def entries_ok_def)
  next
    assume "bt_contains (sp_phases spec) k"
    then obtain p where p: "tree_path spec p k"
      using tree_validate_path [OF assms(2)] by blast
    then obtain q where q: "p = sp_root spec # q" "k \<in> set p"
      by (cases p) (auto simp: tree_path_def)
    then have "set p \<subseteq> dom (bt_get (adm_phases r))"
      using compile_phase_reaches [OF run] p by (auto simp: tree_path_def)
    with q show "bt_contains (adm_phases r) k" by (auto simp: bt_contains_def)
  qed
qed

lemma compile_child:
  assumes "compile spec = Ok r" "lists_child spec a b"
    "bt_get (adm_phases r) a = Some ea" "bt_get (adm_phases r) b = Some eb"
  obtains t where "tree_validate spec = Ok t" "admit_phase spec t b (Some (a, ea)) = Ok eb"
proof -
  from assms(1) obtain t where t: "tree_validate spec = Ok t" by (elim compile_Ok_elim)
  note tree = tree_validate_is_tree [OF t]
  note entry = compile_entries(2) [OF assms(1) t]
  from admitted_entry_childD [OF tree entry [OF assms(4)] assms(2)] obtain ea' where
    "admitted_entry spec t a ea'" "admit_phase spec t b (Some (a, ea')) = Ok eb" .
  with admitted_entry_unique [OF tree entry [OF assms(3)]] t that show ?thesis by blast
qed

section \<open>Coverage\<close>

fun marker_parent :: "obligation_coverage \<Rightarrow> obligation_id" where
  "marker_parent (Contributes p _ _) = p"
| "marker_parent (RetainedAtParent p) = p"

fun marker_disposition :: "obligation_coverage \<Rightarrow> obligation_disposition" where
  "marker_disposition (Contributes _ ph c) = ChildDisposition ph c"
| "marker_disposition (RetainedAtParent _) = RetainedDisposition"

text \<open>A marker names a child of the phase and an obligation that child has.\<close>

definition marker_valid :: "('s, 'c) roadmap_spec \<Rightarrow> phase_id list \<Rightarrow> obligation_coverage \<Rightarrow> bool" where
  "marker_valid spec children m \<longleftrightarrow>
     (case m of RetainedAtParent _ \<Rightarrow> True
      | Contributes _ ph c \<Rightarrow> ph \<in> set children \<and>
          (\<exists>cp. bt_get (sp_phases spec) ph = Some cp \<and> bt_contains (ac_statements (ph_acceptance cp)) c))"

text \<open>What coverage of a composite phase means: the markers and the parent's obligations correspond
  one to one, every marker is valid, and every obligation of a child is traced to a marker.\<close>

definition coverage_exact :: "('s, 'c) roadmap_spec \<Rightarrow> ('s, 'c) phase_spec \<Rightarrow> phase_id list \<Rightarrow> bool" where
  "coverage_exact spec phase children \<longleftrightarrow>
     distinct (map marker_parent (ph_coverage phase))
     \<and> set (map marker_parent (ph_coverage phase)) = set (bt_keys (ac_statements (ph_acceptance phase)))
     \<and> (\<forall>m \<in> set (ph_coverage phase). marker_valid spec children m)
     \<and> (\<forall>c \<in> set children. \<forall>cp. bt_get (sp_phases spec) c = Some cp \<longrightarrow>
          (\<forall>ob. bt_contains (ac_statements (ph_acceptance cp)) ob \<longrightarrow>
             (c, ob) \<in> set (traced_pairs (ph_coverage phase))))"

lemma child_contracts_fold:
  "try_fold (\<lambda>acc c. bind_o (expect (bt_get (sp_phases spec) c)) (\<lambda>cp. Ok (acc @ [(c, ph_acceptance cp)])))
     acc cs = (if \<forall>c \<in> set cs. bt_contains (sp_phases spec) c
               then Ok (acc @ map (\<lambda>c. (c, ph_acceptance (the (bt_get (sp_phases spec) c)))) cs) else Panic)"
proof (induction cs arbitrary: acc)
  case (Cons c cs)
  then show ?case by (cases "bt_get (sp_phases spec) c") (auto simp: bt_contains_def)
qed simp

lemma child_contracts_Ok:
  assumes "child_contracts spec cs = Ok contracts"
  shows "bt_get (acceptance_map contracts) c =
     (if c \<in> set cs then map_option ph_acceptance (bt_get (sp_phases spec) c) else None)"
    and "\<forall>c \<in> set cs. bt_contains (sp_phases spec) c"
proof -
  from assms have all: "\<forall>c \<in> set cs. bt_contains (sp_phases spec) c"
    and contracts: "contracts = map (\<lambda>c. (c, ph_acceptance (the (bt_get (sp_phases spec) c)))) cs"
    by (auto simp: child_contracts_def child_contracts_fold split: if_splits)
  from all show "\<forall>c \<in> set cs. bt_contains (sp_phases spec) c" .
  show "bt_get (acceptance_map contracts) c =
     (if c \<in> set cs then map_option ph_acceptance (bt_get (sp_phases spec) c) else None)"
    using all by (auto simp: acceptance_map_def contracts bt_get_of_map_list bt_contains_def)
qed

lemma cover_marker_Ok:
  assumes "cover_marker pid path children (acceptance_map contracts) acceptance ds m = Ok ds'"
    and "child_contracts spec children = Ok contracts"
  shows "ds' = bt_insert (marker_parent m) (marker_disposition m) ds"
    and "\<not> bt_contains ds (marker_parent m)" and "bt_contains (ac_statements acceptance) (marker_parent m)"
    and "marker_valid spec children m"
  using assms(1) child_contracts_Ok [OF assms(2)]
  by (cases m; auto simp: cover_marker_def marker_valid_def bind_o_Ok split: if_splits)+

lemma cover_markers_Ok:
  "try_fold (cover_marker pid path children (acceptance_map contracts) acceptance) ds ms = Ok ds' \<Longrightarrow>
   child_contracts spec children = Ok contracts \<Longrightarrow>
     distinct (map marker_parent ms) \<and> (\<forall>m \<in> set ms. \<not> bt_contains ds (marker_parent m))
     \<and> (\<forall>m \<in> set ms. bt_contains (ac_statements acceptance) (marker_parent m))
     \<and> (\<forall>m \<in> set ms. marker_valid spec children m)
     \<and> (\<forall>ob. bt_contains ds' ob \<longleftrightarrow> bt_contains ds ob \<or> ob \<in> marker_parent ` set ms)
     \<and> (\<forall>m \<in> set ms. bt_get ds' (marker_parent m) = Some (marker_disposition m))
     \<and> (\<forall>ob. ob \<notin> marker_parent ` set ms \<longrightarrow> bt_get ds' ob = bt_get ds ob)"
proof (induction ms arbitrary: ds)
  case (Cons m ms)
  then obtain d where d: "cover_marker pid path children (acceptance_map contracts) acceptance ds m = Ok d"
    and rest: "try_fold (cover_marker pid path children (acceptance_map contracts) acceptance) d ms = Ok ds'"
    by (auto simp: bind_o_Ok)
  note head = cover_marker_Ok [OF d Cons.prems(2)]
  note tail = Cons.IH [OF rest Cons.prems(2)]
  have fresh: "marker_parent m \<notin> marker_parent ` set ms" using tail head(1) by auto
  then have "bt_get ds' (marker_parent m) = Some (marker_disposition m)" using tail head(1) by simp
  with fresh head tail show ?case by auto
qed simp

lemma validate_coverage_Ok:
  assumes ok: "validate_coverage spec pid acceptance = Ok ds"
    and key: "bt_get (sp_phases spec) pid = Some phase" and body: "ph_body phase = Composite children"
    and acc: "acceptance = ph_acceptance phase"
  shows "coverage_exact spec phase children"
    and "m \<in> set (ph_coverage phase) \<Longrightarrow> bt_get ds (marker_parent m) = Some (marker_disposition m)"
proof -
  from ok key body obtain path contracts where
    contracts: "child_contracts spec children = Ok contracts"
    and run: "try_fold (cover_marker pid path children (acceptance_map contracts) acceptance)
                bt_empty (ph_coverage phase) = Ok ds"
    and kept: "\<forall>ob \<in> set (bt_keys (ac_statements acceptance)). bt_contains ds ob"
    and traced: "\<forall>(c, contract) \<in> set (bt_entries (acceptance_map contracts)).
        \<forall>ob \<in> set (bt_keys (ac_statements contract)). (c, ob) \<in> set (traced_pairs (ph_coverage phase))"
    by (fastforce simp: validate_coverage_def Let_def bind_o_Ok for_each_Ok split: if_splits)
  note facts = cover_markers_Ok [OF run contracts]
  have "(c, ob) \<in> set (traced_pairs (ph_coverage phase))"
    if "c \<in> set children" "bt_get (sp_phases spec) c = Some cp"
      "bt_contains (ac_statements (ph_acceptance cp)) ob" for c cp ob
  proof -
    have "bt_get (acceptance_map contracts) c = Some (ph_acceptance cp)"
      using child_contracts_Ok(1) [OF contracts] that by simp
    then show ?thesis using traced that(3) by (auto simp: bt_get_Some_iff in_bt_keys_iff)
  qed
  with facts kept show "coverage_exact spec phase children"
    by (auto simp: coverage_exact_def acc in_bt_keys_iff)
  show "m \<in> set (ph_coverage phase) \<Longrightarrow> bt_get ds (marker_parent m) = Some (marker_disposition m)"
    using facts by blast
qed

lemma compile_coverage:
  assumes "compile spec = Ok r" "bt_get (sp_phases spec) k = Some phase"
    "ph_body phase = Composite children"
  shows "coverage_exact spec phase children"
proof -
  from assms(1) obtain t where t: "tree_validate spec = Ok t" by (elim compile_Ok_elim)
  have "bt_contains (adm_phases r) k"
    using compile_entries(1) [OF assms(1) t] assms(2) by (simp add: bt_contains_def)
  then obtain e where "admitted_entry spec t k e"
    using compile_entries(2) [OF assms(1) t] by (auto simp: bt_contains_def)
  then obtain parent where "admit_phase spec t k parent = Ok e"
    by (cases rule: admitted_entry.cases) auto
  then show ?thesis using assms(2,3)
    by (auto elim!: admit_phase_local intro: validate_coverage_Ok(1))
qed

text \<open>
  Because markers and parent obligations correspond one to one, the children of a composite phase
  have together no more obligations than the phase itself.
\<close>

definition obligation_pairs :: "('s, 'c) roadmap_spec \<Rightarrow> phase_id list \<Rightarrow> (phase_id \<times> obligation_id) set" where
  "obligation_pairs spec children =
     {(c, ob). c \<in> set children \<and> (\<exists>cp. bt_get (sp_phases spec) c = Some cp
        \<and> bt_contains (ac_statements (ph_acceptance cp)) ob)}"

lemma length_traced_pairs: "length (traced_pairs ms) \<le> length ms"
  by (induction ms) (auto simp: traced_pairs_def List.map_filter_simps split: obligation_coverage.splits)

lemma coverage_exact_card:
  assumes "coverage_exact spec phase children"
  shows "card (obligation_pairs spec children) \<le> bt_len (ac_statements (ph_acceptance phase))"
proof -
  have "obligation_pairs spec children \<subseteq> set (traced_pairs (ph_coverage phase))"
    using assms by (auto simp: obligation_pairs_def coverage_exact_def)
  then have "card (obligation_pairs spec children) \<le> card (set (traced_pairs (ph_coverage phase)))"
    by (rule card_mono [rotated]) simp
  also have "\<dots> \<le> length (map marker_parent (ph_coverage phase))"
    using card_length [of "traced_pairs (ph_coverage phase)"] length_traced_pairs le_trans by fastforce
  also have "\<dots> = card (set (map marker_parent (ph_coverage phase)))"
    using assms distinct_card unfolding coverage_exact_def by metis
  also have "\<dots> = bt_len (ac_statements (ph_acceptance phase))"
    using assms by (simp only: coverage_exact_def bt_len_card set_bt_keys)
  finally show ?thesis .
qed

section \<open>Compilation returns\<close>

lemma cover_marker_no_Diverge: "cover_marker pid path children ca acceptance ds m \<noteq> Diverge"
  by (auto simp: cover_marker_def bind_o_Diverge split: obligation_coverage.splits if_splits)

lemma child_contracts_no_Diverge: "child_contracts spec cs \<noteq> Diverge"
  by (simp add: child_contracts_def child_contracts_fold)

lemma validate_coverage_no_Diverge: "validate_coverage spec pid acceptance \<noteq> Diverge"
  by (auto simp: validate_coverage_def Let_def bind_o_Diverge tree_validate_no_Diverge
      child_contracts_no_Diverge cover_marker_no_Diverge
      intro!: for_each_no_Diverge try_fold_no_Diverge split: phase_body.splits if_splits)

lemma admit_phase_no_Diverge: "admit_phase spec t pid parent \<noteq> Diverge"
  by (auto simp: admit_phase_def bind_o_Diverge validate_coverage_no_Diverge split: option.splits)

lemma reject_completion_cycles_no_Diverge: "reject_completion_cycles spec t \<noteq> Diverge"
  by (auto simp: reject_completion_cycles_def reject_dependency_def bind_o_Diverge
      intro!: for_each_no_Diverge split: option.splits if_splits)

lemma tree_validate_child_path:
  assumes "tree_validate spec = Ok t" "bt_get (tr_paths t) a = Some p" "lists_child spec a b"
  shows "bt_get (tr_paths t) b = Some (p @ [b])"
proof -
  note tree = tree_validate_is_tree [OF assms(1)]
  have "bt_contains (sp_phases spec) b" using tree assms(3) by (auto simp: is_tree_def)
  from tree_validate_path [OF assms(1) this] obtain q where
    q: "bt_get (tr_paths t) b = Some q" "tree_path spec q b" by blast
  have "tree_path spec p a"
    using tree_validate_paths(1) [OF assms(1)] assms(2) by (simp add: paths_ok_def)
  with q tree_path_unique [OF tree] tree_path_extend [OF tree _ assms(3)] show ?thesis by metis
qed

lemma compile_phase_no_Diverge:
  assumes t: "tree_validate spec = Ok t"
  shows "bt_get (tr_paths t) pid = Some p \<Longrightarrow> tree_depth (sp_limits spec) < fuel + length p \<Longrightarrow>
     compile_phase fuel spec t pid parent adm \<noteq> Diverge"
proof (induction fuel arbitrary: pid p parent adm)
  case 0
  then show ?case using tree_validate_paths(1) [OF t] by (fastforce simp: paths_ok_def)
next
  case (Suc fuel)
  have kid: "compile_phase fuel spec t c par a \<noteq> Diverge"
    if "bt_get (sp_phases spec) pid = Some phase" "c \<in> set (kids phase)" for phase c par a
  proof (rule Suc.IH)
    show "bt_get (tr_paths t) c = Some (p @ [c])"
      using tree_validate_child_path [OF t Suc.prems(1)] that by (auto simp: lists_child_kids)
    show "tree_depth (sp_limits spec) < fuel + length (p @ [c])" using Suc.prems(2) by simp
  qed
  show ?case
  proof (cases "bt_get (sp_phases spec) pid")
    case (Some phase)
    then show ?thesis using kid [OF Some]
      by (cases "ph_body phase")
         (auto simp: bind_o_Diverge admit_phase_no_Diverge kids_def intro!: try_fold_no_Diverge)
  qed simp
qed

lemma root_path:
  assumes "tree_validate spec = Ok t"
  shows "bt_get (tr_paths t) (sp_root spec) = Some [sp_root spec]"
proof -
  note tree = tree_validate_is_tree [OF assms]
  then have root: "bt_contains (sp_phases spec) (sp_root spec)" by (simp add: is_tree_def)
  from tree_validate_path [OF assms root] obtain p where
    p: "bt_get (tr_paths t) (sp_root spec) = Some p" "tree_path spec p (sp_root spec)" by blast
  have "tree_path spec [sp_root spec] (sp_root spec)" by (simp add: tree_path_def)
  with p tree_path_unique [OF tree] show ?thesis by metis
qed

lemma compile_no_Diverge: "compile spec \<noteq> Diverge"
proof
  assume "compile spec = Diverge"
  then obtain t where t: "tree_validate spec = Ok t"
    "compile_phase (tree_depth (sp_limits spec)) spec t (sp_root spec) None bt_empty = Diverge"
    by (auto simp: compile_def bind_o_Diverge tree_validate_no_Diverge reject_completion_cycles_no_Diverge)
  with compile_phase_no_Diverge [OF t(1) root_path [OF t(1)]] show False by simp
qed

section \<open>Compilation does not panic on coherent specifications\<close>

text \<open>Every phase is filed under its own id.\<close>

definition coherent :: "('s, 'c) roadmap_spec \<Rightarrow> bool" where
  "coherent spec \<longleftrightarrow> (\<forall>k ph. bt_get (sp_phases spec) k = Some ph \<longrightarrow> ph_id ph = k)"

lemma cover_marker_no_Panic:
  assumes "child_contracts spec children = Ok contracts"
  shows "cover_marker pid path children (acceptance_map contracts) acceptance ds m \<noteq> Panic"
  using child_contracts_Ok [OF assms]
  by (auto simp: cover_marker_def bind_o_Panic bt_contains_def split: obligation_coverage.splits if_splits)

lemma validate_coverage_no_Panic:
  assumes t: "tree_validate spec = Ok t" and key: "bt_contains (sp_phases spec) pid"
  shows "validate_coverage spec pid acceptance \<noteq> Panic"
proof -
  obtain phase where phase: "bt_get (sp_phases spec) pid = Some phase" using key by (auto simp: bt_contains_def)
  show ?thesis
  proof (cases "ph_body phase")
    case (Leaf x)
    with phase show ?thesis by (simp add: validate_coverage_def)
  next
    case (Composite children)
    then have "\<forall>c \<in> set children. bt_contains (sp_phases spec) c"
      using tree_validate_is_tree [OF t] phase unfolding is_tree_def lists_child_def by blast
    then obtain contracts where contracts: "child_contracts spec children = Ok contracts"
      by (simp add: child_contracts_def child_contracts_fold)
    have markers: "try_fold (cover_marker pid path children (acceptance_map contracts) acceptance) ds ms \<noteq> Panic"
      for path ds ms
      by (rule try_fold_no_Panic [where I = "\<lambda>_. True"]) (simp_all add: cover_marker_no_Panic [OF contracts])
    from tree_validate_path [OF t key] obtain path where "bt_get (tr_paths t) pid = Some path" by blast
    with phase Composite t contracts markers show ?thesis
      by (auto simp: validate_coverage_def Let_def bind_o_Panic
          dest!: for_each_Panic_witness split: if_splits)
  qed
qed

lemma admit_phase_no_Panic:
  assumes t: "tree_validate spec = Ok t" and key: "bt_contains (sp_phases spec) pid"
  shows "admit_phase spec t pid parent \<noteq> Panic"
proof -
  from tree_validate_path [OF t key] obtain path where "bt_get (tr_paths t) pid = Some path" by blast
  with key validate_coverage_no_Panic [OF t key] show ?thesis
    by (auto simp: admit_phase_def bind_o_Panic bt_contains_def split: option.splits)
qed

lemma compile_phase_no_Panic:
  assumes t: "tree_validate spec = Ok t"
  shows "bt_contains (sp_phases spec) pid \<Longrightarrow> compile_phase fuel spec t pid parent adm \<noteq> Panic"
proof (induction fuel arbitrary: pid parent adm)
  case (Suc fuel)
  then obtain phase where phase: "bt_get (sp_phases spec) pid = Some phase" by (auto simp: bt_contains_def)
  have "compile_phase fuel spec t c par a \<noteq> Panic" if "c \<in> set (kids phase)" for c par a
    using that phase tree_validate_is_tree [OF t]
    by (intro Suc.IH) (auto simp: is_tree_def lists_child_kids)
  then have "try_fold (\<lambda>a c. compile_phase fuel spec t c par a) s (kids phase) \<noteq> Panic" for par s
    by (intro try_fold_no_Panic [where I = "\<lambda>_. True"]) auto
  then show ?case
    using phase admit_phase_no_Panic [OF t Suc.prems]
    by (cases "ph_body phase") (auto simp: bind_o_Panic kids_def)
qed simp

lemma reject_dependency_no_Panic:
  assumes t: "tree_validate spec = Ok t" and key: "bt_contains (sp_phases spec) (ph_id phase)"
  shows "reject_dependency t phase dep \<noteq> Panic"
proof -
  from tree_validate_descendants [OF t key] obtain D where D: "bt_get (tr_descendants t) (ph_id phase) = Some D"
    by blast
  from tree_validate_path [OF t key] obtain p where p: "bt_get (tr_paths t) (ph_id phase) = Some p" by blast
  from D p show ?thesis by (auto simp: reject_dependency_def split: option.splits)
qed

lemma compile_no_Panic:
  assumes "coherent spec"
  shows "compile spec \<noteq> Panic"
proof
  assume bad: "compile spec = Panic"
  then obtain t where t: "tree_validate spec = Ok t"
    by (auto simp: compile_def bind_o_Panic tree_validate_no_Panic)
  have "reject_completion_cycles spec t \<noteq> Panic"
    unfolding reject_completion_cycles_def
  proof (intro for_each_no_Panic reject_dependency_no_Panic [OF t])
    fix phase
    assume "phase \<in> set (bt_values (sp_phases spec))"
    then show "bt_contains (sp_phases spec) (ph_id phase)"
      using assms by (auto simp: set_bt_values ran_def coherent_def bt_contains_def)
  qed
  with bad t show False
    using compile_phase_no_Panic [OF t, of "sp_root spec"] tree_validate_is_tree [OF t]
    by (auto simp: compile_def bind_o_Panic is_tree_def)
qed

text \<open>What the rejection of completion cycles leaves.\<close>

lemma compile_no_circular:
  assumes ok: "compile spec = Ok r" and coh: "coherent spec"
    and key: "bt_get (sp_phases spec) k = Some phase"
    and dep: "dep \<in> set (ph_dependencies phase)" "local_reference dep = Some d"
  shows "d \<noteq> k" and "bt_contains (sp_phases spec) d \<Longrightarrow> tree_path spec p d \<Longrightarrow> k \<notin> set p"
proof -
  from ok obtain t where t: "tree_validate spec = Ok t" "reject_completion_cycles spec t = Ok ()"
    by (elim compile_Ok_elim)
  have id: "ph_id phase = k" using coh key by (simp add: coherent_def)
  from t(2) key dep have ok': "reject_dependency t phase dep = Ok ()"
    by (fastforce simp: reject_completion_cycles_def for_each_Ok set_bt_values ran_def)
  have k: "bt_contains (sp_phases spec) k" using key by (simp add: bt_contains_def)
  from tree_validate_descendants [OF t(1) k] obtain D where D: "bt_get (tr_descendants t) k = Some D"
    "\<And>x. x |\<in>| D \<longleftrightarrow> (\<exists>p. tree_path spec p x \<and> bt_contains (sp_phases spec) x \<and> k \<in> set (butlast p))" by blast
  have none: "d \<noteq> k \<and> d |\<notin>| D"
    using ok' dep(2) id D(1) by (auto simp: reject_dependency_def bind_o_Ok split: if_splits)
  then show "d \<noteq> k" by simp
  assume d: "bt_contains (sp_phases spec) d" and p: "tree_path spec p d"
  from p have "p = butlast p @ [d]" by (auto simp: tree_path_def)
  moreover have "k \<notin> set (butlast p)" using none D(2) d p by blast
  ultimately show "k \<notin> set p" using none by (metis Un_iff empty_iff empty_set insert_iff list.set(2) set_append)
qed

text \<open>Envelopes along a path.\<close>

lemma compile_narrows_path:
  assumes ok: "compile spec = Ok r"
  shows "successively (lists_child spec) p \<Longrightarrow> p \<noteq> [] \<Longrightarrow>
     bt_get (adm_phases r) (hd p) = Some ea \<Longrightarrow> bt_get (adm_phases r) (last p) = Some eb \<Longrightarrow> narrows ea eb"
proof (induction p arbitrary: ea)
  case (Cons a p)
  show ?case
  proof (cases p)
    case Nil
    with Cons.prems show ?thesis by (simp add: narrows_refl)
  next
    case (Cons b q)
    then have ab: "lists_child spec a b" and sub: "successively (lists_child spec) p"
      using Cons.prems(1) by auto
    from ok obtain t where t: "tree_validate spec = Ok t" by (elim compile_Ok_elim)
    have "bt_contains (sp_phases spec) b" using ab tree_validate_is_tree [OF t] by (auto simp: is_tree_def)
    then obtain em where em: "bt_get (adm_phases r) b = Some em"
      using compile_entries(1) [OF ok t] by (auto simp: bt_contains_def)
    have "narrows ea em"
      using compile_child [OF ok ab _ em] Cons.prems(3) admit_phase_child(1) by (metis list.sel(1))
    moreover have "narrows em eb" using Cons.IH [OF sub] Cons em Cons.prems(4) by simp
    ultimately show ?thesis by (rule narrows_trans)
  qed
qed simp

end
