(* ===== verification/Roadmap_Validation.thy ===== *)
theory Roadmap_Validation
  imports Roadmap_Admit
begin

text \<open>
  \<open>sim-roadmap-core/src/validation.rs\<close>: the checks a specification passes before it becomes a
  revision. \<open>well_formed\<close> is the contract they establish, and \<open>validate_spec_Ok\<close> shows that
  they establish exactly that. The order of the checks is that of the source: admission runs
  before the keys of the phase map are compared with the phases' own ids.
\<close>

section \<open>Bounds, prose and uniqueness\<close>

definition bounded :: "string \<Rightarrow> nat \<Rightarrow> nat \<Rightarrow> (failure, unit) outcome" where
  "bounded limit actual maximum =
     (if maximum < actual then Err (OverLimit limit actual maximum) else Ok ())"

definition validate_prose :: "string \<Rightarrow> string \<Rightarrow> nat \<Rightarrow> (failure, unit) outcome" where
  "validate_prose kind s maximum =
     (if trim_is_empty s then Err (InvalidText kind ''empty'')
      else if CHR 0x00 \<in> set s then Err (InvalidText kind ''NUL'')
      else bounded kind (length s) maximum)"

definition unique :: "string list \<Rightarrow> string \<Rightarrow> (failure, unit) outcome" where
  "unique items kind =
     bind_o (try_fold (\<lambda>seen i. if i |\<in>| seen then Err (Duplicate kind i) else Ok (finsert i seen)) {||} items)
       (\<lambda>_. Ok ())"

section \<open>Guides\<close>

definition check_binding ::
  "'c implementation_guide \<Rightarrow> promise_id fset \<Rightarrow> anchored_sketch \<Rightarrow> promise_id fset \<Rightarrow> sketch_binding
     \<Rightarrow> (failure, promise_id fset) outcome" where
  "check_binding g promise_ids s bound b =
     (case b of
        UsesBinding label query \<Rightarrow>
          if query \<notin> set (g_uses g) then Err (InvalidBinding (sk_id s) label) else Ok bound
      | ProducesBinding label promise \<Rightarrow>
          if promise |\<notin>| promise_ids then Err (InvalidBinding (sk_id s) label)
          else Ok (finsert promise bound))"

definition check_sketch ::
  "'c implementation_guide \<Rightarrow> limits \<Rightarrow> promise_id fset \<Rightarrow> promise_id fset \<Rightarrow> anchored_sketch
     \<Rightarrow> (failure, promise_id fset) outcome" where
  "check_sketch g l promise_ids bound s =
     bind_o (validate_prose ''sketch'' (sk_body s) (sketch_bytes l)) (\<lambda>_.
     bind_o (bounded ''sketch_bindings'' (length (sk_bindings s)) (sketch_bindings l)) (\<lambda>_.
     bind_o (unique (map binding_label (sk_bindings s)) ''binding label'') (\<lambda>_.
     try_fold (check_binding g promise_ids s) bound (sk_bindings s))))"

definition promise_id_set :: "'c implementation_guide \<Rightarrow> promise_id fset" where
  "promise_id_set g = fset_of_list (map promise_id_of (g_promises g))"

definition validate_guide :: "'c implementation_guide \<Rightarrow> limits \<Rightarrow> (failure, unit) outcome" where
  "validate_guide g l =
     bind_o (bounded ''guide_queries'' (length (g_uses g)) (guide_queries l)) (\<lambda>_.
     bind_o (bounded ''guide_targets'' (length (g_change_targets g)) (guide_targets l)) (\<lambda>_.
     bind_o (bounded ''guide_promises'' (length (g_promises g)) (guide_promises l)) (\<lambda>_.
     bind_o (bounded ''guide_sketches'' (length (g_sketches g)) (guide_sketches l)) (\<lambda>_.
     bind_o (unique (map promise_id_of (g_promises g)) ''promise'') (\<lambda>_.
     bind_o (unique (map sk_id (g_sketches g)) ''sketch'') (\<lambda>_.
     let promise_ids = promise_id_set g in
     bind_o (try_fold (check_sketch g l promise_ids) {||} (g_sketches g)) (\<lambda>bound.
     for_each (\<lambda>p. if p |\<in>| bound then Ok () else Err (UnboundPromise p))
       (sorted_list_of_fset promise_ids))))))))"

section \<open>Phases\<close>

definition phase_ref_of :: "'c phase_dependency \<Rightarrow> 'c phase_ref" where
  "phase_ref_of dep = (case dep of Requires r \<Rightarrow> r | PrefersAfter r \<Rightarrow> r | Consumes out \<Rightarrow> or_phase out)"

definition validate_dependency ::
  "'c phase_dependency \<Rightarrow> ('s, 'c) roadmap_spec \<Rightarrow> (failure, unit) outcome" where
  "validate_dependency dep spec =
     (case phase_ref_of dep of
        LocalRef i \<Rightarrow> if \<not> bt_contains (sp_phases spec) i then Err (Missing ''local phase'' i) else Ok ()
      | ImportedRef imp _ _ \<Rightarrow> if \<not> bt_contains (sp_imports spec) imp then Err (UnpinnedImport imp) else Ok ())"

definition statement_refs :: "('s, 'c) acceptance_statement \<Rightarrow> ('s, 'c) kref list" where
  "statement_refs st = as_subject st # as_object st # as_supporting_refs st"

definition is_handle :: "('s, 'c) kref \<Rightarrow> bool" where
  "is_handle r = (case r of RefHandle _ \<Rightarrow> True | _ \<Rightarrow> False)"

definition validate_phase ::
  "('s, 'c) phase_spec \<Rightarrow> ('s, 'c) roadmap_spec \<Rightarrow> (failure, unit) outcome" where
  "validate_phase phase spec =
     (let l = sp_limits spec in
      bind_o (validate_prose ''phase title'' (ph_title phase) (prose_bytes l)) (\<lambda>_.
      bind_o (validate_prose ''phase intent'' (ph_intent phase) (prose_bytes l)) (\<lambda>_.
      bind_o (bounded ''outputs_per_phase'' (bt_len (ph_outputs phase)) (outputs_per_phase l)) (\<lambda>_.
      bind_o
        (case ph_body phase of
           Leaf checkpoints \<Rightarrow>
             bind_o (bounded ''checkpoints_per_phase'' (length checkpoints) (checkpoints_per_phase l)) (\<lambda>_.
             bind_o (unique (map cp_id checkpoints) ''checkpoint'') (\<lambda>_.
             for_each (\<lambda>c. validate_prose ''checkpoint'' (cp_statement c) (prose_bytes l)) checkpoints))
         | Composite children \<Rightarrow>
             bind_o (bounded ''children_per_phase'' (length children) (children_per_phase l)) (\<lambda>_.
             unique children ''child'')) (\<lambda>_.
      bind_o (validate_guide (ph_guide phase) l) (\<lambda>_.
      bind_o (for_each (\<lambda>st. for_each
                (\<lambda>r. if is_handle r
                      then Err (InvalidText ''acceptance reference'' ''process-local handle'') else Ok ())
                (statement_refs st)) (bt_values (ac_statements (ph_acceptance phase)))) (\<lambda>_.
      bind_o (for_each (\<lambda>dep. validate_dependency dep spec) (ph_dependencies phase)) (\<lambda>_.
      case ph_origin phase of
        Authored \<Rightarrow> Ok ()
      | OriginImported imp _ _ \<Rightarrow>
          if \<not> bt_contains (sp_imports spec) imp then Err (UnpinnedImport imp) else Ok ()))))))))"

section \<open>Specifications\<close>

definition validate_spec :: "('s, 'c) kernel \<Rightarrow> ('s, 'c) roadmap_spec \<Rightarrow> (failure, unit) outcome" where
  "validate_spec K spec =
     (let l = sp_limits spec in
      bind_o (bounded ''imports'' (bt_len (sp_imports spec)) (max_imports l)) (\<lambda>_.
      bind_o (validate_prose ''charter title'' (ch_title (sp_charter spec)) (prose_bytes l)) (\<lambda>_.
      bind_o (validate_prose ''charter intent'' (ch_intent (sp_charter spec)) (document_bytes l)) (\<lambda>_.
      if \<not> bt_contains (sp_phases spec) (sp_root spec) then Err (Missing ''root phase'' (sp_root spec))
      else
      bind_o (compile spec) (\<lambda>_.
      bind_o (for_each (\<lambda>(key, phase).
                if key \<noteq> ph_id phase then Err (Duplicate ''phase id'' (ph_id phase))
                else validate_phase phase spec) (bt_entries (sp_phases spec))) (\<lambda>_.
      for_each (\<lambda>(i, pin).
                if cid_bytes K (rrid (pr_revision pin)) = zero_id_bytes
                   \<or> cid_bytes K (pr_root_content pin) = zero_id_bytes
                then Err (UnpinnedImport i) else Ok ()) (bt_entries (sp_imports spec))))))))"

section \<open>What the checks establish\<close>

lemma bounded_Ok [simp]: "bounded limit a m = Ok u \<longleftrightarrow> a \<le> m"
  by (auto simp: bounded_def)

lemma bounded_total [simp]: "bounded limit a m \<noteq> Panic" "bounded limit a m \<noteq> Diverge"
  by (auto simp: bounded_def)

definition prose_ok :: "string \<Rightarrow> nat \<Rightarrow> bool" where
  "prose_ok s m \<longleftrightarrow> \<not> trim_is_empty s \<and> CHR 0x00 \<notin> set s \<and> length s \<le> m"

lemma validate_prose_Ok [simp]: "validate_prose kind s m = Ok u \<longleftrightarrow> prose_ok s m"
  by (auto simp: validate_prose_def prose_ok_def)

lemma validate_prose_total [simp]:
  "validate_prose kind s m \<noteq> Panic" "validate_prose kind s m \<noteq> Diverge"
  by (auto simp: validate_prose_def)

lemma unique_Ok [simp]: "unique items kind = Ok u \<longleftrightarrow> distinct items"
  by (auto simp: unique_def bind_o_Ok distinct_fold_Ok [where k = "\<lambda>i. i", simplified])

lemma unique_total [simp]: "unique items kind \<noteq> Panic" "unique items kind \<noteq> Diverge"
proof -
  have "try_fold (\<lambda>seen i. if i |\<in>| seen then Err (Duplicate kind i) else Ok (finsert i seen)) A items \<noteq> Panic"
    "try_fold (\<lambda>seen i. if i |\<in>| seen then Err (Duplicate kind i) else Ok (finsert i seen)) A items \<noteq> Diverge" for A
    by (induction items arbitrary: A) auto
  then show "unique items kind \<noteq> Panic" "unique items kind \<noteq> Diverge"
    by (auto simp: unique_def bind_o_Panic bind_o_Diverge)
qed

text \<open>
  A guide is well formed when every sketch binding names a declared query or promise, and every
  promise is bound by some sketch.
\<close>

definition produced :: "anchored_sketch \<Rightarrow> promise_id set" where
  "produced s = {p. \<exists>label. ProducesBinding label p \<in> set (sk_bindings s)}"

definition sketch_ok :: "'c implementation_guide \<Rightarrow> limits \<Rightarrow> anchored_sketch \<Rightarrow> bool" where
  "sketch_ok g l s \<longleftrightarrow>
     prose_ok (sk_body s) (sketch_bytes l) \<and> length (sk_bindings s) \<le> sketch_bindings l
     \<and> distinct (map binding_label (sk_bindings s))
     \<and> (\<forall>label q. UsesBinding label q \<in> set (sk_bindings s) \<longrightarrow> q \<in> set (g_uses g))
     \<and> produced s \<subseteq> promise_id_of ` set (g_promises g)"

definition guide_ok :: "'c implementation_guide \<Rightarrow> limits \<Rightarrow> bool" where
  "guide_ok g l \<longleftrightarrow>
     length (g_uses g) \<le> guide_queries l \<and> length (g_change_targets g) \<le> guide_targets l
     \<and> length (g_promises g) \<le> guide_promises l \<and> length (g_sketches g) \<le> guide_sketches l
     \<and> distinct (map promise_id_of (g_promises g)) \<and> distinct (map sk_id (g_sketches g))
     \<and> (\<forall>s \<in> set (g_sketches g). sketch_ok g l s)
     \<and> promise_id_of ` set (g_promises g) \<subseteq> (\<Union>s \<in> set (g_sketches g). produced s)"

lemma check_bindings_Ok:
  "try_fold (check_binding g ids s) A bs = Ok B \<longleftrightarrow>
     (\<forall>label q. UsesBinding label q \<in> set bs \<longrightarrow> q \<in> set (g_uses g))
     \<and> (\<forall>label p. ProducesBinding label p \<in> set bs \<longrightarrow> p |\<in>| ids)
     \<and> fset B = fset A \<union> {p. \<exists>label. ProducesBinding label p \<in> set bs}"
proof (induction bs arbitrary: A)
  case Nil
  then show ?case by (auto simp: fset_inject)
next
  case (Cons b bs)
  show ?case
  proof (cases b)
    case (UsesBinding label q)
    then have "try_fold (check_binding g ids s) A (b # bs) =
        (if q \<in> set (g_uses g) then try_fold (check_binding g ids s) A bs
         else Err (InvalidBinding (sk_id s) label))"
      by (simp add: check_binding_def)
    with UsesBinding show ?thesis by (auto simp: Cons.IH simp del: try_fold.simps)
  next
    case (ProducesBinding label p)
    then have "try_fold (check_binding g ids s) A (b # bs) =
        (if p |\<in>| ids then try_fold (check_binding g ids s) (finsert p A) bs
         else Err (InvalidBinding (sk_id s) label))"
      by (simp add: check_binding_def)
    with ProducesBinding show ?thesis by (auto simp: Cons.IH simp del: try_fold.simps)
  qed
qed

lemma fset_promise_id_set: "fset (promise_id_set g) = promise_id_of ` set (g_promises g)"
  by (simp add: promise_id_set_def fset_of_list.rep_eq)

lemma check_sketches_Ok:
  "try_fold (check_sketch g l (promise_id_set g)) A ss = Ok B \<longleftrightarrow>
     (\<forall>s \<in> set ss. sketch_ok g l s) \<and> fset B = fset A \<union> (\<Union>s \<in> set ss. produced s)"
proof (induction ss arbitrary: A)
  case Nil
  then show ?case by (auto simp: fset_inject)
next
  case (Cons s ss)
  have one: "check_sketch g l (promise_id_set g) A s = Ok C \<longleftrightarrow> sketch_ok g l s \<and> fset C = fset A \<union> produced s" for C
    unfolding check_sketch_def bind_o_Ok check_bindings_Ok sketch_ok_def produced_def
    by (auto simp: fset_promise_id_set)
  have ex: "\<exists>C. fset C = fset A \<union> produced s" if "sketch_ok g l s"
  proof -
    have "finite (produced s)"
      using that finite_subset unfolding sketch_ok_def by blast
    then show ?thesis by (intro exI [of _ "Abs_fset (fset A \<union> produced s)"]) (simp add: Abs_fset_inverse)
  qed
  have "(\<exists>C. sketch_ok g l s \<and> fset C = fset A \<union> produced s \<and> fset B = fset C \<union> X)
      \<longleftrightarrow> sketch_ok g l s \<and> fset B = fset A \<union> (produced s \<union> X)" for X
    using ex by (metis Un_assoc)
  then show ?case by (auto simp: bind_o_Ok one Cons.IH)
qed

lemma sketches_bind_promises:
  "(\<exists>B. try_fold (check_sketch g l (promise_id_set g)) {||} (g_sketches g) = Ok B
        \<and> promise_id_of ` set (g_promises g) \<subseteq> fset B)
     \<longleftrightarrow> (\<forall>s \<in> set (g_sketches g). sketch_ok g l s)
        \<and> promise_id_of ` set (g_promises g) \<subseteq> (\<Union>s \<in> set (g_sketches g). produced s)"
    (is "?L \<longleftrightarrow> ?R")
proof
  assume ?R
  then have "\<forall>s \<in> set (g_sketches g). finite (produced s)"
    using finite_subset unfolding sketch_ok_def by blast
  then have "finite (\<Union>s \<in> set (g_sketches g). produced s)" by simp
  then have "fset (Abs_fset (\<Union>s \<in> set (g_sketches g). produced s)) = (\<Union>s \<in> set (g_sketches g). produced s)"
    by (simp add: Abs_fset_inverse)
  with \<open>?R\<close> show ?L
    unfolding check_sketches_Ok
    by (intro exI [of _ "Abs_fset (\<Union>s \<in> set (g_sketches g). produced s)"]) simp
next
  assume ?L
  then show ?R by (auto simp: check_sketches_Ok)
qed

lemma promises_bound_Ok:
  "for_each (\<lambda>p. if p |\<in>| bound then Ok () else Err (UnboundPromise p))
       (sorted_list_of_fset (promise_id_set g)) = Ok u
     \<longleftrightarrow> promise_id_of ` set (g_promises g) \<subseteq> fset bound"
  by (auto simp: for_each_Ok fset_promise_id_set split: if_splits)

lemma validate_guide_Ok [simp]: "validate_guide g l = Ok u \<longleftrightarrow> guide_ok g l"
  unfolding validate_guide_def guide_ok_def bind_o_Ok Let_def promises_bound_Ok
    sketches_bind_promises [of g l, symmetric]
  by simp

lemma check_binding_total [simp]: "check_binding g ids s A b \<noteq> Panic" "check_binding g ids s A b \<noteq> Diverge"
  by (auto simp: check_binding_def split: sketch_binding.splits)

lemma check_sketch_total [simp]: "check_sketch g l ids A s \<noteq> Panic" "check_sketch g l ids A s \<noteq> Diverge"
  by (auto simp: check_sketch_def bind_o_Panic bind_o_Diverge try_fold_no_Diverge try_fold_never_Panic)

lemma validate_guide_total [simp]: "validate_guide g l \<noteq> Panic" "validate_guide g l \<noteq> Diverge"
  by (auto simp: validate_guide_def bind_o_Panic bind_o_Diverge Let_def try_fold_no_Diverge
      try_fold_never_Panic for_each_no_Panic for_each_no_Diverge)

text \<open>Phases and specifications.\<close>

definition body_ok :: "phase_body \<Rightarrow> limits \<Rightarrow> bool" where
  "body_ok body l =
     (case body of
        Leaf checkpoints \<Rightarrow> length checkpoints \<le> checkpoints_per_phase l \<and> distinct (map cp_id checkpoints)
          \<and> (\<forall>c \<in> set checkpoints. prose_ok (cp_statement c) (prose_bytes l))
      | Composite children \<Rightarrow> length children \<le> children_per_phase l \<and> distinct children)"

definition ref_resolves :: "('s, 'c) roadmap_spec \<Rightarrow> 'c phase_ref \<Rightarrow> bool" where
  "ref_resolves spec r =
     (case r of LocalRef i \<Rightarrow> bt_contains (sp_phases spec) i
      | ImportedRef imp _ _ \<Rightarrow> bt_contains (sp_imports spec) imp)"

definition phase_ok :: "('s, 'c) phase_spec \<Rightarrow> ('s, 'c) roadmap_spec \<Rightarrow> bool" where
  "phase_ok phase spec \<longleftrightarrow>
     prose_ok (ph_title phase) (prose_bytes (sp_limits spec))
     \<and> prose_ok (ph_intent phase) (prose_bytes (sp_limits spec))
     \<and> bt_len (ph_outputs phase) \<le> outputs_per_phase (sp_limits spec)
     \<and> body_ok (ph_body phase) (sp_limits spec) \<and> guide_ok (ph_guide phase) (sp_limits spec)
     \<and> (\<forall>st \<in> ran (bt_get (ac_statements (ph_acceptance phase))).
           \<forall>r \<in> set (statement_refs st). \<not> is_handle r)
     \<and> (\<forall>dep \<in> set (ph_dependencies phase). ref_resolves spec (phase_ref_of dep))
     \<and> (\<forall>imp i c. ph_origin phase = OriginImported imp i c \<longrightarrow> bt_contains (sp_imports spec) imp)"

definition well_formed :: "('s, 'c) kernel \<Rightarrow> ('s, 'c) roadmap_spec \<Rightarrow> bool" where
  "well_formed K spec \<longleftrightarrow>
     bt_len (sp_imports spec) \<le> max_imports (sp_limits spec)
     \<and> prose_ok (ch_title (sp_charter spec)) (prose_bytes (sp_limits spec))
     \<and> prose_ok (ch_intent (sp_charter spec)) (document_bytes (sp_limits spec))
     \<and> (\<exists>r. admit spec = Ok r) \<and> coherent spec
     \<and> (\<forall>phase \<in> ran (bt_get (sp_phases spec)). phase_ok phase spec)
     \<and> (\<forall>pin \<in> ran (bt_get (sp_imports spec)). cid_bytes K (rrid (pr_revision pin)) \<noteq> zero_id_bytes
           \<and> cid_bytes K (pr_root_content pin) \<noteq> zero_id_bytes)"

lemma validate_dependency_Ok [simp]:
  "validate_dependency dep spec = Ok u \<longleftrightarrow> ref_resolves spec (phase_ref_of dep)"
  by (auto simp: validate_dependency_def ref_resolves_def split: phase_ref.splits)

lemma validate_dependency_total [simp]:
  "validate_dependency dep spec \<noteq> Panic" "validate_dependency dep spec \<noteq> Diverge"
  by (auto simp: validate_dependency_def split: phase_ref.splits)

lemma validate_phase_Ok [simp]: "validate_phase phase spec = Ok u \<longleftrightarrow> phase_ok phase spec"
  unfolding validate_phase_def phase_ok_def body_ok_def Let_def bind_o_Ok
  by (cases "ph_body phase"; cases "ph_origin phase")
     (simp_all add: bind_o_Ok for_each_Ok set_bt_values cong: if_cong)

lemma validate_phase_total [simp]: "validate_phase phase spec \<noteq> Panic" "validate_phase phase spec \<noteq> Diverge"
  by (auto simp: validate_phase_def Let_def bind_o_Panic bind_o_Diverge for_each_no_Panic
      for_each_no_Diverge split: phase_body.splits phase_origin.splits)

lemma compile_root: "compile spec = Ok r \<Longrightarrow> bt_contains (sp_phases spec) (sp_root spec)"
  using tree_validate_is_tree by (fastforce simp: compile_def bind_o_Ok is_tree_def)

lemma coherent_entries:
  "coherent spec \<longleftrightarrow> (\<forall>(k, ph) \<in> set (bt_entries (sp_phases spec)). k = ph_id ph)"
  by (auto simp: coherent_def bt_get_Some_iff)

lemma ran_entries: "ran (bt_get m) = snd ` set (bt_entries m)"
  by (simp flip: set_bt_values add: bt_values_def)

lemma validate_spec_iff: "validate_spec K spec = Ok u \<longleftrightarrow> well_formed K spec"
proof -
  have phases: "for_each (\<lambda>(key, phase). if key \<noteq> ph_id phase then Err (Duplicate ''phase id'' (ph_id phase))
        else validate_phase phase spec) (bt_entries (sp_phases spec)) = Ok v
      \<longleftrightarrow> coherent spec \<and> (\<forall>phase \<in> ran (bt_get (sp_phases spec)). phase_ok phase spec)" for v
    by (fastforce simp: for_each_Ok coherent_entries ran_entries split: if_splits)
  have pins: "for_each (\<lambda>(i, pin). if cid_bytes K (rrid (pr_revision pin)) = zero_id_bytes
          \<or> cid_bytes K (pr_root_content pin) = zero_id_bytes
        then Err (UnpinnedImport i) else Ok ()) (bt_entries (sp_imports spec)) = Ok v
      \<longleftrightarrow> (\<forall>pin \<in> ran (bt_get (sp_imports spec)). cid_bytes K (rrid (pr_revision pin)) \<noteq> zero_id_bytes
           \<and> cid_bytes K (pr_root_content pin) \<noteq> zero_id_bytes)" for v
    by (auto simp: for_each_Ok ran_entries split: if_splits)
  show ?thesis
    unfolding validate_spec_def well_formed_def Let_def admit_def
    using compile_root [of spec] by (auto simp: bind_o_Ok phases pins)
qed

text \<open>The only way validation panics is admission.\<close>

lemma validate_spec_Panic_iff:
  "validate_spec K spec = Panic \<longleftrightarrow> admit spec = Panic
     \<and> bt_len (sp_imports spec) \<le> max_imports (sp_limits spec)
     \<and> prose_ok (ch_title (sp_charter spec)) (prose_bytes (sp_limits spec))
     \<and> prose_ok (ch_intent (sp_charter spec)) (document_bytes (sp_limits spec))
     \<and> bt_contains (sp_phases spec) (sp_root spec)"
  by (auto simp: validate_spec_def Let_def bind_o_Panic admit_def split: if_splits
      dest!: for_each_Panic_witness)

lemma validate_spec_no_Diverge: "validate_spec K spec \<noteq> Diverge"
  by (auto simp: validate_spec_def Let_def bind_o_Diverge compile_no_Diverge intro!: for_each_no_Diverge
      split: if_splits)

end
