(* ===== verification/Roadmap_Datum.thy ===== *)
theory Roadmap_Datum
  imports Roadmap_Validation
begin

text \<open>
  \<open>sim-roadmap-core\<close>: \<open>datum.rs\<close>, \<open>datum_guide.rs\<close> and \<open>RoadmapRevision\<close> of \<open>types.rs\<close>. The
  canonical form of a specification is a kernel value tree, and the identity of a revision is
  the kernel's content identity of it. The lemmas show that the form leaves nothing out: on a
  kernel whose names are determined by their parts, equal forms come from equal revisions.
\<close>

section \<open>Building blocks\<close>

definition tag :: "('s, 'c) kernel \<Rightarrow> string \<Rightarrow> 's" where
  "tag K name = sym_qualified K ''roadmap'' name"

definition node :: "('s, 'c) kernel \<Rightarrow> string \<Rightarrow> (string \<times> 's datum) list \<Rightarrow> 's datum" where
  "node K name entries = DNode (tag K name) (map (\<lambda>(n, v). (sym_new K n, v)) entries)"

definition unsigned_datum :: "('s, 'c) kernel \<Rightarrow> string \<Rightarrow> string \<Rightarrow> 's datum" where
  "unsigned_datum K domain canonical = DNumber (sym_qualified K ''numbers'' domain) canonical"

definition usize_datum :: "('s, 'c) kernel \<Rightarrow> nat \<Rightarrow> 's datum" where
  "usize_datum K value = unsigned_datum K ''usize'' (digits10 value)"

definition text_datum :: "string \<Rightarrow> 's datum" where
  "text_datum value = DString value"

definition string_set :: "string fset \<Rightarrow> 's datum" where
  "string_set values = DSet (map text_datum (sorted_list_of_fset values))"

definition content_datum :: "('s, 'c) kernel \<Rightarrow> 'c \<Rightarrow> 's datum" where
  "content_datum K i = node K ''ContentIdV1''
     [(''algorithm'', DSymbol (cid_algorithm K i)), (''bytes'', DBytes (cid_bytes K i))]"

definition option_datum :: "('a \<Rightarrow> 's datum) \<Rightarrow> 'a option \<Rightarrow> 's datum" where
  "option_datum f v = (case v of None \<Rightarrow> DNil | Some x \<Rightarrow> f x)"

definition map_datum :: "('a \<Rightarrow> 's datum) \<Rightarrow> (string, 'a) btmap \<Rightarrow> 's datum" where
  "map_datum f m = DMap (map (\<lambda>(k, v). (text_datum k, f v)) (bt_entries m))"

section \<open>Guides\<close>

definition source_query_datum :: "('s, 'c) kernel \<Rightarrow> source_query \<Rightarrow> 's datum" where
  "source_query_datum K query =
     (case query of
        QAnchor i \<Rightarrow> node K ''AnchorQueryV1'' [(''id'', DString i)]
      | QExcerpt i \<Rightarrow> node K ''ExcerptQueryV1'' [(''id'', DString i)]
      | QSpecimen i \<Rightarrow> node K ''SpecimenQueryV1'' [(''id'', DString i)])"

definition change_target_datum :: "('s, 'c) kernel \<Rightarrow> change_target \<Rightarrow> 's datum" where
  "change_target_datum K target = node K ''ChangeTargetV1''
     [(''change'', text_datum (ct_change target)), (''owner'', text_datum (ct_owner target)),
      (''package'', option_datum DString (ct_package target)),
      (''description'', DString (ct_description target))]"

definition promise_datum :: "('s, 'c) kernel \<Rightarrow> 'c promise \<Rightarrow> 's datum" where
  "promise_datum K promise =
     (case promise of
        PublicDeclaration i owner anchor \<Rightarrow> node K ''PublicDeclarationPromiseV1''
          [(''id'', text_datum i), (''owner'', text_datum owner), (''anchor'', DString anchor)]
      | SourcePostimage i owner path c \<Rightarrow> node K ''SourcePostimagePromiseV1''
          [(''id'', text_datum i), (''owner'', text_datum owner), (''path'', DString path),
           (''content'', content_datum K c)]
      | CheckedSpecimen i owner specimen \<Rightarrow> node K ''CheckedSpecimenPromiseV1''
          [(''id'', text_datum i), (''owner'', text_datum owner), (''specimen'', DString specimen)]
      | ProducedOutput i out \<Rightarrow> node K ''ProducedOutputPromiseV1''
          [(''id'', text_datum i), (''output'', text_datum out)]
      | AcceptancePromise i obligation \<Rightarrow> node K ''AcceptancePromiseV1''
          [(''id'', text_datum i), (''obligation'', text_datum obligation)])"

definition sketch_language_datum :: "('s, 'c) kernel \<Rightarrow> sketch_language \<Rightarrow> 's datum" where
  "sketch_language_datum K language =
     (case language of
        LangRust \<Rightarrow> DSymbol (tag K ''rust'')
      | LangSim \<Rightarrow> DSymbol (tag K ''sim'')
      | LangText \<Rightarrow> DSymbol (tag K ''text'')
      | LangOther name \<Rightarrow> node K ''OtherSketchLanguageV1'' [(''name'', DString name)])"

definition sketch_binding_datum :: "('s, 'c) kernel \<Rightarrow> sketch_binding \<Rightarrow> 's datum" where
  "sketch_binding_datum K binding =
     (case binding of
        UsesBinding label query \<Rightarrow> node K ''UsesBindingV1''
          [(''label'', DString label), (''query'', source_query_datum K query)]
      | ProducesBinding label promise \<Rightarrow> node K ''ProducesBindingV1''
          [(''label'', DString label), (''promise'', text_datum promise)])"

definition sketch_role_name :: "sketch_role \<Rightarrow> string" where
  "sketch_role_name role =
     (case role of RolePattern \<Rightarrow> ''pattern'' | RoleInterface \<Rightarrow> ''interface''
      | RoleExample \<Rightarrow> ''example'' | RoleConstraint \<Rightarrow> ''constraint'')"

definition sketch_datum :: "('s, 'c) kernel \<Rightarrow> anchored_sketch \<Rightarrow> 's datum" where
  "sketch_datum K sketch = node K ''AnchoredSketchV1''
     [(''id'', text_datum (sk_id sketch)), (''language'', sketch_language_datum K (sk_language sketch)),
      (''role'', DSymbol (tag K (sketch_role_name (sk_role sketch)))),
      (''body'', DString (sk_body sketch)),
      (''bindings'', DList (map (sketch_binding_datum K) (sk_bindings sketch)))]"

definition implementation_guide_datum :: "('s, 'c) kernel \<Rightarrow> 'c implementation_guide \<Rightarrow> 's datum" where
  "implementation_guide_datum K guide = node K ''ImplementationGuideV1''
     [(''uses'', DList (map (source_query_datum K) (g_uses guide))),
      (''change-targets'', DList (map (change_target_datum K) (g_change_targets guide))),
      (''promises'', DList (map (promise_datum K) (g_promises guide))),
      (''sketches'', DList (map (sketch_datum K) (g_sketches guide)))]"

section \<open>Phases\<close>

definition checkpoint_datum :: "('s, 'c) kernel \<Rightarrow> checkpoint_spec \<Rightarrow> 's datum" where
  "checkpoint_datum K checkpoint = node K ''CheckpointV1''
     [(''id'', text_datum (cp_id checkpoint)), (''statement'', DString (cp_statement checkpoint))]"

definition phase_body_datum :: "('s, 'c) kernel \<Rightarrow> phase_body \<Rightarrow> 's datum" where
  "phase_body_datum K body =
     (case body of
        Leaf checkpoints \<Rightarrow>
          node K ''LeafBodyV1'' [(''checkpoints'', DList (map (checkpoint_datum K) checkpoints))]
      | Composite children \<Rightarrow>
          node K ''CompositeBodyV1'' [(''children'', DList (map text_datum children))])"

definition phase_ref_datum :: "('s, 'c) kernel \<Rightarrow> 'c phase_ref \<Rightarrow> 's datum" where
  "phase_ref_datum K reference =
     (case reference of
        LocalRef phase \<Rightarrow> node K ''LocalPhaseV1'' [(''phase'', text_datum phase)]
      | ImportedRef imp phase phase_content \<Rightarrow> node K ''ImportedPhaseV1''
          [(''import'', text_datum imp), (''phase'', text_datum phase),
           (''content'', content_datum K phase_content)])"

definition output_ref_datum :: "('s, 'c) kernel \<Rightarrow> 'c output_ref \<Rightarrow> 's datum" where
  "output_ref_datum K out = node K ''OutputRefV1''
     [(''phase'', phase_ref_datum K (or_phase out)), (''output'', text_datum (or_output out))]"

definition phase_dependency_datum :: "('s, 'c) kernel \<Rightarrow> 'c phase_dependency \<Rightarrow> 's datum" where
  "phase_dependency_datum K dependency =
     (case dependency of
        Requires phase \<Rightarrow> node K ''RequiresV1'' [(''phase'', phase_ref_datum K phase)]
      | Consumes out \<Rightarrow> node K ''ConsumesV1'' [(''output'', output_ref_datum K out)]
      | PrefersAfter phase \<Rightarrow> node K ''PrefersAfterV1'' [(''phase'', phase_ref_datum K phase)])"

definition owner_envelope_datum :: "('s, 'c) kernel \<Rightarrow> owner_envelope \<Rightarrow> 's datum" where
  "owner_envelope_datum K envelope = node K ''OwnerEnvelopeV1''
     [(''mutable'', string_set (oe_mutable envelope)), (''read-only'', string_set (oe_read_only envelope))]"

definition resource_envelope_datum :: "('s, 'c) kernel \<Rightarrow> resource_id fset \<Rightarrow> 's datum" where
  "resource_envelope_datum K envelope = node K ''ResourceEnvelopeV1'' [(''resources'', string_set envelope)]"

definition effect_envelope_datum :: "('s, 'c) kernel \<Rightarrow> effect_id fset \<Rightarrow> 's datum" where
  "effect_envelope_datum K envelope = node K ''EffectEnvelopeV1'' [(''effects'', string_set envelope)]"

definition capability_envelope_datum :: "('s, 'c) kernel \<Rightarrow> capability_id fset \<Rightarrow> 's datum" where
  "capability_envelope_datum K envelope =
     node K ''CapabilityEnvelopeV1'' [(''capabilities'', string_set envelope)]"

definition change_envelope_datum :: "('s, 'c) kernel \<Rightarrow> change_id fset \<Rightarrow> 's datum" where
  "change_envelope_datum K envelope = node K ''ChangeEnvelopeV1'' [(''targets'', string_set envelope)]"

definition reference_datum :: "('s, 'c) kernel \<Rightarrow> ('s, 'c) kref \<Rightarrow> 's datum" where
  "reference_datum K reference =
     (case reference of
        RefSymbol symbol \<Rightarrow> node K ''SymbolRefV1'' [(''symbol'', DSymbol symbol)]
      | RefContent i \<Rightarrow> node K ''ContentRefV1'' [(''content'', content_datum K i)]
      | RefHandle i \<Rightarrow> node K ''HandleRefV1'' [(''handle'', unsigned_datum K ''u128'' (digits10 (unat i)))]
      | RefCoord space ordinal \<Rightarrow> node K ''CoordinateRefV1''
          [(''space'', DSymbol space), (''ordinal'', content_datum K ordinal)])"

definition acceptance_statement_datum :: "('s, 'c) kernel \<Rightarrow> ('s, 'c) acceptance_statement \<Rightarrow> 's datum" where
  "acceptance_statement_datum K statement = node K ''AcceptanceStatementV1''
     [(''obligation'', text_datum (as_obligation statement)),
      (''subject'', reference_datum K (as_subject statement)),
      (''predicate'', DSymbol (as_predicate statement)),
      (''object'', reference_datum K (as_object statement)),
      (''supporting-refs'', DSet (map (reference_datum K) (as_supporting_refs statement)))]"

definition proof_policy_name :: "proof_policy \<Rightarrow> string" where
  "proof_policy_name policy = (case policy of PolicyAll \<Rightarrow> ''all'' | PolicyAny \<Rightarrow> ''any'')"

definition acceptance_datum :: "('s, 'c) kernel \<Rightarrow> ('s, 'c) acceptance_contract \<Rightarrow> 's datum" where
  "acceptance_datum K acceptance = node K ''AcceptanceContractV1''
     [(''policy'', DSymbol (tag K (proof_policy_name (ac_policy acceptance)))),
      (''statements'', map_datum (acceptance_statement_datum K) (ac_statements acceptance))]"

definition obligation_coverage_datum :: "('s, 'c) kernel \<Rightarrow> obligation_coverage \<Rightarrow> 's datum" where
  "obligation_coverage_datum K coverage =
     (case coverage of
        Contributes parent phase child \<Rightarrow> node K ''ContributesV1''
          [(''parent'', text_datum parent), (''phase'', text_datum phase), (''child'', text_datum child)]
      | RetainedAtParent parent \<Rightarrow> node K ''RetainedAtParentV1'' [(''parent'', text_datum parent)])"

definition output_contract_datum :: "('s, 'c) kernel \<Rightarrow> 'c output_contract \<Rightarrow> 's datum" where
  "output_contract_datum K out = node K ''OutputContractV1''
     [(''description'', DString (oc_description out)),
      (''content'', option_datum (content_datum K) (oc_content out))]"

definition pinned_roadmap_datum :: "('s, 'c) kernel \<Rightarrow> 'c pinned_roadmap_ref \<Rightarrow> 's datum" where
  "pinned_roadmap_datum K pin = node K ''PinnedRoadmapRefV1''
     [(''roadmap'', text_datum (pr_roadmap pin)), (''revision'', content_datum K (rrid (pr_revision pin))),
      (''root-phase'', text_datum (pr_root_phase pin)),
      (''root-content'', content_datum K (pr_root_content pin))]"

definition phase_origin_datum :: "('s, 'c) kernel \<Rightarrow> 'c phase_origin \<Rightarrow> 's datum" where
  "phase_origin_datum K origin =
     (case origin of
        Authored \<Rightarrow> DSymbol (tag K ''authored'')
      | OriginImported imp phase phase_content \<Rightarrow> node K ''ImportedOriginV1''
          [(''import'', text_datum imp), (''phase'', text_datum phase),
           (''content'', content_datum K phase_content)])"

definition phase_datum :: "('s, 'c) kernel \<Rightarrow> ('s, 'c) phase_spec \<Rightarrow> 's datum" where
  "phase_datum K phase = node K ''PhaseSpecV2''
     [(''id'', text_datum (ph_id phase)), (''parent'', option_datum text_datum (ph_parent phase)),
      (''title'', DString (ph_title phase)), (''intent'', DString (ph_intent phase)),
      (''body'', phase_body_datum K (ph_body phase)),
      (''dependencies'', DList (map (phase_dependency_datum K) (ph_dependencies phase))),
      (''owners'', owner_envelope_datum K (ph_owners phase)),
      (''resources'', resource_envelope_datum K (ph_resources phase)),
      (''effects'', effect_envelope_datum K (ph_effects phase)),
      (''capabilities'', capability_envelope_datum K (ph_capabilities phase)),
      (''changes'', change_envelope_datum K (ph_changes phase)),
      (''acceptance'', acceptance_datum K (ph_acceptance phase)),
      (''coverage'', DList (map (obligation_coverage_datum K) (ph_coverage phase))),
      (''outputs'', map_datum (output_contract_datum K) (ph_outputs phase)),
      (''guide'', implementation_guide_datum K (ph_guide phase)),
      (''origin'', phase_origin_datum K (ph_origin phase))]"

section \<open>Specifications and revisions\<close>

definition limits_datum :: "('s, 'c) kernel \<Rightarrow> limits \<Rightarrow> 's datum" where
  "limits_datum K l = node K ''LimitsV1''
     [(''id-bytes'', usize_datum K (id_bytes l)), (''document-bytes'', usize_datum K (document_bytes l)),
      (''prose-bytes'', usize_datum K (prose_bytes l)), (''phases'', usize_datum K (max_phases l)),
      (''imports'', usize_datum K (max_imports l)),
      (''outputs-per-phase'', usize_datum K (outputs_per_phase l)),
      (''checkpoints-per-phase'', usize_datum K (checkpoints_per_phase l)),
      (''children-per-phase'', usize_datum K (children_per_phase l)),
      (''tree-depth'', usize_datum K (tree_depth l)), (''causal-path'', usize_datum K (max_causal_path l)),
      (''guide-queries'', usize_datum K (guide_queries l)),
      (''guide-targets'', usize_datum K (guide_targets l)),
      (''guide-promises'', usize_datum K (guide_promises l)),
      (''guide-sketches'', usize_datum K (guide_sketches l)),
      (''sketch-bytes'', usize_datum K (sketch_bytes l)),
      (''sketch-bindings'', usize_datum K (sketch_bindings l))]"

definition spec_datum :: "('s, 'c) kernel \<Rightarrow> ('s, 'c) roadmap_spec \<Rightarrow> 's datum" where
  "spec_datum K spec = node K ''RoadmapSpecV2''
     [(''schema'', text_datum (sp_schema spec)), (''id'', text_datum (sp_roadmap spec)),
      (''charter'', node K ''CharterV1''
         [(''title'', DString (ch_title (sp_charter spec))), (''intent'', DString (ch_intent (sp_charter spec)))]),
      (''root'', text_datum (sp_root spec)),
      (''imports'', map_datum (pinned_roadmap_datum K) (sp_imports spec)),
      (''phases'', map_datum (phase_datum K) (sp_phases spec)),
      (''limits'', limits_datum K (sp_limits spec))]"

definition revision_datum ::
  "('s, 'c) kernel \<Rightarrow> 'c roadmap_revision_id option \<Rightarrow> ('s, 'c) roadmap_spec \<Rightarrow> revision_change \<Rightarrow> 's datum" where
  "revision_datum K parent spec change = node K ''RevisionIdentityV2''
     [(''parent'', option_datum (\<lambda>v. content_datum K (rrid v)) parent),
      (''roadmap'', spec_datum K spec),
      (''change'', node K ''RevisionChangeV1''
         [(''id'', text_datum (rc_id change)), (''rationale'', DString (rc_rationale change))])]"

record ('s, 'c) roadmap_revision =
  rv_id :: "'c roadmap_revision_id"
  rv_parent :: "'c roadmap_revision_id option"
  rv_spec :: "('s, 'c) roadmap_spec"
  rv_change :: revision_change

definition revision_new ::
  "('s, 'c) kernel \<Rightarrow> 'c roadmap_revision_id option \<Rightarrow> ('s, 'c) roadmap_spec \<Rightarrow> revision_change
     \<Rightarrow> (failure, ('s, 'c) roadmap_revision) outcome" where
  "revision_new K parent spec change =
     bind_o (validate_spec K spec) (\<lambda>_.
     bind_o (validate_prose ''change rationale'' (rc_rationale change) (prose_bytes (sp_limits spec))) (\<lambda>_.
     bind_o (map_err CanonicalFailure (datum_content_id K (revision_datum K parent spec change))) (\<lambda>i.
     Ok \<lparr>rv_id = RoadmapRevisionId i, rv_parent = parent, rv_spec = spec, rv_change = change\<rparr>)))"

definition verify_claimed ::
  "('s, 'c) kernel \<Rightarrow> 'c roadmap_revision_id \<Rightarrow> 'c roadmap_revision_id option \<Rightarrow> ('s, 'c) roadmap_spec
     \<Rightarrow> revision_change \<Rightarrow> (failure, ('s, 'c) roadmap_revision) outcome" where
  "verify_claimed K claimed parent spec change =
     bind_o (revision_new K parent spec change) (\<lambda>revision.
     if rv_id revision \<noteq> claimed then Err ClaimedRevisionMismatch else Ok revision)"

definition canonical_datum :: "('s, 'c) kernel \<Rightarrow> ('s, 'c) roadmap_revision \<Rightarrow> 's datum" where
  "canonical_datum K revision = revision_datum K (rv_parent revision) (rv_spec revision) (rv_change revision)"

section \<open>The canonical form determines the revision\<close>

text \<open>The hypothesis on the kernel: names are determined by their parts.\<close>

definition naming :: "('s, 'c) kernel \<Rightarrow> bool" where
  "naming K \<longleftrightarrow> sym_qualified_inj K \<and> cid_inj K"

lemma tag_eq [simp]: "naming K \<Longrightarrow> tag K a = tag K b \<longleftrightarrow> a = b"
  by (auto simp: tag_def naming_def sym_qualified_inj_def)

lemma node_eq [simp]:
  "naming K \<Longrightarrow> node K a xs = node K b ys \<longleftrightarrow>
     a = b \<and> map (\<lambda>(n, v). (sym_new K n, v)) xs = map (\<lambda>(n, v). (sym_new K n, v)) ys"
  by (auto simp: node_def)

lemma node_distinct [simp]: "node K a xs \<noteq> DNil" "DNil \<noteq> node K a xs" "node K a xs \<noteq> DSymbol s" "DSymbol s \<noteq> node K a xs"
  by (auto simp: node_def)

lemma text_datum_eq [simp]: "text_datum a = text_datum b \<longleftrightarrow> a = b"
  by (simp add: text_datum_def)

lemma usize_datum_eq [simp]: "usize_datum K a = usize_datum K b \<longleftrightarrow> a = b"
  by (simp add: usize_datum_def unsigned_datum_def)

lemma map_eq_iff:
  assumes "\<And>a b. f a = f b \<longleftrightarrow> a = b"
  shows "map f xs = map f ys \<longleftrightarrow> xs = ys"
  using assms by (intro inj_map_eq_map injI) blast

lemma sorted_list_of_fset_inject: "sorted_list_of_fset A = sorted_list_of_fset B \<longleftrightarrow> A = B"
  by (metis fset_inject sorted_list_of_fset_simps(1))

lemma string_set_eq [simp]: "string_set A = string_set B \<longleftrightarrow> A = B"
  by (simp add: string_set_def map_eq_iff [OF text_datum_eq] sorted_list_of_fset_inject)

lemma map_datum_eq:
  assumes "\<And>a b. f a = f b \<longleftrightarrow> a = b"
  shows "map_datum f m = map_datum f n \<longleftrightarrow> m = n"
proof -
  have "map (\<lambda>(k, v). (text_datum k, f v)) xs = map (\<lambda>(k, v). (text_datum k, f v)) ys \<longleftrightarrow> xs = ys" for xs ys
    by (rule map_eq_iff) (auto simp: assms)
  then show ?thesis by (simp add: map_datum_def bt_eq_iff)
qed

lemma option_datum_eq:
  assumes "\<And>a b. f a = f b \<longleftrightarrow> a = b" "\<And>a. f a \<noteq> DNil"
  shows "option_datum f m = option_datum f n \<longleftrightarrow> m = n"
  using assms(1) assms(2) [symmetric] assms(2) by (auto simp: option_datum_def split: option.splits)

lemma content_datum_eq [simp]: "naming K \<Longrightarrow> content_datum K a = content_datum K b \<longleftrightarrow> a = b"
  by (auto simp: content_datum_def naming_def cid_inj_def)

lemma content_datum_node [simp]: "content_datum K a \<noteq> DNil"
  by (simp add: content_datum_def)

lemma source_query_datum_eq [simp]:
  "naming K \<Longrightarrow> source_query_datum K a = source_query_datum K b \<longleftrightarrow> a = b"
  by (cases a; cases b) (auto simp: source_query_datum_def)

lemma change_target_datum_eq [simp]:
  "naming K \<Longrightarrow> change_target_datum K a = change_target_datum K b \<longleftrightarrow> a = b"
  by (cases a; cases b) (auto simp: change_target_datum_def option_datum_eq)

lemma promise_datum_eq [simp]: "naming K \<Longrightarrow> promise_datum K a = promise_datum K b \<longleftrightarrow> a = b"
  by (cases a; cases b) (auto simp: promise_datum_def)

lemma sketch_language_datum_eq [simp]:
  "naming K \<Longrightarrow> sketch_language_datum K a = sketch_language_datum K b \<longleftrightarrow> a = b"
  by (cases a; cases b) (auto simp: sketch_language_datum_def)

lemma sketch_binding_datum_eq [simp]:
  "naming K \<Longrightarrow> sketch_binding_datum K a = sketch_binding_datum K b \<longleftrightarrow> a = b"
  by (cases a; cases b) (auto simp: sketch_binding_datum_def)

lemma sketch_role_name_eq [simp]: "sketch_role_name a = sketch_role_name b \<longleftrightarrow> a = b"
  by (cases a; cases b) (auto simp: sketch_role_name_def)

lemma sketch_datum_eq [simp]: "naming K \<Longrightarrow> sketch_datum K a = sketch_datum K b \<longleftrightarrow> a = b"
  by (cases a; cases b) (auto simp: sketch_datum_def map_eq_iff)

lemma implementation_guide_datum_eq [simp]:
  "naming K \<Longrightarrow> implementation_guide_datum K a = implementation_guide_datum K b \<longleftrightarrow> a = b"
  by (cases a; cases b) (auto simp: implementation_guide_datum_def map_eq_iff)

lemma checkpoint_datum_eq [simp]: "naming K \<Longrightarrow> checkpoint_datum K a = checkpoint_datum K b \<longleftrightarrow> a = b"
  by (cases a; cases b) (auto simp: checkpoint_datum_def)

lemma phase_body_datum_eq [simp]: "naming K \<Longrightarrow> phase_body_datum K a = phase_body_datum K b \<longleftrightarrow> a = b"
  by (cases a; cases b) (auto simp: phase_body_datum_def map_eq_iff map_eq_iff [OF text_datum_eq])

lemma phase_ref_datum_eq [simp]: "naming K \<Longrightarrow> phase_ref_datum K a = phase_ref_datum K b \<longleftrightarrow> a = b"
  by (cases a; cases b) (auto simp: phase_ref_datum_def)

lemma output_ref_datum_eq [simp]: "naming K \<Longrightarrow> output_ref_datum K a = output_ref_datum K b \<longleftrightarrow> a = b"
  by (cases a; cases b) (auto simp: output_ref_datum_def)

lemma phase_dependency_datum_eq [simp]:
  "naming K \<Longrightarrow> phase_dependency_datum K a = phase_dependency_datum K b \<longleftrightarrow> a = b"
  by (cases a; cases b) (auto simp: phase_dependency_datum_def)

lemma envelope_datum_eq [simp]:
  "naming K \<Longrightarrow> resource_envelope_datum K r = resource_envelope_datum K r' \<longleftrightarrow> r = r'"
  "naming K \<Longrightarrow> effect_envelope_datum K r = effect_envelope_datum K r' \<longleftrightarrow> r = r'"
  "naming K \<Longrightarrow> capability_envelope_datum K r = capability_envelope_datum K r' \<longleftrightarrow> r = r'"
  "naming K \<Longrightarrow> change_envelope_datum K r = change_envelope_datum K r' \<longleftrightarrow> r = r'"
  by (simp_all add: resource_envelope_datum_def effect_envelope_datum_def
      capability_envelope_datum_def change_envelope_datum_def)

lemma owner_envelope_datum_eq [simp]:
  "naming K \<Longrightarrow> owner_envelope_datum K a = owner_envelope_datum K b \<longleftrightarrow> a = b"
  by (cases a; cases b) (auto simp: owner_envelope_datum_def)

lemma reference_datum_eq [simp]: "naming K \<Longrightarrow> reference_datum K a = reference_datum K b \<longleftrightarrow> a = b"
  by (cases a; cases b) (auto simp: reference_datum_def unsigned_datum_def word_unat_eq_iff)

lemma acceptance_statement_datum_eq [simp]:
  "naming K \<Longrightarrow> acceptance_statement_datum K a = acceptance_statement_datum K b \<longleftrightarrow> a = b"
  by (cases a; cases b) (auto simp: acceptance_statement_datum_def map_eq_iff)

lemma proof_policy_name_eq [simp]: "proof_policy_name a = proof_policy_name b \<longleftrightarrow> a = b"
  by (cases a; cases b) (auto simp: proof_policy_name_def)

lemma acceptance_datum_eq [simp]: "naming K \<Longrightarrow> acceptance_datum K a = acceptance_datum K b \<longleftrightarrow> a = b"
  by (cases a; cases b) (auto simp: acceptance_datum_def map_datum_eq)

lemma obligation_coverage_datum_eq [simp]:
  "naming K \<Longrightarrow> obligation_coverage_datum K a = obligation_coverage_datum K b \<longleftrightarrow> a = b"
  by (cases a; cases b) (auto simp: obligation_coverage_datum_def)

lemma output_contract_datum_eq [simp]:
  "naming K \<Longrightarrow> output_contract_datum K a = output_contract_datum K b \<longleftrightarrow> a = b"
  by (cases a; cases b) (auto simp: output_contract_datum_def option_datum_eq)

lemma rrid_eq [simp]: "rrid a = rrid b \<longleftrightarrow> a = b"
  by (cases a; cases b) simp

lemma pinned_roadmap_datum_eq [simp]:
  "naming K \<Longrightarrow> pinned_roadmap_datum K a = pinned_roadmap_datum K b \<longleftrightarrow> a = b"
  by (cases a; cases b) (auto simp: pinned_roadmap_datum_def)

lemma phase_origin_datum_eq [simp]: "naming K \<Longrightarrow> phase_origin_datum K a = phase_origin_datum K b \<longleftrightarrow> a = b"
  by (cases a; cases b) (auto simp: phase_origin_datum_def)

lemma option_text_datum_eq: "option_datum text_datum m = option_datum text_datum n \<longleftrightarrow> m = n"
  by (rule option_datum_eq) (simp_all add: text_datum_def)

lemma phase_datum_eq [simp]: "naming K \<Longrightarrow> phase_datum K a = phase_datum K b \<longleftrightarrow> a = b"
  by (cases a; cases b) (simp add: phase_datum_def map_eq_iff map_datum_eq option_text_datum_eq)

lemma limits_datum_eq [simp]: "naming K \<Longrightarrow> limits_datum K a = limits_datum K b \<longleftrightarrow> a = b"
  by (cases a; cases b) (simp add: limits_datum_def)

lemma spec_datum_eq [simp]: "naming K \<Longrightarrow> spec_datum K a = spec_datum K b \<longleftrightarrow> a = b"
proof -
  assume K: "naming K"
  obtain t i where ca: "sp_charter a = \<lparr>ch_title = t, ch_intent = i\<rparr>" by (cases "sp_charter a")
  obtain u j where cb: "sp_charter b = \<lparr>ch_title = u, ch_intent = j\<rparr>" by (cases "sp_charter b")
  show ?thesis
    using K ca cb by (cases a; cases b) (auto simp: spec_datum_def map_datum_eq)
qed

lemma revision_datum_eq:
  "naming K \<Longrightarrow> revision_datum K p s c = revision_datum K p' s' c' \<longleftrightarrow> p = p' \<and> s = s' \<and> c = c'"
  by (cases c; cases c') (auto simp: revision_datum_def option_datum_eq)

end
