(* ===== verification/Roadmap_Samples.thy ===== *)
theory Roadmap_Samples
  imports Roadmap_Datum
begin

text \<open>
  Small concrete roadmaps on which the theorems about admission, refinement and planning are
  instantiated: a root with two leaves (\<open>sample_spec\<close>), and variations of it. Symbols are
  instantiated by lists of name parts, content identities by their bytes.
\<close>

type_synonym sphase = "(string list, byte list) phase_spec"
type_synonym sspec = "(string list, byte list) roadmap_spec"

fun sample_print :: "string list \<Rightarrow> string" where
  "sample_print [] = []"
| "sample_print [n] = n"
| "sample_print (n # m # ns) = n @ ''/'' @ sample_print (m # ns)"

definition sample_kernel :: "(string list, byte list) kernel" where
  "sample_kernel =
     \<lparr>sym_new = (\<lambda>n. [n]), sym_qualified = (\<lambda>a b. [a, b]), sym_to_string = sample_print,
      cid_algorithm = (\<lambda>_. [''sha'']), cid_bytes = (\<lambda>c. c), datum_content_id = (\<lambda>_. Ok [1])\<rparr>"

lemma sample_naming:
  "naming sample_kernel" "sym_prints sample_kernel" "sym_qualified_prints sample_kernel"
  by (simp_all add: naming_def sample_kernel_def sym_qualified_inj_def cid_inj_def sym_prints_def
      sym_qualified_prints_def)

definition sample_limits :: limits where
  "sample_limits =
     \<lparr>id_bytes = 8, document_bytes = 8, prose_bytes = 8, max_phases = 8, max_imports = 8,
      outputs_per_phase = 8, checkpoints_per_phase = 8, children_per_phase = 8, tree_depth = 4,
      max_causal_path = 4, guide_queries = 8, guide_targets = 8, guide_promises = 8,
      guide_sketches = 8, sketch_bytes = 8, sketch_bindings = 8\<rparr>"

definition no_guide :: "'c implementation_guide" where
  "no_guide = \<lparr>g_uses = [], g_change_targets = [], g_promises = [], g_sketches = []\<rparr>"

definition no_owners :: owner_envelope where
  "no_owners = \<lparr>oe_mutable = {||}, oe_read_only = {||}\<rparr>"

definition no_acceptance :: "('s, 'c) acceptance_contract" where
  "no_acceptance = \<lparr>ac_policy = PolicyAll, ac_statements = bt_empty\<rparr>"

definition sample_phase ::
  "phase_id \<Rightarrow> phase_id option \<Rightarrow> phase_body \<Rightarrow> 'c phase_dependency list \<Rightarrow> capability_id fset
     \<Rightarrow> ('s, 'c) phase_spec" where
  "sample_phase i parent body deps caps =
     \<lparr>ph_id = i, ph_parent = parent, ph_title = ''t'', ph_intent = ''i'', ph_body = body,
      ph_dependencies = deps, ph_owners = no_owners, ph_resources = {||}, ph_effects = {||},
      ph_capabilities = caps, ph_changes = {||}, ph_acceptance = no_acceptance, ph_coverage = [],
      ph_outputs = bt_empty, ph_guide = no_guide, ph_origin = Authored\<rparr>"

definition sample_roadmap :: "phase_id \<Rightarrow> (phase_id \<times> ('s, 'c) phase_spec) list \<Rightarrow> ('s, 'c) roadmap_spec" where
  "sample_roadmap root phases =
     \<lparr>sp_schema = ''s'', sp_roadmap = ''r'', sp_charter = \<lparr>ch_title = ''t'', ch_intent = ''i''\<rparr>,
      sp_root = root, sp_phases = bt_of_list phases, sp_imports = bt_empty, sp_limits = sample_limits\<rparr>"

definition sample_acceptance :: "obligation_id \<Rightarrow> (string list, byte list) acceptance_contract" where
  "sample_acceptance ob = \<lparr>ac_policy = PolicyAll, ac_statements = bt_of_list
     [(ob, \<lparr>as_obligation = ob, as_subject = RefSymbol [''x''], as_predicate = [''holds''],
            as_object = RefSymbol [''y''], as_supporting_refs = []\<rparr>)]\<rparr>"

definition sample_spec :: sspec where
  "sample_spec = sample_roadmap ''a''
     [(''a'', (sample_phase ''a'' None (Composite [''b'', ''c'']) [] {|''net'', ''fs''|})
              \<lparr>ph_acceptance := sample_acceptance ''p'', ph_coverage := [Contributes ''p'' ''b'' ''q'']\<rparr>),
      (''b'', (sample_phase ''b'' (Some ''a'') (Leaf []) [] {|''fs''|})
              \<lparr>ph_acceptance := sample_acceptance ''q''\<rparr>),
      (''c'', sample_phase ''c'' (Some ''a'') (Leaf []) [Requires (LocalRef ''b'')] {||})]"

lemma bt_of_list_sample [bt_simps]:
  "bt_of_list [a] = bt_insert (fst a) (snd a) bt_empty"
  "bt_of_list [a, b] = bt_insert (fst b) (snd b) (bt_of_list [a])"
  "bt_of_list [a, b, c] = bt_insert (fst c) (snd c) (bt_of_list [a, b])"
  "bt_of_list [a, b, c, d] = bt_insert (fst d) (snd d) (bt_of_list [a, b, c])"
  by (simp_all add: bt_of_list_def split_beta)

lemmas sample_defs = sample_spec_def sample_roadmap_def sample_phase_def no_guide_def no_owners_def
  no_acceptance_def sample_acceptance_def sample_limits_def

lemmas tree_eval = tree_validate_def declare_phase_def declare_parent_def declare_child_def
  walk.simps tree_descendants_def add_to_ancestors_def add_descendant_def
  bt_values_def bt_keys_def bt_len_def bt_contains_def bt_get_entries bt_simps Let_def

lemma sample_tree:
  "\<exists>t. tree_validate sample_spec = Ok t
     \<and> bt_entries (tr_paths t) = [(''a'', [''a'']), (''b'', [''a'', ''b'']), (''c'', [''a'', ''c''])]
     \<and> bt_entries (tr_descendants t) = [(''a'', {|''b'', ''c''|}), (''b'', {||}), (''c'', {||})]"
  by (simp add: tree_eval sample_defs causal_path_new_def finsert_commute)

text \<open>A specification whose second entry is filed under a key other than the id of its phase.\<close>

definition misfiled_spec :: sspec where
  "misfiled_spec = sample_roadmap ''a''
     [(''a'', sample_phase ''a'' None (Composite [''c'']) [] {||}),
      (''c'', sample_phase ''d'' (Some ''a'') (Leaf []) [Requires (LocalRef ''a'')] {||})]"

lemma Ok_cases_intro:
  "(case x of Ok r \<Rightarrow> P r | _ \<Rightarrow> False) \<Longrightarrow> \<exists>r. x = Ok r \<and> P r"
  by (cases x) auto

lemma sample_admitted:
  "\<exists>r. admit sample_spec = Ok r \<and> bt_keys (adm_phases r) = [''a'', ''b'', ''c'']"
  by (rule Ok_cases_intro) code_simp

lemma sample_valid: "validate_spec sample_kernel sample_spec = Ok ()"
  by code_simp

lemma sample_coherent: "coherent sample_spec"
  unfolding coherent_entries by code_simp

lemma sample_edges: "lists_child sample_spec ''a'' ''b''" "lists_child sample_spec ''a'' ''c''"
  by (auto simp: lists_child_def sample_defs tree_eval)

end
