(* ===== verification/Roadmap_Theorems.thy ===== *)
theory Roadmap_Theorems
  imports Roadmap_Samples
begin

text \<open>
  The properties of \<open>sim-roadmap-core\<close>, each over the definitions of the component theories and
  instantiated on a concrete specification.
\<close>

text \<open>
  C1: A specification that passes structural validation is one tree within the limits: it has no
  more phases than allowed, only the declared root has no parent, every composite phase lists at
  least one and no more than the allowed number of children, each once, that exist and declare it
  as their parent, every listed child has one lister, and every phase is reached by a path within
  the depth and path limits. The path map returned holds exactly that path for every phase, and
  the descendant map exactly the phases strictly below.
\<close>
theorem validated_tree:
  assumes "tree_validate spec = Ok t"
  shows "is_tree spec \<and> tree_declared spec
     \<and> (\<forall>k. bt_contains (sp_phases spec) k \<longleftrightarrow> bt_contains (tr_paths t) k)
     \<and> (\<forall>k p. bt_get (tr_paths t) k = Some p \<longrightarrow> tree_path spec p k
          \<and> length p \<le> tree_depth (sp_limits spec) \<and> length p \<le> max_causal_path (sp_limits spec)
          \<and> (\<forall>q. tree_path spec q k \<longrightarrow> q = p))
     \<and> (\<forall>a. bt_contains (sp_phases spec) a \<longrightarrow> (\<exists>D. bt_get (tr_descendants t) a = Some D
          \<and> (\<forall>k. k |\<in>| D \<longleftrightarrow> (\<exists>p. bt_get (tr_paths t) k = Some p \<and> a \<in> set (butlast p)))))"
proof (intro conjI allI impI)
  note tree = tree_validate_is_tree [OF assms] and paths = tree_validate_paths [OF assms]
  show "is_tree spec" by (rule tree)
  show "tree_declared spec" by (rule tree_validate_declares [OF assms])
  show "bt_contains (sp_phases spec) k \<longleftrightarrow> bt_contains (tr_paths t) k" for k using paths(2) by simp
  fix k p assume p: "bt_get (tr_paths t) k = Some p"
  show "tree_path spec p k" "length p \<le> tree_depth (sp_limits spec)"
    "length p \<le> max_causal_path (sp_limits spec)" using paths(1) p by (auto simp: paths_ok_def)
  then show "tree_path spec q k \<Longrightarrow> q = p" for q using tree_path_unique [OF tree] by blast
next
  fix a assume a: "bt_contains (sp_phases spec) a"
  note tree = tree_validate_is_tree [OF assms] and paths = tree_validate_paths [OF assms]
  from tree_validate_descendants [OF assms a] obtain D where D: "bt_get (tr_descendants t) a = Some D"
    "\<And>k. k |\<in>| D \<longleftrightarrow> (\<exists>p. tree_path spec p k \<and> bt_contains (sp_phases spec) k \<and> a \<in> set (butlast p))" by blast
  moreover have "(\<exists>p. tree_path spec p k \<and> bt_contains (sp_phases spec) k \<and> a \<in> set (butlast p))
      \<longleftrightarrow> (\<exists>p. bt_get (tr_paths t) k = Some p \<and> a \<in> set (butlast p))" for k
    using paths tree_path_unique [OF tree] tree_validate_path [OF assms]
    unfolding paths_ok_def by metis
  ultimately show "\<exists>D. bt_get (tr_descendants t) a = Some D
      \<and> (\<forall>k. k |\<in>| D \<longleftrightarrow> (\<exists>p. bt_get (tr_paths t) k = Some p \<and> a \<in> set (butlast p)))" by auto
qed

theorem validated_tree_witness:
  "\<exists>t. tree_validate sample_spec = Ok t \<and> is_tree sample_spec \<and> tree_declared sample_spec
     \<and> tree_path sample_spec [''a'', ''c''] ''c''
     \<and> (\<exists>D. bt_get (tr_descendants t) ''a'' = Some D)"
proof -
  from sample_tree obtain t where t: "tree_validate sample_spec = Ok t"
    "bt_entries (tr_paths t) = [(''a'', [''a'']), (''b'', [''a'', ''b'']), (''c'', [''a'', ''c''])]" by blast
  have "bt_contains (tr_paths t) ''a''" "bt_get (tr_paths t) ''c'' = Some [''a'', ''c'']"
    by (simp_all add: bt_contains_def bt_get_entries t(2))
  with t(1) validated_tree [OF t(1)] show ?thesis by blast
qed

text \<open>
  C2: Authority never widens. In an admitted roadmap, along every chain of listed children, the
  effective resources, capabilities, effects, change targets and mutable owners of the lower phase
  are within those of the upper one, and its readable owners are within the upper phase's mutable
  and readable owners.
\<close>
theorem envelopes_never_widen:
  assumes "admit spec = Ok r" "successively (lists_child spec) p" "p \<noteq> []"
    "bt_get (adm_phases r) (hd p) = Some upper" "bt_get (adm_phases r) (last p) = Some lower"
  shows "narrows upper lower"
  using compile_narrows_path assms by (simp add: admit_def)

theorem envelopes_never_widen_witness:
  "\<exists>r upper lower. admit sample_spec = Ok r \<and> bt_get (adm_phases r) ''a'' = Some upper
     \<and> bt_get (adm_phases r) ''c'' = Some lower \<and> narrows upper lower"
proof -
  from sample_admitted obtain r where r: "admit sample_spec = Ok r"
    "bt_keys (adm_phases r) = [''a'', ''b'', ''c'']" by blast
  have "''a'' \<in> set (bt_keys (adm_phases r))" "''c'' \<in> set (bt_keys (adm_phases r))" by (simp_all add: r(2))
  then obtain u l where "bt_get (adm_phases r) ''a'' = Some u" "bt_get (adm_phases r) ''c'' = Some l"
    by (auto simp: set_bt_keys)
  with envelopes_never_widen [OF r(1), of "[''a'', ''c'']"] r sample_edges show ?thesis by auto
qed

text \<open>
  C3: Obligation coverage is exact. In an admitted roadmap every obligation of a composite phase is
  disposed of by exactly one marker, every marker names an obligation of the phase and, when it
  contributes, an obligation that child really has, and no child has an obligation that no marker
  traces. The children together therefore have no more obligations than the phase itself.
\<close>
theorem admitted_coverage_exact:
  assumes "admit spec = Ok r" "bt_get (sp_phases spec) k = Some phase" "ph_body phase = Composite children"
  shows "coverage_exact spec phase children
     \<and> card (obligation_pairs spec children) \<le> bt_len (ac_statements (ph_acceptance phase))"
  using compile_coverage [OF assms(1) [unfolded admit_def] assms(2,3)] coverage_exact_card by blast

theorem admitted_coverage_exact_witness:
  "\<exists>phase. bt_get (sp_phases sample_spec) ''a'' = Some phase
     \<and> coverage_exact sample_spec phase [''b'', ''c'']
     \<and> card (obligation_pairs sample_spec [''b'', ''c'']) \<le> 1"
proof -
  from sample_admitted obtain r where r: "admit sample_spec = Ok r" by blast
  obtain phase where phase: "bt_get (sp_phases sample_spec) ''a'' = Some phase"
    "ph_body phase = Composite [''b'', ''c'']" "bt_len (ac_statements (ph_acceptance phase)) = 1"
    by (simp add: sample_defs tree_eval)
  with admitted_coverage_exact [OF r phase(1,2)] show ?thesis by auto
qed

text \<open>
  C4: Admission returns: its recursion, which has no guard of its own, ends on every
  specification, and on a specification that files every phase under its own id it does not
  panic either.
\<close>
theorem admission_returns:
  "admit spec \<noteq> Diverge \<and> (coherent spec \<longrightarrow> admit spec \<noteq> Panic)"
  by (simp add: admit_def compile_no_Diverge compile_no_Panic)

theorem admission_returns_witness:
  "coherent sample_spec \<and> admit sample_spec \<noteq> Diverge \<and> admit sample_spec \<noteq> Panic"
  using admission_returns [of sample_spec] sample_coherent by simp

text \<open>
  Admission panics on some inputs, and so do validation and the construction of a revision:
  the check that a phase is filed under its own id comes only after admission, whose search for
  circular dependencies indexes the descendant map by that id. The specification files phase
  \<open>d\<close>, which has a local dependency, under the key \<open>c\<close>.
\<close>
theorem misfiled_phase_panics:
  "admit misfiled_spec = Panic
     \<and> (\<forall>K. validate_spec (K :: (string list, byte list) kernel) misfiled_spec = Panic)
     \<and> (\<forall>K parent change. revision_new (K :: (string list, byte list) kernel) parent misfiled_spec change = Panic)"
proof -
  have panic: "admit misfiled_spec = Panic" by code_simp
  have prose: "prose_ok ''t'' 8" "prose_ok ''i'' 8" unfolding prose_ok_def by code_simp+
  have "bt_contains (sp_phases misfiled_spec) (sp_root misfiled_spec)" by code_simp
  then have "validate_spec K misfiled_spec = Panic" for K :: "(string list, byte list) kernel"
    using panic prose
    by (simp add: validate_spec_def admit_def Let_def misfiled_spec_def sample_roadmap_def sample_limits_def
        bt_len_def bounded_def validate_prose_def prose_ok_def)
  with panic show ?thesis by (simp add: revision_new_def)
qed

text \<open>
  C5: Where every phase is filed under its own id, as in every validated specification, no phase of
  an admitted roadmap waits for itself: none of its local dependencies is the phase itself or lies
  below it in the tree. (Admission alone does not compare the ids: the rejection of cycles looks up
  a phase by its own id, and a misfiled phase escapes it.)
\<close>
theorem no_circular_completion:
  assumes "admit spec = Ok r" "coherent spec" "bt_get (sp_phases spec) k = Some phase"
    "dep \<in> set (ph_dependencies phase)" "local_reference dep = Some d"
    "bt_contains (sp_phases spec) d" "tree_path spec p d"
  shows "d \<noteq> k \<and> k \<notin> set p"
  using compile_no_circular [OF assms(1) [unfolded admit_def] assms(2-5)] assms(6,7) by blast

theorem no_circular_completion_witness:
  "''b'' \<noteq> ''c'' \<and> ''c'' \<notin> set [''a'', ''b'']
     \<and> tree_path sample_spec [''a'', ''b''] ''b''"
proof -
  from sample_admitted obtain r where r: "admit sample_spec = Ok r" by blast
  obtain phase where phase: "bt_get (sp_phases sample_spec) ''c'' = Some phase"
    "ph_dependencies phase = [Requires (LocalRef ''b'')]" by (simp add: sample_defs tree_eval)
  have path: "tree_path sample_spec [''a'', ''b''] ''b''"
    using sample_edges by (simp add: tree_path_def sample_spec_def sample_roadmap_def)
  have "bt_contains (sp_phases sample_spec) ''b''" by code_simp
  from no_circular_completion [OF r sample_coherent phase(1), of "Requires (LocalRef ''b'')" "''b''"
      "[''a'', ''b'']"] phase(2) this path
  show ?thesis by simp
qed

text \<open>
  C6: Validation accepts exactly the well-formed specifications: bounded prose, counts and
  imports, an admissible tree whose phases are filed under their own ids, unique checkpoint,
  promise, sketch and binding names, sketch bindings that resolve and bind every promise, no
  process-local handles in acceptance references, dependencies that resolve and imports that are
  pinned. On specifications it does not accept it returns an error, unless admission panics.
\<close>
theorem validation_exact:
  "(validate_spec K spec = Ok () \<longleftrightarrow> well_formed K spec)
     \<and> validate_spec K spec \<noteq> Diverge \<and> (validate_spec K spec = Panic \<longleftrightarrow> admit spec = Panic
       \<and> bt_len (sp_imports spec) \<le> max_imports (sp_limits spec)
       \<and> prose_ok (ch_title (sp_charter spec)) (prose_bytes (sp_limits spec))
       \<and> prose_ok (ch_intent (sp_charter spec)) (document_bytes (sp_limits spec))
       \<and> bt_contains (sp_phases spec) (sp_root spec))"
  by (simp add: validate_spec_iff validate_spec_no_Diverge validate_spec_Panic_iff)

text \<open>
  C7: A revision is what it claims: a revision is constructed exactly from a well-formed
  specification and a bounded rationale, its identity is the content identity of its canonical
  form, and verification of a claimed identity returns the revision exactly when that is the
  identity.
\<close>
theorem revision_identity:
  "(revision_new K parent spec change = Ok r \<longleftrightarrow>
      well_formed K spec \<and> prose_ok (rc_rationale change) (prose_bytes (sp_limits spec))
      \<and> rv_parent r = parent \<and> rv_spec r = spec \<and> rv_change r = change
      \<and> datum_content_id K (canonical_datum K r) = Ok (rrid (rv_id r)))
   \<and> (verify_claimed K claimed parent spec change = Ok r \<longleftrightarrow>
      revision_new K parent spec change = Ok r \<and> rv_id r = claimed)"
proof
  have eta: "r = \<lparr>rv_id = RoadmapRevisionId i, rv_parent = parent, rv_spec = spec, rv_change = change\<rparr>
      \<longleftrightarrow> rv_parent r = parent \<and> rv_spec r = spec \<and> rv_change r = change \<and> rrid (rv_id r) = i" for i
    by (cases r; cases "rv_id r") auto
  show "revision_new K parent spec change = Ok r \<longleftrightarrow>
      well_formed K spec \<and> prose_ok (rc_rationale change) (prose_bytes (sp_limits spec))
      \<and> rv_parent r = parent \<and> rv_spec r = spec \<and> rv_change r = change
      \<and> datum_content_id K (canonical_datum K r) = Ok (rrid (rv_id r))"
    unfolding revision_new_def bind_o_Ok validate_spec_iff canonical_datum_def
    by (auto simp: eta)
  show "verify_claimed K claimed parent spec change = Ok r \<longleftrightarrow>
      revision_new K parent spec change = Ok r \<and> rv_id r = claimed"
    by (auto simp: verify_claimed_def bind_o_Ok)
qed

text \<open>
  C8: The canonical form leaves nothing out. On a kernel whose qualified symbols and content
  identities are determined by their parts, revisions with the same canonical form have the same
  parent, the same change and the same specification, field by field.
\<close>
theorem canonical_form_injective:
  assumes "naming K" "canonical_datum K r = canonical_datum K r'"
  shows "rv_parent r = rv_parent r' \<and> rv_spec r = rv_spec r' \<and> rv_change r = rv_change r'"
  using assms by (simp add: canonical_datum_def revision_datum_eq)

theorem canonical_form_injective_witness:
  "\<exists>r. revision_new sample_kernel None sample_spec \<lparr>rc_id = ''x'', rc_rationale = ''y''\<rparr> = Ok r
     \<and> canonical_datum sample_kernel r
         \<noteq> canonical_datum sample_kernel (r\<lparr>rv_change := \<lparr>rc_id = ''x'', rc_rationale = ''z''\<rparr>\<rparr>)"
proof -
  have "prose_ok ''y'' 8" unfolding prose_ok_def by code_simp
  then obtain r where r: "revision_new sample_kernel None sample_spec \<lparr>rc_id = ''x'', rc_rationale = ''y''\<rparr> = Ok r"
    "rv_change r = \<lparr>rc_id = ''x'', rc_rationale = ''y''\<rparr>"
    by (simp add: revision_new_def sample_valid validate_prose_def prose_ok_def bounded_def)
       (simp add: sample_kernel_def sample_spec_def sample_roadmap_def sample_limits_def)
  with canonical_form_injective [OF sample_naming(1), of r "r\<lparr>rv_change := \<lparr>rc_id = ''x'', rc_rationale = ''z''\<rparr>\<rparr>"]
  show ?thesis by auto
qed

end
