(* ===== verification/Exec_Model.thy ===== *)
theory Exec_Model
  imports Roadmap_Types
begin

text \<open>
  \<open>sim-roadmap-exec-core/src/model.rs\<close>: the values of the execution machine of one phase. Typed
  ids wrap a kernel symbol; \<open>FileImage\<close> and \<open>UnresolvedProof\<close> are single-constructor datatypes
  with the derived order of the source (fields in declaration order). \<open>u64\<close> and \<open>u32\<close> are words.
\<close>

section \<open>Typed identifiers\<close>

datatype 's execution_id = ExecutionId 's
datatype 's execution_policy_id = ExecutionPolicyId 's
datatype 's attempt_id = AttemptId 's
datatype 's mutation_id = MutationId 's

text \<open>The constructor the \<open>text_id!\<close> macro gives each of them, up to the newtype.\<close>

definition exec_id_new :: "('s, 'c) kernel \<Rightarrow> string \<Rightarrow> string \<Rightarrow> (kernel_error, 's) outcome" where
  "exec_id_new K label value =
     (if value = [] \<or> 128 < length value \<or> has_white_space value
      then Err (EvalError (label @ '' must be 1..=128 non-whitespace bytes''))
      else Ok (sym_qualified K ''roadmap-exec'' value))"

text \<open>
  The \<open>CitizenField\<close> codec of a symbol is external (\<open>sim-citizen\<close>): a pair of functions.
\<close>

record ('s, 'x) symbol_codec =
  sc_encode :: "'s \<Rightarrow> 'x"
  sc_decode :: "'x \<Rightarrow> string \<Rightarrow> (kernel_error, 's) outcome"

definition symbol_codec_ok :: "('s, 'x) symbol_codec \<Rightarrow> bool" where
  "symbol_codec_ok C \<longleftrightarrow> (\<forall>s field. sc_decode C (sc_encode C s) field = Ok s)"

definition strip_prefix :: "string \<Rightarrow> string \<Rightarrow> string option" where
  "strip_prefix p s = (if take (length p) s = p then Some (drop (length p) s) else None)"

definition exec_id_encode :: "('s, 'x) symbol_codec \<Rightarrow> 's \<Rightarrow> 'x" where
  "exec_id_encode C i = sc_encode C i"

definition exec_id_decode ::
  "('s, 'c) kernel \<Rightarrow> ('s, 'x) symbol_codec \<Rightarrow> string \<Rightarrow> 'x \<Rightarrow> string \<Rightarrow> (kernel_error, 's) outcome" where
  "exec_id_decode K C label expr field =
     bind_o (sc_decode C expr field) (\<lambda>symbol.
     bind_o (ok_or (strip_prefix ''roadmap-exec/'' (sym_to_string K symbol))
               (EvalError (field @ '' has foreign id namespace''))) (\<lambda>value.
     exec_id_new K label value))"

section \<open>Lifecycle states\<close>

datatype phase_run_state = Planned | Running | Reconciling | Succeeded | Failed | Cancelled

definition run_state_name :: "phase_run_state \<Rightarrow> string" where
  "run_state_name st =
     (case st of Planned \<Rightarrow> ''planned'' | Running \<Rightarrow> ''running'' | Reconciling \<Rightarrow> ''reconciling''
      | Succeeded \<Rightarrow> ''succeeded'' | Failed \<Rightarrow> ''failed'' | Cancelled \<Rightarrow> ''cancelled'')"

definition run_state_encode :: "('s, 'c) kernel \<Rightarrow> ('s, 'x) symbol_codec \<Rightarrow> phase_run_state \<Rightarrow> 'x" where
  "run_state_encode K C st = sc_encode C (sym_new K (run_state_name st))"

definition run_state_decode ::
  "('s, 'c) kernel \<Rightarrow> ('s, 'x) symbol_codec \<Rightarrow> 'x \<Rightarrow> string \<Rightarrow> (kernel_error, phase_run_state) outcome" where
  "run_state_decode K C expr field =
     bind_o (sc_decode C expr field) (\<lambda>symbol.
     let name = sym_to_string K symbol in
     if name = ''planned'' then Ok Planned
     else if name = ''running'' then Ok Running
     else if name = ''reconciling'' then Ok Reconciling
     else if name = ''succeeded'' then Ok Succeeded
     else if name = ''failed'' then Ok Failed
     else if name = ''cancelled'' then Ok Cancelled
     else Err (EvalError (field @ '' has unknown phase state'')))"

section \<open>Policies, images and plans\<close>

record ('s, 'c) execution_policy =
  ep_id :: "'s execution_policy_id"
  ep_source_deck :: 'c
  ep_required_promises :: "promise_id list"
  ep_required_proofs :: "'s list"

datatype 'c file_image = FileImage (fi_path: string) (fi_content: "'c option")

fun file_image_key :: "'c file_image \<Rightarrow> string \<times> 'c option" where
  "file_image_key (FileImage path content) = (path, content)"

lemma file_image_key_inject: "file_image_key a = file_image_key b \<longleftrightarrow> a = b"
  by (cases a; cases b) simp

instantiation file_image :: (linorder) linorder
begin

definition less_eq_file_image :: "'a file_image \<Rightarrow> 'a file_image \<Rightarrow> bool" where
  "less_eq_file_image a b \<longleftrightarrow> file_image_key a \<le> file_image_key b"

definition less_file_image :: "'a file_image \<Rightarrow> 'a file_image \<Rightarrow> bool" where
  "less_file_image a b \<longleftrightarrow> file_image_key a < file_image_key b"

instance
  by standard (auto simp: less_eq_file_image_def less_file_image_def less_le_not_le
      simp flip: file_image_key_inject)

end

datatype 's execution_failure =
    WrongExecution
  | WrongPhase
  | WrongAttempt
  | WrongJournalHead
  | WrongMutation
  | WrongProofCursor
  | InvalidState
  | InvalidObservation 's
  | DuplicatePath
  | InvalidImagePath
  | ForeignImage
  | SuccessInvariant string

record ('s, 'c) mutation_plan =
  mp_id :: "'s mutation_id"
  mp_preimages :: "'c file_image list"
  mp_postimages :: "'c file_image list"

definition valid_path :: "string \<Rightarrow> bool" where
  "valid_path p \<longleftrightarrow> p \<noteq> [] \<and> length p \<le> 4096 \<and> take 1 p \<noteq> ''/''
     \<and> \<not> list_ex (\<lambda>s. s = [] \<or> s = ''.'' \<or> s = ''..'') (split_on (CHR ''/'') p)"

text \<open>\<open>images.windows(2).any(|w| w[0].path == w[1].path)\<close>.\<close>

fun adjacent_same_path :: "'c file_image list \<Rightarrow> bool" where
  "adjacent_same_path (a # b # xs) \<longleftrightarrow> fi_path a = fi_path b \<or> adjacent_same_path (b # xs)"
| "adjacent_same_path _ \<longleftrightarrow> False"

definition check_images :: "'c::linorder file_image list \<Rightarrow> ('s execution_failure, 'c file_image list) outcome" where
  "check_images images =
     (let images = sort images in
      if adjacent_same_path images then Err DuplicatePath
      else if list_ex (\<lambda>i. \<not> valid_path (fi_path i)) images then Err InvalidImagePath
      else Ok images)"

definition mutation_plan_new ::
  "'s mutation_id \<Rightarrow> 'c::linorder file_image list \<Rightarrow> 'c file_image list
     \<Rightarrow> ('s execution_failure, ('s, 'c) mutation_plan) outcome" where
  "mutation_plan_new i preimages postimages =
     bind_o (check_images preimages) (\<lambda>preimages.
     bind_o (check_images postimages) (\<lambda>postimages.
     Ok \<lparr>mp_id = i, mp_preimages = preimages, mp_postimages = postimages\<rparr>))"

datatype image_class = Preimage | Postimage | PreAndPost | Foreign

definition classify :: "('s, 'c) mutation_plan \<Rightarrow> 'c file_image \<Rightarrow> image_class" where
  "classify plan img =
     (case (img \<in> set (mp_preimages plan), img \<in> set (mp_postimages plan)) of
        (True, False) \<Rightarrow> Preimage
      | (False, True) \<Rightarrow> Postimage
      | (True, True) \<Rightarrow> PreAndPost
      | _ \<Rightarrow> Foreign)"

section \<open>Observations and transitions\<close>

record ('s, 'c) proof_cursor =
  pc_sequence :: "64 word"
  pc_journal_head :: 'c
  pc_proof :: 's

record ('s, 'c) promise_discharge =
  pd_promise :: promise_id
  pd_status :: 's
  pd_evidence :: "'c option"

definition proven :: "('s, 'c) kernel \<Rightarrow> ('s, 'c) promise_discharge \<Rightarrow> bool" where
  "proven K d \<longleftrightarrow> pd_status d = sym_new K ''proven'' \<and> pd_evidence d \<noteq> None"

datatype 's unresolved_proof = UnresolvedProof (up_proof: 's) (up_mandatory: bool) (up_reason: 's)

fun unresolved_key :: "'s unresolved_proof \<Rightarrow> 's \<times> bool \<times> 's" where
  "unresolved_key (UnresolvedProof p m r) = (p, m, r)"

lemma unresolved_key_inject: "unresolved_key a = unresolved_key b \<longleftrightarrow> a = b"
  by (cases a; cases b) simp

instantiation unresolved_proof :: (linorder) linorder
begin

definition less_eq_unresolved_proof :: "'a unresolved_proof \<Rightarrow> 'a unresolved_proof \<Rightarrow> bool" where
  "less_eq_unresolved_proof a b \<longleftrightarrow> unresolved_key a \<le> unresolved_key b"

definition less_unresolved_proof :: "'a unresolved_proof \<Rightarrow> 'a unresolved_proof \<Rightarrow> bool" where
  "less_unresolved_proof a b \<longleftrightarrow> unresolved_key a < unresolved_key b"

instance
  by standard (auto simp: less_eq_unresolved_proof_def less_unresolved_proof_def less_le_not_le
      simp flip: unresolved_key_inject)

end

text \<open>\<open>sorted_unique\<close>: through a \<open>BTreeSet\<close>.\<close>

definition sorted_unique :: "'a::linorder list \<Rightarrow> 'a list" where
  "sorted_unique values = sorted_list_of_fset (fset_of_list values)"

record 's unresolved_report =
  ur_proofs :: "'s unresolved_proof list"

definition unresolved_report_new :: "'s::linorder unresolved_proof list \<Rightarrow> 's unresolved_report" where
  "unresolved_report_new proofs = \<lparr>ur_proofs = sorted_unique proofs\<rparr>"

definition has_mandatory :: "'s unresolved_report \<Rightarrow> bool" where
  "has_mandatory r = list_ex up_mandatory (ur_proofs r)"

record ('s, 'c) observation =
  ob_kind :: 's
  ob_journal_head :: 'c
  ob_mutation :: "'s mutation_id option"
  ob_proof_cursor :: "('s, 'c) proof_cursor option"
  ob_image :: "'c file_image option"
  ob_discharge :: "('s, 'c) promise_discharge option"
  ob_unresolved :: "'s unresolved_proof option"
  ob_source_deck :: "'c option"

definition observation_new :: "'s \<Rightarrow> 'c \<Rightarrow> ('s, 'c) observation" where
  "observation_new kind head =
     \<lparr>ob_kind = kind, ob_journal_head = head, ob_mutation = None, ob_proof_cursor = None,
      ob_image = None, ob_discharge = None, ob_unresolved = None, ob_source_deck = None\<rparr>"

record ('s, 'c) execution_event =
  ev_execution :: "'s execution_id"
  ev_phase :: phase_id
  ev_attempt :: "'s attempt_id"
  ev_observation :: "('s, 'c) observation"

record ('s, 'c) effect_request =
  er_kind :: 's
  er_execution :: "'s execution_id"
  er_phase :: phase_id
  er_mutation :: "'s mutation_id option"
  er_proof_cursor :: "('s, 'c) proof_cursor option"

record ('s, 'c) phase_receipt =
  rp_execution :: "'s execution_id"
  rp_phase :: phase_id
  rp_source_deck :: 'c
  rp_journal_head :: 'c
  rp_committed_postimages :: "'c file_image list"
  rp_discharges :: "('s, 'c) promise_discharge list"
  rp_parent_acceptance_retained :: bool

record ('s, 'c) reconciliation_report =
  rr_preimages :: "'c file_image list"
  rr_postimages :: "'c file_image list"
  rr_foreign :: "'c file_image list"
  rr_unresolved :: "'s unresolved_proof list"

fun push_image ::
  "('s, 'c) mutation_plan \<Rightarrow> ('s, 'c) reconciliation_report \<Rightarrow> 'c file_image \<Rightarrow> ('s, 'c) reconciliation_report" where
  "push_image plan r img =
     (case classify plan img of
        Preimage \<Rightarrow> r\<lparr>rr_preimages := rr_preimages r @ [img]\<rparr>
      | Postimage \<Rightarrow> r\<lparr>rr_postimages := rr_postimages r @ [img]\<rparr>
      | PreAndPost \<Rightarrow> r\<lparr>rr_preimages := rr_preimages r @ [img], rr_postimages := rr_postimages r @ [img]\<rparr>
      | Foreign \<Rightarrow> r\<lparr>rr_foreign := rr_foreign r @ [img]\<rparr>)"

definition from_images ::
  "('s, 'c::linorder) mutation_plan \<Rightarrow> 'c file_image list \<Rightarrow> 's::linorder unresolved_proof list
     \<Rightarrow> ('s, 'c) reconciliation_report" where
  "from_images plan images unresolved =
     (let r = foldl (push_image plan)
                \<lparr>rr_preimages = [], rr_postimages = [], rr_foreign = [], rr_unresolved = sorted_unique unresolved\<rparr>
                images in
      r\<lparr>rr_preimages := sorted_unique (rr_preimages r), rr_postimages := sorted_unique (rr_postimages r),
        rr_foreign := sorted_unique (rr_foreign r)\<rparr>)"

record ('s, 'c) transition =
  tn_state :: phase_run_state
  tn_journal_head :: 'c
  tn_committed_postimages :: "'c file_image list"
  tn_discharges :: "('s, 'c) promise_discharge list"
  tn_parent_acceptance_retained :: bool
  tn_current_source_deck :: "'c option"
  tn_unresolved :: "'s unresolved_proof list"
  tn_requested_effects :: "('s, 'c) effect_request list"
  tn_receipt :: "('s, 'c) phase_receipt option"

definition planned :: "'c \<Rightarrow> ('s, 'c) transition" where
  "planned head =
     \<lparr>tn_state = Planned, tn_journal_head = head, tn_committed_postimages = [], tn_discharges = [],
      tn_parent_acceptance_retained = False, tn_current_source_deck = None, tn_unresolved = [],
      tn_requested_effects = [], tn_receipt = None\<rparr>"

section \<open>Facts\<close>

lemma set_sorted_unique [simp]: "set (sorted_unique xs) = set xs"
  by (simp add: sorted_unique_def fset_of_list.rep_eq)

lemma sorted_unique_strict: "sorted_wrt (<) (sorted_unique xs)"
  by (simp add: sorted_unique_def sorted_list_of_fset.rep_eq)

lemma sorted_unique_id:
  "sorted_wrt (<) xs \<Longrightarrow> sorted_unique xs = xs"
  by (metis set_sorted_unique sorted_unique_strict strict_sorted_equal)

lemma sorted_unique_cong: "set xs = set ys \<Longrightarrow> sorted_unique xs = sorted_unique ys"
  by (metis set_sorted_unique sorted_unique_strict strict_sorted_equal)

text \<open>
  A sorted image list whose neighbours have different paths has no path twice, because the path is
  the first component of the order.
\<close>

lemma file_image_le_path: "a \<le> b \<Longrightarrow> fi_path a \<le> fi_path b"
  by (cases a; cases b) (auto simp: less_eq_file_image_def)

lemma distinct_paths:
  fixes images :: "'c::linorder file_image list"
  assumes "sorted images" "\<not> adjacent_same_path images"
  shows "sorted_wrt (<) (map fi_path images)"
  using assms
proof (induction images rule: adjacent_same_path.induct)
  case (1 a b xs)
  have "fi_path a \<le> fi_path b" using "1.prems"(1) file_image_le_path by auto
  then have "fi_path a < fi_path b" using "1.prems"(2) by (simp add: order.not_eq_order_implies_strict)
  moreover have "sorted_wrt (<) (map fi_path (b # xs))" using "1" by simp
  ultimately show ?case by (auto intro: order.strict_trans)
qed auto

lemma adjacent_same_path_sorted: "sorted_wrt (<) (map fi_path images) \<Longrightarrow> \<not> adjacent_same_path images"
  by (induction images rule: adjacent_same_path.induct) auto

lemma paths_strict_images_strict:
  "sorted_wrt (<) (map fi_path images) \<Longrightarrow> sorted_wrt (<) (images :: 'c::linorder file_image list)"
proof (induction images)
  case (Cons a images)
  have "a < b" if "b \<in> set images" for b
    using Cons.prems that by (cases a; cases b) (auto simp: less_file_image_def)
  with Cons show ?case by simp
qed simp

text \<open>The canonical form of an image list: every path once, in order, and valid.\<close>

definition canonical_images :: "'c file_image list \<Rightarrow> bool" where
  "canonical_images images \<longleftrightarrow> sorted_wrt (<) (map fi_path images) \<and> (\<forall>i \<in> set images. valid_path (fi_path i))"

lemma check_images_Ok:
  "check_images images = Ok r \<longleftrightarrow>
     r = sort images \<and> distinct (map fi_path images) \<and> (\<forall>i \<in> set images. valid_path (fi_path i))"
proof -
  have d: "distinct (map fi_path (sort images)) \<longleftrightarrow> distinct (map fi_path images)"
    by (simp add: distinct_map)
  have "sorted (map fi_path (sort images))"
    by (simp add: sorted_map) (metis (mono_tags, lifting) file_image_le_path sorted_sort sorted_wrt_mono_rel)
  then have "\<not> adjacent_same_path (sort images) \<longleftrightarrow> distinct (map fi_path images)"
    unfolding d [symmetric]
    using distinct_paths [of "sort images"] adjacent_same_path_sorted [of "sort images"]
    by (auto simp: strict_sorted_iff)
  then show ?thesis by (auto simp: check_images_def Let_def list_ex_iff)
qed

lemma check_images_canonical:
  assumes "check_images images = Ok r"
  shows "canonical_images r" and "set r = set images"
proof -
  from assms have r: "r = sort images" and a: "\<not> adjacent_same_path (sort images)"
    by (auto simp: check_images_def Let_def split: if_splits)
  show "canonical_images r"
    using assms distinct_paths [OF _ a] by (auto simp: canonical_images_def r check_images_Ok)
  show "set r = set images" by (simp add: r)
qed

lemma strip_prefix_append [simp]: "strip_prefix p (p @ s) = Some s"
  by (simp add: strip_prefix_def)

end
