(* ===== verification/Exec_Reduce.thy ===== *)
theory Exec_Reduce
  imports Exec_Model
begin

text \<open>
  \<open>sim-roadmap-exec-core/src/reduce.rs\<close>: the transition function of one phase execution and its
  replay. The second half states what the function implements: an abstract machine over sets and
  maps (\<open>machine_step\<close>), which \<open>reduce\<close> simulates step by step (\<open>reduce_refines\<close>) and whose
  every step it can take (\<open>reduce_complete\<close>).
\<close>

section \<open>The reducer\<close>

definition correlate ::
  "('s, 'c) mutation_plan \<Rightarrow> 's execution_id \<Rightarrow> phase_id \<Rightarrow> 's attempt_id \<Rightarrow> ('s, 'c) transition
     \<Rightarrow> ('s, 'c) execution_event \<Rightarrow> ('s execution_failure, unit) outcome" where
  "correlate plan execution phase attempt current event =
     (if ev_execution event \<noteq> execution then Err WrongExecution
      else if ev_phase event \<noteq> phase then Err WrongPhase
      else if ev_attempt event \<noteq> attempt then Err WrongAttempt
      else if ob_journal_head (ev_observation event) = tn_journal_head current then Err WrongJournalHead
      else if (case ob_mutation (ev_observation event) of None \<Rightarrow> False | Some m \<Rightarrow> m \<noteq> mp_id plan)
      then Err WrongMutation
      else if (case ob_proof_cursor (ev_observation event) of None \<Rightarrow> False
               | Some c \<Rightarrow> pc_journal_head c \<noteq> tn_journal_head current \<or> pc_sequence c = 0)
      then Err WrongProofCursor
      else Ok ())"

definition observe_image ::
  "('s, 'c::linorder) mutation_plan \<Rightarrow> ('s, 'c) transition \<Rightarrow> 'c file_image
     \<Rightarrow> ('s execution_failure, ('s, 'c) transition) outcome" where
  "observe_image plan nxt img =
     (case classify plan img of
        Foreign \<Rightarrow> Err ForeignImage
      | Preimage \<Rightarrow> Ok nxt
      | _ \<Rightarrow> Ok (nxt\<lparr>tn_committed_postimages := sorted_unique (tn_committed_postimages nxt @ [img])\<rparr>))"

definition request ::
  "('s, 'c) kernel \<Rightarrow> ('s, 'c) transition \<Rightarrow> string \<Rightarrow> 's execution_id \<Rightarrow> phase_id \<Rightarrow> 's mutation_id option
     \<Rightarrow> ('s, 'c) proof_cursor option \<Rightarrow> ('s, 'c) transition" where
  "request K nxt kind execution phase mutation cursor =
     nxt\<lparr>tn_requested_effects := tn_requested_effects nxt @
       [\<lparr>er_kind = sym_new K kind, er_execution = execution, er_phase = phase, er_mutation = mutation,
         er_proof_cursor = cursor\<rparr>]\<rparr>"

definition succeed ::
  "('s, 'c) kernel \<Rightarrow> ('s, 'c) execution_policy \<Rightarrow> ('s, 'c) mutation_plan \<Rightarrow> 's execution_id \<Rightarrow> phase_id
     \<Rightarrow> ('s, 'c) transition \<Rightarrow> ('s execution_failure, ('s, 'c) transition) outcome" where
  "succeed K policy plan execution phase nxt =
     (if tn_committed_postimages nxt \<noteq> mp_postimages plan
      then Err (SuccessInvariant ''postimages not committed'')
      else if tn_current_source_deck nxt \<noteq> Some (ep_source_deck policy)
      then Err (SuccessInvariant ''source deck is stale'')
      else if list_ex (\<lambda>p. \<not> list_ex (\<lambda>d. pd_promise d = p \<and> proven K d) (tn_discharges nxt))
                (ep_required_promises policy)
      then Err (SuccessInvariant ''required promise is not proven'')
      else if \<not> tn_parent_acceptance_retained nxt
      then Err (SuccessInvariant ''parent acceptance not retained'')
      else if list_ex up_mandatory (tn_unresolved nxt)
              \<or> list_ex (\<lambda>p. list_ex (\<lambda>u. up_mandatory u \<and> up_proof u = p) (tn_unresolved nxt))
                  (ep_required_proofs policy)
      then Err (SuccessInvariant ''mandatory proof unresolved'')
      else Ok (nxt\<lparr>tn_state := Succeeded,
        tn_receipt := Some \<lparr>rp_execution = execution, rp_phase = phase,
          rp_source_deck = ep_source_deck policy, rp_journal_head = tn_journal_head nxt,
          rp_committed_postimages = tn_committed_postimages nxt, rp_discharges = tn_discharges nxt,
          rp_parent_acceptance_retained = True\<rparr>\<rparr>))"

definition record_discharge :: "('s, 'c) promise_discharge list \<Rightarrow> ('s, 'c) promise_discharge
     \<Rightarrow> ('s, 'c) promise_discharge list" where
  "record_discharge ds d = sort_key pd_promise (filter (\<lambda>v. pd_promise v \<noteq> pd_promise d) ds @ [d])"

definition reduce ::
  "('s::linorder, 'c::linorder) kernel \<Rightarrow> ('s, 'c) execution_policy \<Rightarrow> ('s, 'c) mutation_plan
     \<Rightarrow> 's execution_id \<Rightarrow> phase_id \<Rightarrow> 's attempt_id \<Rightarrow> ('s, 'c) transition \<Rightarrow> ('s, 'c) execution_event
     \<Rightarrow> ('s execution_failure, ('s, 'c) transition) outcome" where
  "reduce K policy plan execution phase attempt current event =
     bind_o (correlate plan execution phase attempt current event) (\<lambda>_.
     let ob = ev_observation event;
         nxt = current\<lparr>tn_requested_effects := [], tn_journal_head := ob_journal_head ob\<rparr>;
         st = tn_state current;
         kind = sym_to_string K (ob_kind ob) in
     if st = Planned \<and> kind = ''start'' then
       Ok (request K (nxt\<lparr>tn_state := Running\<rparr>) ''apply-mutation'' execution phase (Some (mp_id plan)) None)
     else if (st = Running \<or> st = Reconciling) \<and> kind = ''image-observed'' then
       bind_o (ok_or (ob_image ob) (InvalidObservation (ob_kind ob))) (observe_image plan nxt)
     else if st = Running \<and> kind = ''mutation-committed'' then
       Ok (request K (nxt\<lparr>tn_state := Reconciling\<rparr>) ''run-proof'' execution phase (Some (mp_id plan))
            (ob_proof_cursor ob))
     else if st = Reconciling \<and> kind = ''promise-discharged'' then
       bind_o (ok_or (ob_discharge ob) (InvalidObservation (ob_kind ob))) (\<lambda>d.
         Ok (nxt\<lparr>tn_discharges := record_discharge (tn_discharges nxt) d\<rparr>))
     else if st = Reconciling \<and> kind = ''proof-unresolved'' then
       bind_o (ok_or (ob_unresolved ob) (InvalidObservation (ob_kind ob))) (\<lambda>u.
         Ok (nxt\<lparr>tn_unresolved := sorted_unique (tn_unresolved nxt @ [u])\<rparr>))
     else if st = Reconciling \<and> kind = ''source-deck-current'' then
       Ok (nxt\<lparr>tn_current_source_deck := ob_source_deck ob\<rparr>)
     else if st = Reconciling \<and> kind = ''parent-accepted'' then
       Ok (nxt\<lparr>tn_parent_acceptance_retained := True\<rparr>)
     else if st = Reconciling \<and> kind = ''succeed'' then
       succeed K policy plan execution phase nxt
     else if (st = Running \<or> st = Reconciling) \<and> kind = ''fail'' then
       Ok (nxt\<lparr>tn_state := Failed\<rparr>)
     else if (st = Planned \<or> st = Running \<or> st = Reconciling) \<and> kind = ''cancel'' then
       Ok (nxt\<lparr>tn_state := Cancelled\<rparr>)
     else Err InvalidState)"

definition replay ::
  "('s::linorder, 'c::linorder) kernel \<Rightarrow> ('s, 'c) execution_policy \<Rightarrow> ('s, 'c) mutation_plan
     \<Rightarrow> 's execution_id \<Rightarrow> phase_id \<Rightarrow> 's attempt_id \<Rightarrow> ('s, 'c) transition \<Rightarrow> ('s, 'c) execution_event list
     \<Rightarrow> ('s execution_failure, ('s, 'c) transition) outcome" where
  "replay K policy plan execution phase attempt initial events =
     try_fold (reduce K policy plan execution phase attempt) initial events"

section \<open>The abstract machine\<close>

record ('s, 'c) machine =
  m_state :: phase_run_state
  m_committed :: "'c file_image set"
  m_discharged :: "promise_id \<rightharpoonup> ('s, 'c) promise_discharge"
  m_accepted :: bool
  m_deck :: "'c option"
  m_unresolved :: "'s unresolved_proof set"

definition may_succeed ::
  "('s, 'c) kernel \<Rightarrow> ('s, 'c) execution_policy \<Rightarrow> ('s, 'c) mutation_plan \<Rightarrow> ('s, 'c) machine \<Rightarrow> bool" where
  "may_succeed K policy plan m \<longleftrightarrow>
     m_committed m = set (mp_postimages plan) \<and> m_deck m = Some (ep_source_deck policy)
     \<and> (\<forall>p \<in> set (ep_required_promises policy). \<exists>d. m_discharged m p = Some d \<and> proven K d)
     \<and> m_accepted m \<and> (\<forall>u \<in> m_unresolved m. \<not> up_mandatory u)"

inductive machine_step ::
  "('s, 'c) kernel \<Rightarrow> ('s, 'c) execution_policy \<Rightarrow> ('s, 'c) mutation_plan
     \<Rightarrow> ('s, 'c) machine \<Rightarrow> ('s, 'c) machine \<Rightarrow> bool"
  for K policy plan where
  ms_start: "m_state m = Planned \<Longrightarrow> machine_step K policy plan m (m\<lparr>m_state := Running\<rparr>)"
| ms_postimage: "m_state m \<in> {Running, Reconciling} \<Longrightarrow> img \<in> set (mp_postimages plan)
    \<Longrightarrow> machine_step K policy plan m (m\<lparr>m_committed := insert img (m_committed m)\<rparr>)"
| ms_preimage: "m_state m \<in> {Running, Reconciling} \<Longrightarrow> img \<in> set (mp_preimages plan)
    \<Longrightarrow> img \<notin> set (mp_postimages plan) \<Longrightarrow> machine_step K policy plan m m"
| ms_commit: "m_state m = Running \<Longrightarrow> machine_step K policy plan m (m\<lparr>m_state := Reconciling\<rparr>)"
| ms_discharge: "m_state m = Reconciling
    \<Longrightarrow> machine_step K policy plan m (m\<lparr>m_discharged := (m_discharged m)(pd_promise d \<mapsto> d)\<rparr>)"
| ms_unresolved: "m_state m = Reconciling
    \<Longrightarrow> machine_step K policy plan m (m\<lparr>m_unresolved := insert u (m_unresolved m)\<rparr>)"
| ms_deck: "m_state m = Reconciling \<Longrightarrow> machine_step K policy plan m (m\<lparr>m_deck := deck\<rparr>)"
| ms_accept: "m_state m = Reconciling \<Longrightarrow> machine_step K policy plan m (m\<lparr>m_accepted := True\<rparr>)"
| ms_succeed: "m_state m = Reconciling \<Longrightarrow> may_succeed K policy plan m
    \<Longrightarrow> machine_step K policy plan m (m\<lparr>m_state := Succeeded\<rparr>)"
| ms_fail: "m_state m \<in> {Running, Reconciling} \<Longrightarrow> machine_step K policy plan m (m\<lparr>m_state := Failed\<rparr>)"
| ms_cancel: "m_state m \<in> {Planned, Running, Reconciling}
    \<Longrightarrow> machine_step K policy plan m (m\<lparr>m_state := Cancelled\<rparr>)"

inductive_cases machine_stepE: "machine_step K policy plan m m'"

definition machine_of :: "('s, 'c) transition \<Rightarrow> ('s, 'c) machine" where
  "machine_of t =
     \<lparr>m_state = tn_state t, m_committed = set (tn_committed_postimages t),
      m_discharged = map_of (map (\<lambda>d. (pd_promise d, d)) (tn_discharges t)),
      m_accepted = tn_parent_acceptance_retained t, m_deck = tn_current_source_deck t,
      m_unresolved = set (tn_unresolved t)\<rparr>"

text \<open>What every reachable transition satisfies: canonical lists, and a receipt exactly on success.\<close>

definition receipt_ok ::
  "('s, 'c) kernel \<Rightarrow> ('s, 'c) execution_policy \<Rightarrow> ('s, 'c) mutation_plan \<Rightarrow> 's execution_id \<Rightarrow> phase_id
     \<Rightarrow> ('s, 'c) transition \<Rightarrow> ('s, 'c) phase_receipt \<Rightarrow> bool" where
  "receipt_ok K policy plan execution phase t r \<longleftrightarrow>
     rp_execution r = execution \<and> rp_phase r = phase \<and> rp_source_deck r = ep_source_deck policy
     \<and> tn_current_source_deck t = Some (ep_source_deck policy)
     \<and> tn_committed_postimages t = mp_postimages plan
     \<and> rp_journal_head r = tn_journal_head t \<and> rp_committed_postimages r = mp_postimages plan
     \<and> rp_discharges r = tn_discharges t
     \<and> (\<forall>p \<in> set (ep_required_promises policy). \<exists>d \<in> set (rp_discharges r).
          pd_promise d = p \<and> pd_status d = sym_new K ''proven'' \<and> pd_evidence d \<noteq> None)
     \<and> rp_parent_acceptance_retained r \<and> tn_parent_acceptance_retained t
     \<and> (\<forall>u \<in> set (tn_unresolved t). \<not> up_mandatory u)"

definition exec_inv ::
  "('s, 'c::linorder) kernel \<Rightarrow> ('s::linorder, 'c) execution_policy \<Rightarrow> ('s, 'c) mutation_plan \<Rightarrow> 's execution_id
     \<Rightarrow> phase_id \<Rightarrow> ('s, 'c) transition \<Rightarrow> bool" where
  "exec_inv K policy plan execution phase t \<longleftrightarrow>
     sorted_wrt (<) (tn_committed_postimages t)
     \<and> set (tn_committed_postimages t) \<subseteq> set (mp_postimages plan)
     \<and> sorted_wrt (<) (map pd_promise (tn_discharges t))
     \<and> sorted_wrt (<) (tn_unresolved t)
     \<and> (tn_receipt t \<noteq> None \<longleftrightarrow> tn_state t = Succeeded)
     \<and> (\<forall>r. tn_receipt t = Some r \<longrightarrow> receipt_ok K policy plan execution phase t r)"

section \<open>Refinement\<close>

lemma correlate_total [simp]:
  "correlate plan x p a s e \<noteq> Panic" "correlate plan x p a s e \<noteq> Diverge"
  by (auto simp: correlate_def)

lemma observe_image_total [simp]:
  "observe_image plan s img \<noteq> Panic" "observe_image plan s img \<noteq> Diverge"
  by (auto simp: observe_image_def split: image_class.splits)

lemma succeed_total [simp]:
  "succeed K policy plan x p s \<noteq> Panic" "succeed K policy plan x p s \<noteq> Diverge"
  by (auto simp: succeed_def)

lemma classify_cases:
  "classify plan img = Foreign \<longleftrightarrow> img \<notin> set (mp_preimages plan) \<and> img \<notin> set (mp_postimages plan)"
  "classify plan img = Preimage \<longleftrightarrow> img \<in> set (mp_preimages plan) \<and> img \<notin> set (mp_postimages plan)"
  "classify plan img = Postimage \<longleftrightarrow> img \<notin> set (mp_preimages plan) \<and> img \<in> set (mp_postimages plan)"
  "classify plan img = PreAndPost \<longleftrightarrow> img \<in> set (mp_preimages plan) \<and> img \<in> set (mp_postimages plan)"
  by (auto simp: classify_def split: bool.splits)

lemma observe_image_Ok:
  "observe_image plan s img = Ok s' \<longleftrightarrow>
     (img \<in> set (mp_postimages plan)
        \<and> s' = s\<lparr>tn_committed_postimages := sorted_unique (tn_committed_postimages s @ [img])\<rparr>)
     \<or> (img \<in> set (mp_preimages plan) \<and> img \<notin> set (mp_postimages plan) \<and> s' = s)"
  by (auto simp: observe_image_def classify_cases split: image_class.splits)

lemma record_discharge_set:
  "set (record_discharge ds d) = insert d {v \<in> set ds. pd_promise v \<noteq> pd_promise d}"
  by (auto simp: record_discharge_def)

lemma record_discharge_sorted:
  assumes "sorted_wrt (<) (map pd_promise ds)"
  shows "sorted_wrt (<) (map pd_promise (record_discharge ds d))"
proof -
  have "distinct (map pd_promise ds)" using assms by (simp add: strict_sorted_iff)
  then have "distinct (map pd_promise (filter (\<lambda>v. pd_promise v \<noteq> pd_promise d) ds @ [d]))"
    by (auto simp: distinct_map_filter)
  then have "distinct (map pd_promise (record_discharge ds d))"
    unfolding record_discharge_def by (simp add: distinct_map)
  moreover have "sorted (map pd_promise (record_discharge ds d))" by (simp add: record_discharge_def)
  ultimately show ?thesis by (simp add: strict_sorted_iff)
qed

lemma map_of_promises:
  assumes "distinct (map pd_promise ds)"
  shows "map_of (map (\<lambda>d. (pd_promise d, d)) ds) p = Some d \<longleftrightarrow> d \<in> set ds \<and> pd_promise d = p"
  using assms by (subst map_of_eq_Some_iff) (auto simp: o_def)

lemma option_eq_Some: "(\<And>v. a = Some v \<longleftrightarrow> b = Some v) \<Longrightarrow> a = b"
  by (metis not_Some_eq)

lemma map_of_record_discharge:
  assumes "sorted_wrt (<) (map pd_promise ds)"
  shows "map_of (map (\<lambda>d. (pd_promise d, d)) (record_discharge ds d)) =
     (map_of (map (\<lambda>d. (pd_promise d, d)) ds))(pd_promise d \<mapsto> d)"
proof
  fix p
  have d1: "distinct (map pd_promise ds)" using assms by (simp add: strict_sorted_iff)
  have d2: "distinct (map pd_promise (record_discharge ds d))"
    using record_discharge_sorted [OF assms] by (simp add: strict_sorted_iff)
  have "map_of (map (\<lambda>d. (pd_promise d, d)) (record_discharge ds d)) p = Some v \<longleftrightarrow>
     ((map_of (map (\<lambda>d. (pd_promise d, d)) ds))(pd_promise d \<mapsto> d)) p = Some v" for v
    by (auto simp: map_of_promises [OF d1] map_of_promises [OF d2] record_discharge_set)
  then show "map_of (map (\<lambda>d. (pd_promise d, d)) (record_discharge ds d)) p =
     ((map_of (map (\<lambda>d. (pd_promise d, d)) ds))(pd_promise d \<mapsto> d)) p"
    by (rule option_eq_Some)
qed

lemma reduce_cases:
  assumes "reduce K policy plan x p a s e = Ok s'"
  defines "ob \<equiv> ev_observation e"
  defines "nxt \<equiv> s\<lparr>tn_requested_effects := [], tn_journal_head := ob_journal_head ob\<rparr>"
  obtains
    (start) "tn_state s = Planned"
      "s' = request K (nxt\<lparr>tn_state := Running\<rparr>) ''apply-mutation'' x p (Some (mp_id plan)) None"
  | (observed) img where "tn_state s = Running \<or> tn_state s = Reconciling" "observe_image plan nxt img = Ok s'"
  | (committed) "tn_state s = Running"
      "s' = request K (nxt\<lparr>tn_state := Reconciling\<rparr>) ''run-proof'' x p (Some (mp_id plan)) (ob_proof_cursor ob)"
  | (discharged) d where "tn_state s = Reconciling"
      "s' = nxt\<lparr>tn_discharges := record_discharge (tn_discharges nxt) d\<rparr>"
  | (unresolved) u where "tn_state s = Reconciling"
      "s' = nxt\<lparr>tn_unresolved := sorted_unique (tn_unresolved nxt @ [u])\<rparr>"
  | (deck) "tn_state s = Reconciling" "s' = nxt\<lparr>tn_current_source_deck := ob_source_deck ob\<rparr>"
  | (accepted) "tn_state s = Reconciling" "s' = nxt\<lparr>tn_parent_acceptance_retained := True\<rparr>"
  | (succeeded) "tn_state s = Reconciling" "succeed K policy plan x p nxt = Ok s'"
  | (failed) "tn_state s = Running \<or> tn_state s = Reconciling" "s' = nxt\<lparr>tn_state := Failed\<rparr>"
  | (cancelled) "tn_state s = Planned \<or> tn_state s = Running \<or> tn_state s = Reconciling"
      "s' = nxt\<lparr>tn_state := Cancelled\<rparr>"
proof -
  define is_kind where "is_kind t \<longleftrightarrow> sym_to_string K (ob_kind ob) = t" for t
  note run = assms(1) [unfolded reduce_def Let_def bind_o_Ok, folded ob_def, folded nxt_def is_kind_def]
  show thesis
    using run
    apply (elim exE conjE)
    apply (split if_split_asm)
    subgoal by (rule start) simp_all
    apply (split if_split_asm)
    subgoal using observed by (auto simp: bind_o_Ok)
    apply (split if_split_asm)
    subgoal by (rule committed) simp_all
    apply (split if_split_asm)
    subgoal using discharged by (auto simp: bind_o_Ok)
    apply (split if_split_asm)
    subgoal using unresolved by (auto simp: bind_o_Ok)
    apply (split if_split_asm)
    subgoal by (rule deck) simp_all
    apply (split if_split_asm)
    subgoal by (rule accepted) simp_all
    apply (split if_split_asm)
    subgoal by (rule succeeded) simp_all
    apply (split if_split_asm)
    subgoal by (rule failed) simp_all
    apply (split if_split_asm)
    subgoal by (rule cancelled) simp_all
    subgoal by simp
    done
qed

lemma succeed_Ok:
  assumes "succeed K policy plan x p s = Ok s'" "sorted_wrt (<) (map pd_promise (tn_discharges s))"
  shows "may_succeed K policy plan (machine_of s)"
    and "tn_committed_postimages s = mp_postimages plan"
    and "\<exists>r. s' = s\<lparr>tn_state := Succeeded, tn_receipt := Some r\<rparr> \<and> receipt_ok K policy plan x p s' r"
proof -
  have promises: "\<exists>d \<in> set (tn_discharges s). pd_promise d = q \<and> proven K d"
    if "q \<in> set (ep_required_promises policy)" for q
    using assms(1) that by (auto simp: succeed_def list_ex_iff split: if_splits)
  have dist: "distinct (map pd_promise (tn_discharges s))" using assms(2) by (simp add: strict_sorted_iff)
  from promises have "\<forall>q \<in> set (ep_required_promises policy). \<exists>d. m_discharged (machine_of s) q = Some d \<and> proven K d"
    by (fastforce simp: machine_of_def map_of_promises [OF dist])
  then show "may_succeed K policy plan (machine_of s)"
    using assms(1) by (auto simp: succeed_def may_succeed_def machine_of_def list_ex_iff split: if_splits)
  show "tn_committed_postimages s = mp_postimages plan"
    using assms(1) by (auto simp: succeed_def split: if_splits)
  show "\<exists>r. s' = s\<lparr>tn_state := Succeeded, tn_receipt := Some r\<rparr> \<and> receipt_ok K policy plan x p s' r"
    using assms(1) promises by (auto simp: succeed_def receipt_ok_def proven_def list_ex_iff split: if_splits)
qed

lemma sorted_unique_append_set: "set (sorted_unique (xs @ [y])) = insert y (set xs)"
  by auto

lemma reduce_step:
  assumes inv: "exec_inv K policy plan x p s" and run: "reduce K policy plan x p a s e = Ok s'"
  shows "machine_step K policy plan (machine_of s) (machine_of s')" and "exec_inv K policy plan x p s'"
proof -
  note simps = machine_of_def request_def exec_inv_def sorted_unique_strict
  have none: "tn_receipt s = None" if "tn_state s \<noteq> Succeeded" using inv that by (auto simp: exec_inv_def)
  have sorted: "sorted_wrt (<) (map pd_promise (tn_discharges s))" using inv by (simp add: exec_inv_def)
  show "machine_step K policy plan (machine_of s) (machine_of s')"
    using run
  proof (cases rule: reduce_cases)
    case start
    then show ?thesis using ms_start [of "machine_of s" K policy plan] by (simp add: simps)
  next
    case (observed img)
    then show ?thesis
      using ms_postimage [of "machine_of s" img plan K policy] ms_preimage [of "machine_of s" img plan K policy]
      by (auto simp: simps observe_image_Ok)
  next
    case committed
    then show ?thesis using ms_commit [of "machine_of s" K policy plan] by (simp add: simps)
  next
    case (discharged d)
    then show ?thesis using ms_discharge [of "machine_of s" K policy plan d]
      by (simp add: simps map_of_record_discharge [OF sorted])
  next
    case (unresolved u)
    then show ?thesis using ms_unresolved [of "machine_of s" K policy plan u] by (simp add: simps)
  next
    case deck
    then show ?thesis using ms_deck [of "machine_of s" K policy plan] by (simp add: simps)
  next
    case accepted
    then show ?thesis using ms_accept [of "machine_of s" K policy plan] by (simp add: simps)
  next
    case succeeded
    then show ?thesis
      using succeed_Ok [OF succeeded(2)] sorted ms_succeed [of "machine_of s" K policy plan]
      by (auto simp: machine_of_def)
  next
    case failed
    then show ?thesis using ms_fail [of "machine_of s" K policy plan] by (simp add: simps)
  next
    case cancelled
    then show ?thesis using ms_cancel [of "machine_of s" K policy plan] by (simp add: simps)
  qed
  show "exec_inv K policy plan x p s'"
    using run
  proof (cases rule: reduce_cases)
    case (observed img)
    then show ?thesis using inv none by (auto simp: simps observe_image_Ok)
  next
    case (discharged d)
    then show ?thesis using inv none by (simp add: simps record_discharge_sorted)
  next
    case succeeded
    then show ?thesis using succeed_Ok [OF succeeded(2)] inv none by (auto simp: exec_inv_def)
  qed (use inv none in \<open>auto simp: simps\<close>)
qed

lemma planned_inv: "exec_inv K policy plan x p (planned h)"
  by (simp add: exec_inv_def planned_def)

lemma replay_inv:
  assumes "exec_inv K policy plan x p s" "replay K policy plan x p a s es = Ok s'"
  shows "exec_inv K policy plan x p s'"
  using assms(2) unfolding replay_def
  by (rule try_fold_invariant [where I = "exec_inv K policy plan x p"]) (use assms(1) reduce_step(2) in blast)+

lemma reduce_total: "reduce K policy plan x p a s e \<noteq> Panic" "reduce K policy plan x p a s e \<noteq> Diverge"
  by (auto simp: reduce_def Let_def bind_o_Panic bind_o_Diverge)

lemma replay_total: "replay K policy plan x p a s es \<noteq> Panic" "replay K policy plan x p a s es \<noteq> Diverge"
  unfolding replay_def by (simp_all add: try_fold_never_Panic try_fold_no_Diverge reduce_total)

lemma replay_append:
  "replay K policy plan x p a s (es @ fs) =
     bind_o (replay K policy plan x p a s es) (\<lambda>t. replay K policy plan x p a t fs)"
  by (simp add: replay_def try_fold_append)

text \<open>A phase that has ended accepts no further event.\<close>

lemma terminal_rejects:
  assumes "tn_state s \<in> {Succeeded, Failed, Cancelled}"
  shows "\<exists>err. reduce K policy plan x p a s e = Err err"
proof -
  have "reduce K policy plan x p a s e \<noteq> Ok s'" for s'
    using assms by (auto elim: reduce_cases)
  then show ?thesis using reduce_total by (metis outcome.exhaust)
qed

section \<open>Completeness\<close>

text \<open>An observation of a given kind at a fresh journal head, and the event that carries it.\<close>

definition obs :: "('s, 'c) kernel \<Rightarrow> string \<Rightarrow> 'c \<Rightarrow> ('s, 'c) observation" where
  "obs K kind h = observation_new (sym_new K kind) h"

definition event_of ::
  "'s execution_id \<Rightarrow> phase_id \<Rightarrow> 's attempt_id \<Rightarrow> ('s, 'c) observation \<Rightarrow> ('s, 'c) execution_event" where
  "event_of x p a ob = \<lparr>ev_execution = x, ev_phase = p, ev_attempt = a, ev_observation = ob\<rparr>"

lemma correlate_event_of:
  "ob_journal_head ob \<noteq> tn_journal_head s \<Longrightarrow> ob_mutation ob = None \<Longrightarrow> ob_proof_cursor ob = None
     \<Longrightarrow> correlate plan x p a s (event_of x p a ob) = Ok ()"
  by (simp add: correlate_def event_of_def)

lemma obs_fields [simp]:
  "ob_kind (obs K kind h) = sym_new K kind" "ob_journal_head (obs K kind h) = h"
  "ob_mutation (obs K kind h) = None" "ob_proof_cursor (obs K kind h) = None"
  by (simp_all add: obs_def observation_new_def)

lemma ev_observation_event_of [simp]: "ev_observation (event_of x p a ob) = ob"
  by (simp add: event_of_def)

lemma succeed_complete:
  assumes "may_succeed K policy plan (machine_of s)" "sorted_wrt (<) (mp_postimages plan)"
    "sorted_wrt (<) (tn_committed_postimages s)" "sorted_wrt (<) (map pd_promise (tn_discharges s))"
  shows "\<exists>s'. succeed K policy plan x p s = Ok s' \<and> machine_of s' = (machine_of s)\<lparr>m_state := Succeeded\<rparr>
     \<and> tn_journal_head s' = tn_journal_head s"
proof -
  have dist: "distinct (map pd_promise (tn_discharges s))" using assms(4) by (simp add: strict_sorted_iff)
  have post: "tn_committed_postimages s = mp_postimages plan"
    using assms(1,2,3) by (intro strict_sorted_equal) (auto simp: may_succeed_def machine_of_def)
  have "\<forall>q \<in> set (ep_required_promises policy). \<exists>d \<in> set (tn_discharges s). pd_promise d = q \<and> proven K d"
    using assms(1) by (fastforce simp: may_succeed_def machine_of_def map_of_promises [OF dist])
  with assms(1) post show ?thesis
    by (auto simp: succeed_def may_succeed_def machine_of_def list_ex_iff)
qed

lemma reduce_complete:
  assumes prints: "sym_prints K" and inv: "exec_inv K policy plan x p s"
    and post: "sorted_wrt (<) (mp_postimages plan)" and head: "h \<noteq> tn_journal_head s"
    and step: "machine_step K policy plan (machine_of s) m'"
  shows "\<exists>e s'. reduce K policy plan x p a s e = Ok s' \<and> machine_of s' = m' \<and> tn_journal_head s' = h"
proof -
  have str [simp]: "sym_to_string K (sym_new K n) = n" for n using prints by (simp add: sym_prints_def)
  have st: "m_state (machine_of s) = tn_state s" by (simp add: machine_of_def)
  have sorted: "sorted_wrt (<) (map pd_promise (tn_discharges s))" using inv by (simp add: exec_inv_def)
  have go: ?thesis if "ob_journal_head ob = h" "ob_mutation ob = None" "ob_proof_cursor ob = None"
    "reduce K policy plan x p a s (event_of x p a ob) = Ok s'" "machine_of s' = m'" "tn_journal_head s' = h"
    for ob s' using that by blast
  have corr: "correlate plan x p a s (event_of x p a ob) = Ok ()"
    if "ob_journal_head ob = h" "ob_mutation ob = None" "ob_proof_cursor ob = None" for ob
    using that head by (intro correlate_event_of) simp_all
  note ev = reduce_def Let_def corr request_def observe_image_Ok
  note eval = ev machine_of_def
  from step show ?thesis
  proof (cases rule: machine_step.cases)
    case ms_start
    then show ?thesis by (intro exI [of _ "event_of x p a (obs K ''start'' h)"]) (simp add: eval)
  next
    case (ms_postimage img)
    then show ?thesis
      by (intro exI [of _ "event_of x p a ((obs K ''image-observed'' h)\<lparr>ob_image := Some img\<rparr>)"])
         (auto simp: eval)
  next
    case (ms_preimage img)
    then show ?thesis
      by (intro exI [of _ "event_of x p a ((obs K ''image-observed'' h)\<lparr>ob_image := Some img\<rparr>)"])
         (auto simp: eval)
  next
    case ms_commit
    then show ?thesis by (intro exI [of _ "event_of x p a (obs K ''mutation-committed'' h)"]) (simp add: eval)
  next
    case (ms_discharge d)
    then show ?thesis
      by (intro exI [of _ "event_of x p a ((obs K ''promise-discharged'' h)\<lparr>ob_discharge := Some d\<rparr>)"])
         (simp add: eval map_of_record_discharge [OF sorted])
  next
    case (ms_unresolved u)
    then show ?thesis
      by (intro exI [of _ "event_of x p a ((obs K ''proof-unresolved'' h)\<lparr>ob_unresolved := Some u\<rparr>)"])
         (simp add: eval)
  next
    case (ms_deck deck)
    then show ?thesis
      by (intro exI [of _ "event_of x p a ((obs K ''source-deck-current'' h)\<lparr>ob_source_deck := deck\<rparr>)"])
         (simp add: eval)
  next
    case ms_accept
    then show ?thesis by (intro exI [of _ "event_of x p a (obs K ''parent-accepted'' h)"]) (simp add: eval)
  next
    case ms_succeed
    let ?n = "s\<lparr>tn_requested_effects := [], tn_journal_head := h\<rparr>"
    have "machine_of ?n = machine_of s" by (simp add: machine_of_def)
    with ms_succeed succeed_complete [of K policy plan ?n x p] post inv obtain s' where
      s': "succeed K policy plan x p ?n = Ok s'" "machine_of s' = m'" "tn_journal_head s' = h"
      by (auto simp: exec_inv_def)
    with ms_succeed st show ?thesis
      by (intro exI [of _ "event_of x p a (obs K ''succeed'' h)"]) (simp add: ev)
  next
    case ms_fail
    then show ?thesis by (intro exI [of _ "event_of x p a (obs K ''fail'' h)"]) (auto simp: eval)
  next
    case ms_cancel
    then show ?thesis by (intro exI [of _ "event_of x p a (obs K ''cancel'' h)"]) (auto simp: eval)
  qed
qed

section \<open>Success can be reached\<close>

lemma committing_steps:
  assumes "m_state m \<in> {Running, Reconciling}" "set imgs \<subseteq> set (mp_postimages plan)"
  shows "(machine_step K policy plan)\<^sup>*\<^sup>* m (m\<lparr>m_committed := set imgs \<union> m_committed m\<rparr>)"
  using assms(2)
proof (induction imgs)
  case (Cons i imgs)
  let ?m = "m\<lparr>m_committed := set imgs \<union> m_committed m\<rparr>"
  have "machine_step K policy plan ?m (?m\<lparr>m_committed := insert i (m_committed ?m)\<rparr>)"
    using assms(1) Cons.prems by (intro ms_postimage) auto
  with Cons show ?case by (auto elim: rtranclp.rtrancl_into_rtrancl)
qed simp

lemma discharging_steps:
  assumes "m_state m = Reconciling"
  shows "\<exists>ds. (machine_step K policy plan)\<^sup>*\<^sup>* m (m\<lparr>m_discharged := ds\<rparr>)
     \<and> (\<forall>q \<in> set ps. \<exists>d. ds q = Some d \<and> proven K d)"
proof (induction ps)
  case Nil
  show ?case by (rule exI [of _ "m_discharged m"]) simp
next
  case (Cons q ps)
  then obtain ds where ds: "(machine_step K policy plan)\<^sup>*\<^sup>* m (m\<lparr>m_discharged := ds\<rparr>)"
    "\<forall>q \<in> set ps. \<exists>d. ds q = Some d \<and> proven K d" by blast
  let ?m = "m\<lparr>m_discharged := ds\<rparr>"
  let ?d = "\<lparr>pd_promise = q, pd_status = sym_new K ''proven'', pd_evidence = Some (ep_source_deck policy)\<rparr>"
  have "machine_step K policy plan ?m (?m\<lparr>m_discharged := (m_discharged ?m)(pd_promise ?d \<mapsto> ?d)\<rparr>)"
    using assms by (intro ms_discharge) simp
  with ds(1) have "(machine_step K policy plan)\<^sup>*\<^sup>* m (m\<lparr>m_discharged := ds(q \<mapsto> ?d)\<rparr>)"
    by (auto elim: rtranclp.rtrancl_into_rtrancl)
  moreover have "\<forall>r \<in> set (q # ps). \<exists>d. (ds(q \<mapsto> ?d)) r = Some d \<and> proven K d"
    using ds(2) by (auto simp: proven_def)
  ultimately show ?case by blast
qed

lemma machine_can_succeed:
  assumes "m_state m = Planned" "m_committed m = {}" "m_unresolved m = {}"
  shows "\<exists>m'. (machine_step K policy plan)\<^sup>*\<^sup>* m m' \<and> m_state m' = Succeeded"
proof -
  let ?R = "(machine_step K policy plan)\<^sup>*\<^sup>*"
  let ?m1 = "m\<lparr>m_state := Running\<rparr>"
  let ?m2 = "?m1\<lparr>m_state := Reconciling\<rparr>"
  have "?R m ?m1" using ms_start [of m K policy plan] assms by auto
  also have "?R ?m1 ?m2" using ms_commit [of ?m1 K policy plan] by auto
  also have "?R ?m2 (?m2\<lparr>m_committed := set (mp_postimages plan) \<union> m_committed ?m2\<rparr>)"
    by (rule committing_steps) simp_all
  finally have r1: "?R m (m\<lparr>m_state := Reconciling, m_committed := set (mp_postimages plan)\<rparr>)"
    using assms(2) by simp
  from discharging_steps [of "m\<lparr>m_state := Reconciling, m_committed := set (mp_postimages plan)\<rparr>" K policy plan
      "ep_required_promises policy"] obtain ds where
    "?R (m\<lparr>m_state := Reconciling, m_committed := set (mp_postimages plan)\<rparr>)
        (m\<lparr>m_state := Reconciling, m_committed := set (mp_postimages plan), m_discharged := ds\<rparr>)"
    and ds: "\<forall>q \<in> set (ep_required_promises policy). \<exists>d. ds q = Some d \<and> proven K d" by auto
  with r1 have r: "?R m (m\<lparr>m_state := Reconciling, m_committed := set (mp_postimages plan), m_discharged := ds\<rparr>)"
    by (meson rtranclp_trans)
  let ?m3 = "m\<lparr>m_state := Reconciling, m_committed := set (mp_postimages plan), m_discharged := ds\<rparr>"
  let ?m4 = "?m3\<lparr>m_deck := Some (ep_source_deck policy)\<rparr>"
  let ?m5 = "?m4\<lparr>m_accepted := True\<rparr>"
  have "machine_step K policy plan ?m3 ?m4" by (rule ms_deck) simp
  moreover have "machine_step K policy plan ?m4 ?m5" by (rule ms_accept) simp
  moreover have "machine_step K policy plan ?m5 (?m5\<lparr>m_state := Succeeded\<rparr>)"
    using ds assms(3) by (intro ms_succeed) (simp_all add: may_succeed_def)
  ultimately have "?R m (?m5\<lparr>m_state := Succeeded\<rparr>)"
    using r by (meson rtranclp.rtrancl_into_rtrancl)
  moreover have "m_state (?m5\<lparr>m_state := Succeeded\<rparr>) = Succeeded" by simp
  ultimately show ?thesis by blast
qed

lemma replay_follows:
  fixes K :: "('s::linorder, 'c::linorder) kernel"
  assumes "(machine_step K policy plan)\<^sup>*\<^sup>* m m'" "machine_of s = m" "exec_inv K policy plan x p s"
    "sym_prints K" "sorted_wrt (<) (mp_postimages plan)" and heads: "\<And>h :: 'c. \<exists>h'. h' \<noteq> h"
  shows "\<exists>es s'. replay K policy plan x p a s es = Ok s' \<and> machine_of s' = m'"
  using assms(1)
proof (induction rule: rtranclp_induct)
  case base
  then show ?case using assms(2) by (intro exI [of _ "[]"] exI [of _ s]) (simp add: replay_def)
next
  case (step m1 m2)
  then obtain es s1 where s1: "replay K policy plan x p a s es = Ok s1" "machine_of s1 = m1" by blast
  obtain h where h: "h \<noteq> tn_journal_head s1" using heads by blast
  from reduce_complete [OF assms(4) replay_inv [OF assms(3) s1(1)] assms(5) h] step(2) s1(2)
  obtain e s2 where "reduce K policy plan x p a s1 e = Ok s2" "machine_of s2 = m2" by blast
  with s1(1) show ?case
    by (intro exI [of _ "es @ [e]"] exI [of _ s2]) (simp add: replay_append, simp add: replay_def)
qed

end
