(* ===== verification/Exec_Recovery.thy ===== *)
theory Exec_Recovery
  imports Exec_Model
begin

text \<open>
  \<open>sim-roadmap-exec-core\<close>: \<open>failure.rs\<close>, \<open>recovery.rs\<close> and \<open>card.rs\<close>. Attempt counters are 32-bit
  words; \<open>attempts_used + 1\<close> and \<open>max_attempts - next\<close> are the wrapping operations of the type,
  and \<open>admit_retry_counters\<close> shows that on admitted retries neither wraps (so that the checked
  arithmetic of a debug build does not panic either). The \<open>Debug\<close> text of a content identity is
  a parameter.
\<close>

section \<open>Failure classes\<close>

datatype failure_owner = InputAuthor | ConductOwner | MutationAdapter | ProofSystem | Infrastructure
  | BudgetAuthority | AuthorityHolder | UnknownOwner

datatype failure_class = DeterministicInput | ConductClass | MutationClass | ProofClass
  | InfrastructureTransient | InfrastructurePermanent | BudgetClass | AuthorityClass | Ambiguity

fun failure_rank :: "failure_class \<Rightarrow> nat" where
  "failure_rank DeterministicInput = 0"
| "failure_rank ConductClass = 1"
| "failure_rank MutationClass = 2"
| "failure_rank ProofClass = 3"
| "failure_rank InfrastructureTransient = 4"
| "failure_rank InfrastructurePermanent = 5"
| "failure_rank BudgetClass = 6"
| "failure_rank AuthorityClass = 7"
| "failure_rank Ambiguity = 8"

lemma failure_rank_inject: "failure_rank a = failure_rank b \<longleftrightarrow> a = b"
  by (cases a; cases b) simp_all

instantiation failure_class :: linorder
begin

definition less_eq_failure_class :: "failure_class \<Rightarrow> failure_class \<Rightarrow> bool" where
  "less_eq_failure_class a b \<longleftrightarrow> failure_rank a \<le> failure_rank b"

definition less_failure_class :: "failure_class \<Rightarrow> failure_class \<Rightarrow> bool" where
  "less_failure_class a b \<longleftrightarrow> failure_rank a < failure_rank b"

instance
  by standard (auto simp: less_eq_failure_class_def less_failure_class_def simp flip: failure_rank_inject)

end

fun failure_owner_of :: "failure_class \<Rightarrow> failure_owner" where
  "failure_owner_of DeterministicInput = InputAuthor"
| "failure_owner_of ConductClass = ConductOwner"
| "failure_owner_of MutationClass = MutationAdapter"
| "failure_owner_of ProofClass = ProofSystem"
| "failure_owner_of InfrastructureTransient = Infrastructure"
| "failure_owner_of InfrastructurePermanent = Infrastructure"
| "failure_owner_of BudgetClass = BudgetAuthority"
| "failure_owner_of AuthorityClass = AuthorityHolder"
| "failure_owner_of Ambiguity = UnknownOwner"

definition intrinsically_retry_safe :: "failure_class \<Rightarrow> bool" where
  "intrinsically_retry_safe c =
     (case c of ConductClass \<Rightarrow> True | ProofClass \<Rightarrow> True | InfrastructureTransient \<Rightarrow> True | _ \<Rightarrow> False)"

record 'c classified_failure =
  cf_class :: failure_class
  cf_evidence :: "'c list"

definition unknown_failure :: "'c list \<Rightarrow> 'c classified_failure" where
  "unknown_failure evidence = \<lparr>cf_class = Ambiguity, cf_evidence = evidence\<rparr>"

section \<open>Retries\<close>

record retry_rule =
  rl_max_attempts :: "32 word"
  rl_backoff_millis :: "64 word list"

record recovery_policy =
  rp_retry :: "(failure_class, retry_rule) btmap"
  rp_max_child_attempts :: "32 word"
  rp_max_refinement_rank :: "32 word"

record ('s, 'c) retry_context =
  rx_attempt :: "'s attempt_id"
  rx_attempts_used :: "32 word"
  rx_unresolved_effect :: bool
  rx_identities_before :: "'c list"
  rx_identities_now :: "'c list"

record ('s, 'c) retry_receipt =
  rt_failed_attempt :: "'s attempt_id"
  rt_next_attempt_number :: "32 word"
  rt_backoff_millis :: "64 word"
  rt_unchanged_identities :: "'c list"
  rt_remaining_attempts :: "32 word"

datatype stop_reason = StopUnresolvedEffect | StopIdentitiesChanged | StopClassNotRetryable
  | StopClassNotNamed | StopAttemptsExhausted

datatype ('s, 'c) retry_decision = Retry "('s, 'c) retry_receipt" | Stop stop_reason

definition list_get :: "'a list \<Rightarrow> nat \<Rightarrow> 'a option" where
  "list_get xs i = (if i < length xs then Some (xs ! i) else None)"

definition admit_retry ::
  "recovery_policy \<Rightarrow> 'c classified_failure \<Rightarrow> ('s, 'c) retry_context \<Rightarrow> ('s, 'c) retry_decision" where
  "admit_retry policy failure context =
     (if rx_unresolved_effect context then Stop StopUnresolvedEffect
      else if rx_identities_before context \<noteq> rx_identities_now context then Stop StopIdentitiesChanged
      else if \<not> intrinsically_retry_safe (cf_class failure) then Stop StopClassNotRetryable
      else case bt_get (rp_retry policy) (cf_class failure) of
             None \<Rightarrow> Stop StopClassNotNamed
           | Some rule \<Rightarrow>
               if rl_max_attempts rule \<le> rx_attempts_used context then Stop StopAttemptsExhausted
               else let nxt = rx_attempts_used context + 1 in
                 Retry \<lparr>rt_failed_attempt = rx_attempt context, rt_next_attempt_number = nxt,
                   rt_backoff_millis =
                     (case list_get (rl_backoff_millis rule) (unat (rx_attempts_used context)) of
                        None \<Rightarrow> 0 | Some v \<Rightarrow> v),
                   rt_unchanged_identities = rx_identities_now context,
                   rt_remaining_attempts = rl_max_attempts rule - nxt\<rparr>)"

record 'c model_pick_record =
  mk_record_id :: 'c
  mk_primary :: 'c
  mk_compatible_fallbacks :: "'c list"

record ('s, 'c) child_attempt =
  ca_parent :: "'s attempt_id"
  ca_child :: "'s attempt_id"
  ca_candidate :: 'c
  ca_pick_record :: 'c
  ca_failed_evidence_retained :: "'c list"
  ca_remaining_children :: "32 word"

record ('s, 'c) model_fallback_attempt =
  ma_failed_candidate :: 'c
  ma_fallback :: 'c
  ma_parent :: "'s attempt_id"
  ma_child :: "'s attempt_id"
  ma_children_used :: "32 word"
  ma_failed_evidence :: "'c list"

definition admit_model_fallback ::
  "recovery_policy \<Rightarrow> 'c model_pick_record \<Rightarrow> ('s, 'c) model_fallback_attempt \<Rightarrow> ('s, 'c) child_attempt option" where
  "admit_model_fallback policy pick attempt =
     (if ma_failed_candidate attempt \<noteq> mk_primary pick
         \<or> rp_max_child_attempts policy \<le> ma_children_used attempt
         \<or> ma_fallback attempt \<notin> set (mk_compatible_fallbacks pick)
      then None
      else Some \<lparr>ca_parent = ma_parent attempt, ca_child = ma_child attempt, ca_candidate = ma_fallback attempt,
             ca_pick_record = mk_record_id pick, ca_failed_evidence_retained = ma_failed_evidence attempt,
             ca_remaining_children = rp_max_child_attempts policy - ma_children_used attempt - 1\<rparr>)"

section \<open>Escalation\<close>

record 'c escalation_card =
  ec_verified_state :: "string list"
  ec_safe_paths :: "string list"
  ec_evidence_ids :: "'c list"
  ec_missing :: string
  ec_permitted_next_actions :: "string list"

definition MAX_ROWS :: nat where "MAX_ROWS = 16"
definition MAX_TEXT :: nat where "MAX_TEXT = 256"

text \<open>\<open>haystack.contains(needle)\<close>.\<close>

definition contains_text :: "string \<Rightarrow> string \<Rightarrow> bool" where
  "contains_text needle hay = list_ex (\<lambda>s. take (length needle) s = needle) (suffixes hay)"

definition newline :: string where "newline = [CHR 0x0A]"

definition clean :: "string \<Rightarrow> string" where
  "clean value =
     (let text_bounded = take_chars MAX_TEXT value in
      if contains_text ''<packet'' text_bounded \<or> contains_text ''secret'' text_bounded
      then ''[redacted]'' else text_bounded)"

definition card_rows :: "string \<Rightarrow> string list \<Rightarrow> string \<Rightarrow> string" where
  "card_rows label values out = foldl (\<lambda>o' v. o' @ label @ clean v @ newline) out (take MAX_ROWS values)"

definition render_redacted :: "('c \<Rightarrow> string) \<Rightarrow> 'c escalation_card \<Rightarrow> string" where
  "render_redacted debug_id ec =
     (let out = ''CARD roadmap/recovery-escalation-v1'' @ newline;
          out = card_rows ''verified: '' (ec_verified_state ec) out;
          out = card_rows ''safe-path: '' (ec_safe_paths ec) out;
          out = foldl (\<lambda>o' i. o' @ ''evidence: '' @ debug_id i @ newline) out
                  (take MAX_ROWS (ec_evidence_ids ec));
          out = out @ ''missing: '' @ clean (ec_missing ec) @ newline
      in card_rows ''permitted: '' (ec_permitted_next_actions ec) out)"

section \<open>Projection cards\<close>

record execution_card =
  xc_key :: string
  xc_kind :: string
  xc_summary :: string
  xc_max_face_bytes :: nat

definition card_of :: "string \<Rightarrow> string \<Rightarrow> string \<Rightarrow> execution_card" where
  "card_of key kind summary =
     \<lparr>xc_key = key, xc_kind = kind, xc_summary = summary, xc_max_face_bytes = 1024\<rparr>"

definition EXECUTION_CARDS :: "execution_card list" where
  "EXECUTION_CARDS =
     [card_of ''roadmap.exec/summary-v1'' ''summary'' ''Execution state and next legal action.'',
      card_of ''roadmap.exec/phase-v1'' ''phase'' ''Selected phase and durable state.'',
      card_of ''roadmap.exec/budget-v1'' ''budget'' ''Effective limits with authority provenance.'',
      card_of ''roadmap.exec/effect-v1'' ''effect'' ''Requested effect and observed receipt.'',
      card_of ''roadmap.exec/mutation-v1'' ''mutation'' ''Per-path planned and observed image class.'',
      card_of ''roadmap.exec/proof-v1'' ''proof'' ''Proof result and redacted evidence reference.'',
      card_of ''roadmap.exec/discharge-v1'' ''discharge'' ''Promise discharge state.'',
      card_of ''roadmap.exec/reconciliation-v1'' ''reconciliation'' ''Ambiguity and reconciliation facts.'',
      card_of ''roadmap.exec/conduct-trace-v1'' ''conduct-trace'' ''Generic agent/topology trace identities.'',
      card_of ''roadmap.exec/escalation-v1'' ''escalation'' ''Bounded stop reason and safe actions.'']"

text \<open>\<open>execution_card\<close>: the lookup compares with the qualified text of the symbol.\<close>

definition execution_card_of :: "('s, 'c) kernel \<Rightarrow> 's \<Rightarrow> execution_card option" where
  "execution_card_of K kind = find (\<lambda>c. xc_kind c = sym_to_string K kind) EXECUTION_CARDS"

section \<open>Counters\<close>

lemma admit_retry_counters:
  assumes "admit_retry policy failure context = Retry r"
  obtains rule where "bt_get (rp_retry policy) (cf_class failure) = Some rule"
    "unat (rt_next_attempt_number r) = unat (rx_attempts_used context) + 1"
    "unat (rt_next_attempt_number r) + unat (rt_remaining_attempts r) = unat (rl_max_attempts rule)"
proof -
  from assms obtain rule where rule: "bt_get (rp_retry policy) (cf_class failure) = Some rule"
    and less: "rx_attempts_used context < rl_max_attempts rule"
    and r: "rt_next_attempt_number r = rx_attempts_used context + 1"
      "rt_remaining_attempts r = rl_max_attempts rule - (rx_attempts_used context + 1)"
    by (auto simp: admit_retry_def Let_def not_le split: if_splits option.splits)
  have lt: "unat (rx_attempts_used context) < unat (rl_max_attempts rule)" using less by (simp add: word_less_nat_alt)
  then have no_wrap: "unat (rx_attempts_used context) + 1 < 2 ^ 32"
    using unsigned_less [of "rl_max_attempts rule", where ?'a = nat] by simp
  then have nxt: "unat (rx_attempts_used context + 1) = unat (rx_attempts_used context) + 1"
    by (simp add: unat_word_ariths)
  have "rx_attempts_used context + 1 \<le> rl_max_attempts rule"
    using lt nxt by (simp add: word_le_nat_alt)
  then have "unat (rl_max_attempts rule - (rx_attempts_used context + 1)) =
      unat (rl_max_attempts rule) - unat (rx_attempts_used context + 1)"
    by (rule unat_sub)
  with that rule r nxt lt show ?thesis by simp
qed

lemma admit_model_fallback_counters:
  assumes "admit_model_fallback policy pick attempt = Some c"
  shows "unat (ca_remaining_children c) + unat (ma_children_used attempt) + 1 = unat (rp_max_child_attempts policy)"
proof -
  from assms have less: "ma_children_used attempt < rp_max_child_attempts policy"
    and c: "ca_remaining_children c = rp_max_child_attempts policy - ma_children_used attempt - 1"
    by (auto simp: admit_model_fallback_def split: if_splits)
  have lt: "unat (ma_children_used attempt) < unat (rp_max_child_attempts policy)"
    using less by (simp add: word_less_nat_alt)
  have d: "unat (rp_max_child_attempts policy - ma_children_used attempt) =
      unat (rp_max_child_attempts policy) - unat (ma_children_used attempt)"
    using less by (intro unat_sub) simp
  then have "1 \<le> rp_max_child_attempts policy - ma_children_used attempt"
    using lt by (simp add: word_le_nat_alt)
  from unat_sub [OF this] d lt c show ?thesis by simp
qed

section \<open>Bounds of the escalation text\<close>

lemma contains_text_iff: "contains_text n h \<longleftrightarrow> sublist n h"
proof -
  have "take (length n) s = n \<longleftrightarrow> prefix n s" for s
    by (metis append_take_drop_id prefixI prefixE append_eq_conv_conj)
  then show ?thesis by (auto simp: contains_text_def list_ex_iff sublist_altdef')
qed

lemma clean_cases:
  "clean v = ''[redacted]'' \<or> clean v = take_chars MAX_TEXT v \<and> \<not> sublist ''<packet'' (clean v) \<and> \<not> sublist ''secret'' (clean v)"
  by (auto simp: clean_def Let_def contains_text_iff)

lemma chars_len_append [simp]: "chars_len (a @ b) = chars_len a + chars_len b"
  by (simp add: chars_len_def)

lemma chars_len_le_length: "chars_len s \<le> length s"
  by (simp add: chars_len_def)

lemma chars_len_clean: "chars_len (clean v) \<le> MAX_TEXT"
proof (cases "clean v = ''[redacted]''")
  case True
  then show ?thesis using chars_len_le_length [of "''[redacted]''"] by (simp add: MAX_TEXT_def)
next
  case False
  then show ?thesis using clean_cases [of v] chars_len_take_chars [of MAX_TEXT v] by metis
qed

lemma clean_no_secret: "\<not> sublist ''secret'' (clean v)" "\<not> sublist ''<packet'' (clean v)"
proof -
  have "\<not> contains_text ''secret'' ''[redacted]''" "\<not> contains_text ''<packet'' ''[redacted]''" by code_simp+
  then show "\<not> sublist ''secret'' (clean v)" "\<not> sublist ''<packet'' (clean v)"
    using clean_cases [of v] unfolding contains_text_iff by metis+
qed

lemma foldl_append_concat: "foldl (\<lambda>o' v. o' @ f v) out vs = out @ concat (map f vs)"
  by (induction vs arbitrary: out) simp_all

lemma card_rows_concat:
  "card_rows label vs out = out @ concat (map (\<lambda>v. label @ clean v @ newline) (take MAX_ROWS vs))"
  by (simp add: card_rows_def foldl_append_concat [of "\<lambda>v. label @ clean v @ newline"])

end
