(* ===== verification/Exec_Theorems.thy ===== *)
theory Exec_Theorems
  imports Exec_Reduce Exec_Recovery Roadmap_Samples
begin

text \<open>
  The properties of \<open>sim-roadmap-exec-core\<close>. The sample run below takes one file from its
  preimage to its postimage and discharges one promise.
\<close>

type_synonym stransition = "(string list, byte list) transition"

definition sample_policy :: "(string list, byte list) execution_policy" where
  "sample_policy = \<lparr>ep_id = ExecutionPolicyId [''p''], ep_source_deck = [9],
     ep_required_promises = [''api''], ep_required_proofs = [[''tests'']]\<rparr>"

definition sample_plan :: "(string list, byte list) mutation_plan" where
  "sample_plan = \<lparr>mp_id = MutationId [''m''], mp_preimages = [FileImage ''src/lib.rs'' (Some [1])],
     mp_postimages = [FileImage ''src/lib.rs'' (Some [2])]\<rparr>"

definition sample_discharge :: "(string list, byte list) promise_discharge" where
  "sample_discharge = \<lparr>pd_promise = ''api'', pd_status = [''proven''], pd_evidence = Some [5]\<rparr>"

definition sample_event :: "(string list, byte list) observation \<Rightarrow> (string list, byte list) execution_event" where
  "sample_event ob = event_of (ExecutionId [''x'']) ''phase'' (AttemptId [''a'']) ob"

definition sample_run :: "(string list, byte list) execution_event list" where
  "sample_run = map sample_event
     [obs sample_kernel ''start'' [1],
      (obs sample_kernel ''image-observed'' [2])\<lparr>ob_image := Some (FileImage ''src/lib.rs'' (Some [2]))\<rparr>,
      obs sample_kernel ''mutation-committed'' [3],
      (obs sample_kernel ''promise-discharged'' [4])\<lparr>ob_discharge := Some sample_discharge\<rparr>,
      (obs sample_kernel ''source-deck-current'' [5])\<lparr>ob_source_deck := Some [9]\<rparr>,
      obs sample_kernel ''parent-accepted'' [6],
      obs sample_kernel ''succeed'' [7]]"

definition sample_replay ::
  "(string list, byte list) execution_event list \<Rightarrow> (string list execution_failure, stransition) outcome" where
  "sample_replay es =
     replay sample_kernel sample_policy sample_plan (ExecutionId [''x'']) ''phase'' (AttemptId [''a''])
       (planned [0]) es"

lemma sample_run_succeeds: "\<exists>s. sample_replay sample_run = Ok s \<and> tn_state s = Succeeded"
  by (rule Ok_cases_intro) code_simp

lemma sample_run_start: "\<exists>s. sample_replay (take 3 sample_run) = Ok s \<and> tn_state s = Reconciling"
  by (rule Ok_cases_intro) code_simp

text \<open>
  C9: The reducer implements the abstract phase machine: every accepted event is one step of the
  machine over sets of images, maps of discharges and sets of unresolved proofs, and keeps the
  lists canonical: committed images and unresolved proofs strictly sorted, one discharge per
  promise, a receipt exactly in the state \<open>Succeeded\<close>.
\<close>
theorem reduce_refines:
  assumes "exec_inv K policy plan x p s" "reduce K policy plan x p a s e = Ok s'"
  shows "machine_step K policy plan (machine_of s) (machine_of s') \<and> exec_inv K policy plan x p s'"
  using reduce_step [OF assms] by simp

theorem reduce_refines_witness:
  "\<exists>s. reduce sample_kernel sample_policy sample_plan (ExecutionId [''x'']) ''phase'' (AttemptId [''a''])
         (planned [0]) (sample_event (obs sample_kernel ''start'' [1])) = Ok s
     \<and> machine_step sample_kernel sample_policy sample_plan (machine_of (planned [0])) (machine_of s)"
proof -
  have "\<exists>s. reduce sample_kernel sample_policy sample_plan (ExecutionId [''x'']) ''phase'' (AttemptId [''a''])
         (planned [0]) (sample_event (obs sample_kernel ''start'' [1])) = Ok s \<and> True"
    by (rule Ok_cases_intro) code_simp
  then show ?thesis using reduce_refines [OF planned_inv] by blast
qed

text \<open>
  C12: The reducer is complete for the machine: from a transition that satisfies the invariant,
  every step of the abstract machine is taken by some event at any journal head other than the
  current one, when the plan's postimages are in canonical order.
\<close>
theorem reduce_simulates_machine:
  assumes "sym_prints K" "exec_inv K policy plan x p s" "sorted_wrt (<) (mp_postimages plan)"
    "h \<noteq> tn_journal_head s" "machine_step K policy plan (machine_of s) m'"
  shows "\<exists>e s'. reduce K policy plan x p a s e = Ok s' \<and> machine_of s' = m' \<and> tn_journal_head s' = h"
  by (rule reduce_complete [OF assms])

theorem reduce_simulates_machine_witness:
  "\<exists>e s'. reduce sample_kernel sample_policy sample_plan (ExecutionId [''x'']) ''phase'' (AttemptId [''a''])
         (planned [0]) e = Ok s' \<and> tn_state s' = Cancelled \<and> tn_journal_head s' = [1]"
proof -
  have step: "machine_step sample_kernel sample_policy sample_plan (machine_of (planned [0]))
      ((machine_of (planned [0]))\<lparr>m_state := Cancelled\<rparr>)"
    by (rule ms_cancel) (simp add: machine_of_def planned_def)
  have "sorted_wrt (<) (mp_postimages sample_plan)" by (simp add: sample_plan_def)
  from reduce_simulates_machine [OF sample_naming(2) planned_inv this _ step, where h = "[1]"
      and x = "ExecutionId [''x'']" and p = "''phase''" and a = "AttemptId [''a'']"]
  show ?thesis by (auto simp: machine_of_def planned_def)
qed

text \<open>
  C10: Success is earned. Whatever events are replayed from a planned phase, a phase that has
  succeeded carries a receipt for this execution and phase at the current journal head, the
  committed images are exactly the plan's postimages, the source deck last observed as current is
  the policy's and is the one the receipt names, every required promise has a proven discharge with evidence, the parent's acceptance was retained and
  no mandatory proof is unresolved; in no other state is there a receipt.
\<close>
theorem success_is_earned:
  assumes "replay K policy plan x p a (planned h) es = Ok s"
  shows "(tn_state s = Succeeded \<longrightarrow> (\<exists>r. tn_receipt s = Some r \<and> receipt_ok K policy plan x p s r))
     \<and> (tn_state s \<noteq> Succeeded \<longrightarrow> tn_receipt s = None)"
  using replay_inv [OF planned_inv assms] by (auto simp: exec_inv_def)

theorem success_is_earned_witness:
  "\<exists>s r. sample_replay sample_run = Ok s \<and> tn_receipt s = Some r
     \<and> receipt_ok sample_kernel sample_policy sample_plan (ExecutionId [''x'']) ''phase'' s r"
proof -
  from sample_run_succeeds obtain s where "sample_replay sample_run = Ok s" "tn_state s = Succeeded" by blast
  with success_is_earned show ?thesis unfolding sample_replay_def by blast
qed

text \<open>
  C11: Success can be reached: for every policy and every plan in canonical order there is a
  sequence of events whose replay from the planned phase ends in \<open>Succeeded\<close>. The kernel needs to
  print symbols as their names and to have more than one journal head.
\<close>
theorem success_reachable:
  fixes K :: "('s::linorder, 'c::linorder) kernel"
  assumes "sym_prints K" "sorted_wrt (<) (mp_postimages plan)" "\<And>g :: 'c. \<exists>g'. g' \<noteq> g"
  shows "\<exists>es s. replay K policy plan x p a (planned h) es = Ok s \<and> tn_state s = Succeeded"
proof -
  have "m_state (machine_of (planned h :: ('s, 'c) transition)) = Planned"
    "m_committed (machine_of (planned h :: ('s, 'c) transition)) = {}"
    "m_unresolved (machine_of (planned h :: ('s, 'c) transition)) = {}"
    by (simp_all add: machine_of_def planned_def)
  from machine_can_succeed [OF this] obtain m' where
    m': "(machine_step K policy plan)\<^sup>*\<^sup>* (machine_of (planned h)) m'" "m_state m' = Succeeded" by blast
  from replay_follows [OF m'(1) refl planned_inv assms] m'(2) show ?thesis by (fastforce simp: machine_of_def)
qed

theorem success_reachable_witness:
  "\<exists>es s. sample_replay es = Ok s \<and> tn_state s = Succeeded"
proof -
  have "\<exists>g'. g' \<noteq> g" for g :: "byte list" by (rule exI [of _ "0 # g"]) simp
  moreover have "sorted_wrt (<) (mp_postimages sample_plan)" by (simp add: sample_plan_def)
  ultimately show ?thesis
    unfolding sample_replay_def using success_reachable [OF sample_naming(2)] by blast
qed

text \<open>
  The reducer is total and rejections are values: it never panics and never diverges, a phase
  that has ended rejects every event, and a replay is determined event by event, so that a prefix
  of a journal can be replayed first and the rest later with the same result.
\<close>
theorem replay_total_and_incremental:
  "replay K policy plan x p a s es \<noteq> Panic \<and> replay K policy plan x p a s es \<noteq> Diverge
   \<and> (tn_state s \<in> {Succeeded, Failed, Cancelled} \<longrightarrow> (\<exists>err. reduce K policy plan x p a s e = Err err))
   \<and> replay K policy plan x p a s (es @ fs) =
       bind_o (replay K policy plan x p a s es) (\<lambda>t. replay K policy plan x p a t fs)"
  using terminal_rejects [of s] by (simp add: replay_total replay_append)

theorem replay_total_and_incremental_witness:
  "tn_state ((planned [0])\<lparr>tn_state := Failed\<rparr> :: stransition) \<in> {Succeeded, Failed, Cancelled}
     \<and> (\<exists>err. reduce sample_kernel sample_policy sample_plan (ExecutionId [''x'']) ''phase'' (AttemptId [''a''])
           ((planned [0])\<lparr>tn_state := Failed\<rparr>) (sample_event (obs sample_kernel ''start'' [1])) = Err err)"
  using replay_total_and_incremental [of sample_kernel sample_policy sample_plan "ExecutionId [''x'']" "''phase''"
      "AttemptId [''a'']" "(planned [0])\<lparr>tn_state := Failed\<rparr>" "[]" "sample_event (obs sample_kernel ''start'' [1])"]
  by simp

lemma mandatory_kept:
  assumes "\<exists>u \<in> set (tn_unresolved s). up_mandatory u" "reduce K policy plan x p a s e = Ok s'"
  shows "(\<exists>u \<in> set (tn_unresolved s'). up_mandatory u) \<and> tn_state s' \<noteq> Succeeded"
  using assms(2)
proof (cases rule: reduce_cases)
  case (observed img)
  then show ?thesis using assms(1) by (auto simp: observe_image_Ok)
next
  case succeeded
  then show ?thesis using assms(1) by (auto simp: succeed_def list_ex_iff split: if_splits)
qed (use assms(1) in \<open>auto simp: request_def\<close>)

text \<open>
  C13: An unresolved mandatory proof is final. Once one is recorded no later event clears it, so no
  replay from that transition ends in \<open>Succeeded\<close>; and the policy's list of required proofs has
  no influence on the reducer at all: the outcome is the same for every such list.
\<close>
theorem mandatory_unresolved_is_final:
  "(\<forall>es s'. (\<exists>u \<in> set (tn_unresolved s). up_mandatory u) \<and> tn_state s \<noteq> Succeeded
      \<and> replay K policy plan x p a s es = Ok s' \<longrightarrow> tn_state s' \<noteq> Succeeded)
   \<and> reduce K (policy\<lparr>ep_required_proofs := proofs\<rparr>) plan x p a s e = reduce K policy plan x p a s e"
proof (intro conjI allI impI)
  fix es s'
  assume "(\<exists>u \<in> set (tn_unresolved s). up_mandatory u) \<and> tn_state s \<noteq> Succeeded
      \<and> replay K policy plan x p a s es = Ok s'"
  then have "(\<exists>u \<in> set (tn_unresolved s'). up_mandatory u) \<and> tn_state s' \<noteq> Succeeded"
    unfolding replay_def
    by (elim conjE, intro try_fold_invariant [where I = "\<lambda>s. (\<exists>u \<in> set (tn_unresolved s). up_mandatory u)
        \<and> tn_state s \<noteq> Succeeded" and xs = es and s = s and s' = s']) (use mandatory_kept in blast)+
  then show "tn_state s' \<noteq> Succeeded" by simp
next
  have "succeed K (policy\<lparr>ep_required_proofs := proofs\<rparr>) plan x p t = succeed K policy plan x p t" for t
    by (auto simp: succeed_def list_ex_iff)
  then show "reduce K (policy\<lparr>ep_required_proofs := proofs\<rparr>) plan x p a s e = reduce K policy plan x p a s e"
    by (simp add: reduce_def Let_def cong: if_cong)
qed

theorem mandatory_unresolved_is_final_witness:
  "\<exists>s :: stransition. tn_state s = Reconciling \<and> (\<forall>es s'.
     replay sample_kernel sample_policy sample_plan (ExecutionId [''x'']) ''phase'' (AttemptId [''a'']) s es = Ok s'
       \<longrightarrow> tn_state s' \<noteq> Succeeded)"
proof -
  let ?s = "(planned [0])\<lparr>tn_state := Reconciling, tn_unresolved := [UnresolvedProof [''tests''] True [''r'']]\<rparr> :: stransition"
  show ?thesis
    using mandatory_unresolved_is_final [of ?s sample_kernel sample_policy sample_plan "ExecutionId [''x'']"
        "''phase''" "AttemptId [''a'']"]
    by (intro exI [of _ ?s]) (simp add: planned_def)
qed

text \<open>
  C14: A constructed mutation plan is canonical: each path occurs once on each side, in order, and
  is a relative path of nonempty components other than dot and dot-dot; no image is lost or added;
  construction fails exactly when a path repeats on a side or is invalid. Every image of a plan is
  classified by where it occurs.
\<close>
theorem mutation_plan_canonical:
  "(mutation_plan_new i pre post = Ok plan \<longrightarrow>
      mp_id plan = i \<and> canonical_images (mp_preimages plan) \<and> canonical_images (mp_postimages plan)
      \<and> set (mp_preimages plan) = set pre \<and> set (mp_postimages plan) = set post)
   \<and> ((\<exists>plan. mutation_plan_new i pre post = Ok plan) \<longleftrightarrow>
        (\<forall>images \<in> {pre, post}. distinct (map fi_path images) \<and> (\<forall>im \<in> set images. valid_path (fi_path im))))
   \<and> (classify plan im = PreAndPost \<longleftrightarrow> im \<in> set (mp_preimages plan) \<and> im \<in> set (mp_postimages plan))
   \<and> (classify plan im = Foreign \<longleftrightarrow> im \<notin> set (mp_preimages plan) \<and> im \<notin> set (mp_postimages plan))"
  by (auto simp: mutation_plan_new_def bind_o_Ok check_images_Ok classify_cases
      intro: check_images_canonical(1) [of pre] check_images_canonical(1) [of post])

theorem mutation_plan_canonical_witness:
  "\<exists>plan. mutation_plan_new (MutationId [''m'']) [FileImage ''b'' None, FileImage ''a'' (Some [1 :: byte])] []
       = Ok plan \<and> canonical_images (mp_preimages plan)"
proof -
  have "\<exists>plan. mutation_plan_new (MutationId [''m'']) [FileImage ''b'' None, FileImage ''a'' (Some [1 :: byte])] []
       = Ok plan \<and> True"
    by (rule Ok_cases_intro) code_simp
  then show ?thesis using mutation_plan_canonical by blast
qed

text \<open>
  C15: Recovery is bounded. A retry is admitted only with effects resolved, identities unchanged,
  an intrinsically safe class that the policy names and attempts left; its number is one more than
  the attempts used and, with the remaining attempts, adds up to the policy's limit, so neither
  32-bit counter wraps. A model fallback is admitted only for the sealed record's primary, to one
  of its compatible candidates, and its remaining count is exact in the same way.
\<close>
theorem recovery_bounded:
  "(admit_retry policy failure context = Retry r \<longrightarrow>
      \<not> rx_unresolved_effect context \<and> rx_identities_before context = rx_identities_now context
      \<and> rt_unchanged_identities r = rx_identities_now context
      \<and> cf_class failure \<in> {ConductClass, ProofClass, InfrastructureTransient}
      \<and> (\<exists>rule. bt_get (rp_retry policy) (cf_class failure) = Some rule
          \<and> unat (rt_next_attempt_number r) = unat (rx_attempts_used context) + 1
          \<and> unat (rt_next_attempt_number r) + unat (rt_remaining_attempts r) = unat (rl_max_attempts rule)))
   \<and> (admit_model_fallback policy pick attempt = Some c \<longrightarrow>
      ma_failed_candidate attempt = mk_primary pick \<and> ca_candidate c \<in> set (mk_compatible_fallbacks pick)
      \<and> ca_failed_evidence_retained c = ma_failed_evidence attempt
      \<and> unat (ca_remaining_children c) + unat (ma_children_used attempt) + 1 = unat (rp_max_child_attempts policy))"
proof (intro conjI impI)
  assume retry: "admit_retry policy failure context = Retry r"
  then show "\<not> rx_unresolved_effect context" "rx_identities_before context = rx_identities_now context"
    "rt_unchanged_identities r = rx_identities_now context"
    "cf_class failure \<in> {ConductClass, ProofClass, InfrastructureTransient}"
    by (auto simp: admit_retry_def intrinsically_retry_safe_def Let_def
        split: if_splits option.splits failure_class.splits)
  from admit_retry_counters [OF retry] show "\<exists>rule. bt_get (rp_retry policy) (cf_class failure) = Some rule
          \<and> unat (rt_next_attempt_number r) = unat (rx_attempts_used context) + 1
          \<and> unat (rt_next_attempt_number r) + unat (rt_remaining_attempts r) = unat (rl_max_attempts rule)"
    by metis
next
  assume fallback: "admit_model_fallback policy pick attempt = Some c"
  then show "ma_failed_candidate attempt = mk_primary pick" "ca_candidate c \<in> set (mk_compatible_fallbacks pick)"
    "ca_failed_evidence_retained c = ma_failed_evidence attempt"
    by (auto simp: admit_model_fallback_def split: if_splits)
  show "unat (ca_remaining_children c) + unat (ma_children_used attempt) + 1 = unat (rp_max_child_attempts policy)"
    by (rule admit_model_fallback_counters [OF fallback])
qed

definition sample_recovery :: recovery_policy where
  "sample_recovery = \<lparr>rp_retry = bt_of_list [(ProofClass, \<lparr>rl_max_attempts = 3, rl_backoff_millis = [10, 20]\<rparr>)],
     rp_max_child_attempts = 2, rp_max_refinement_rank = 1\<rparr>"

theorem recovery_bounded_witness:
  "\<exists>r. admit_retry sample_recovery \<lparr>cf_class = ProofClass, cf_evidence = [[1 :: byte]]\<rparr>
       \<lparr>rx_attempt = AttemptId [''a''], rx_attempts_used = 1, rx_unresolved_effect = False,
        rx_identities_before = [[2]], rx_identities_now = [[2]]\<rparr> = Retry r
     \<and> unat (rt_next_attempt_number r) = 2 \<and> rt_backoff_millis r = 20"
proof -
  let ?f = "\<lparr>cf_class = ProofClass, cf_evidence = [[1 :: byte]]\<rparr>"
  let ?x = "\<lparr>rx_attempt = AttemptId [''a''], rx_attempts_used = 1, rx_unresolved_effect = False,
        rx_identities_before = [[2]], rx_identities_now = [[2 :: byte]]\<rparr>"
  have "case admit_retry sample_recovery ?f ?x of Retry r \<Rightarrow> rt_backoff_millis r = 20 | _ \<Rightarrow> False" by code_simp
  then obtain r where r: "admit_retry sample_recovery ?f ?x = Retry r" "rt_backoff_millis r = 20"
    by (auto split: retry_decision.splits)
  then have "unat (rt_next_attempt_number r) = 2"
    using recovery_bounded [of sample_recovery ?f ?x r] by (auto simp: numeral_2_eq_2)
  with r show ?thesis by blast
qed

text \<open>
  The escalation text is bounded and redacted: every row shown has at most 256 characters of
  its value, contains neither of the forbidden words, at most 16 values of each list are shown, and
  the text is exactly the rows in their order.
\<close>
theorem escalation_bounded_and_redacted:
  "chars_len (clean v) \<le> 256 \<and> \<not> sublist ''secret'' (clean v) \<and> \<not> sublist ''<packet'' (clean v)
   \<and> render_redacted dbg ec =
       ''CARD roadmap/recovery-escalation-v1'' @ newline
       @ concat (map (\<lambda>s. ''verified: '' @ clean s @ newline) (take 16 (ec_verified_state ec)))
       @ concat (map (\<lambda>s. ''safe-path: '' @ clean s @ newline) (take 16 (ec_safe_paths ec)))
       @ concat (map (\<lambda>i. ''evidence: '' @ dbg i @ newline) (take 16 (ec_evidence_ids ec)))
       @ ''missing: '' @ clean (ec_missing ec) @ newline
       @ concat (map (\<lambda>s. ''permitted: '' @ clean s @ newline) (take 16 (ec_permitted_next_actions ec)))"
proof (intro conjI)
  show "chars_len (clean v) \<le> 256" using chars_len_clean [of v] by (simp add: MAX_TEXT_def)
  show "\<not> sublist ''secret'' (clean v)" "\<not> sublist ''<packet'' (clean v)" by (rule clean_no_secret)+
qed (simp only: render_redacted_def Let_def card_rows_concat MAX_ROWS_def append_assoc
    foldl_append_concat [of "\<lambda>i. ''evidence: '' @ dbg i @ newline"])

text \<open>
  Typed ids and lifecycle states survive their field codec: decoding what encoding produced
  gives the value back, for a codec of symbols that does so itself and a kernel that prints names.
\<close>
theorem exec_field_roundtrip:
  assumes "symbol_codec_ok C" "sym_prints K" "sym_qualified_prints K" "exec_id_new K label v = Ok i"
  shows "exec_id_decode K C label (exec_id_encode C i) field = Ok i
     \<and> run_state_decode K C (run_state_encode K C st) field = Ok st"
proof
  from assms(4) have i: "i = sym_qualified K ''roadmap-exec'' v" by (auto simp: exec_id_new_def split: if_splits)
  have "sym_to_string K i = ''roadmap-exec/'' @ v"
    using assms(3) by (simp add: i sym_qualified_prints_def)
  then have "strip_prefix ''roadmap-exec/'' (sym_to_string K i) = Some v" by (metis strip_prefix_append)
  with assms(1,4) show "exec_id_decode K C label (exec_id_encode C i) field = Ok i"
    by (simp add: exec_id_decode_def exec_id_encode_def symbol_codec_ok_def)
  show "run_state_decode K C (run_state_encode K C st) field = Ok st"
    using assms(1,2)
    by (cases st) (simp_all add: run_state_decode_def run_state_encode_def run_state_name_def
        symbol_codec_ok_def sym_prints_def)
qed

theorem exec_field_roundtrip_witness:
  "\<exists>i. exec_id_new sample_kernel ''execution id'' ''x'' = Ok i
     \<and> exec_id_decode sample_kernel \<lparr>sc_encode = (\<lambda>s. s), sc_decode = (\<lambda>s _. Ok s)\<rparr> ''execution id'' i ''f'' = Ok i"
proof -
  have codec: "symbol_codec_ok \<lparr>sc_encode = (\<lambda>s. s), sc_decode = (\<lambda>s _. Ok s)\<rparr>" by (simp add: symbol_codec_ok_def)
  have "\<exists>i. exec_id_new sample_kernel ''execution id'' ''x'' = Ok i \<and> True" by (rule Ok_cases_intro) code_simp
  with exec_field_roundtrip [OF codec sample_naming(2,3)] show ?thesis by (auto simp: exec_id_encode_def)
qed

end
