(* ===== verification/Deck_Build.thy ===== *)
theory Deck_Build
  imports Deck_Types
begin

text \<open>
  \<open>sim-source-deck\<close>: \<open>build.rs\<close>, \<open>canonical.rs\<close> and the operations of \<open>types.rs\<close>. \<open>build\<close> is cut
  into its loops, in the order of the source. The \<open>Debug\<close> texts that enter the canonical rows are
  parameters (\<open>deck_debug\<close>).
\<close>

section \<open>Helpers\<close>

definition required :: "string \<Rightarrow> (deck_failure, unit) outcome" where
  "required value = (if value = [] then Err (Stale ''empty identity field'') else Ok ())"

definition deck_valid_path :: "string \<Rightarrow> (deck_failure, unit) outcome" where
  "deck_valid_path path =
     (if path = [] \<or> take 1 path = ''/''
         \<or> list_ex (\<lambda>p. p = [] \<or> p = ''.'' \<or> p = ''..'') (split_on (CHR ''/'') path)
         \<or> CHR 0x5C \<in> set path
      then Err (InvalidPath path) else Ok ())"

definition check_count :: "string \<Rightarrow> nat \<Rightarrow> nat \<Rightarrow> (deck_failure, unit) outcome" where
  "check_count name actual maximum =
     (if maximum < actual then Err (DeckOverLimit name actual maximum) else Ok ())"

definition require_owner :: "string fset \<Rightarrow> string \<Rightarrow> string \<Rightarrow> (deck_failure, unit) outcome" where
  "require_owner owners owner subject = (if owner |\<in>| owners then Ok () else Err (OwnerMismatch subject))"

definition deck_unique :: "string list \<Rightarrow> string \<Rightarrow> (deck_failure, unit) outcome" where
  "deck_unique ids kind =
     bind_o (try_fold (\<lambda>seen i. if i |\<in>| seen then Err (DeckDuplicate kind i) else Ok (finsert i seen)) {||} ids)
       (\<lambda>_. Ok ())"

definition deck_content_id :: "('s, 'c) kernel \<Rightarrow> 's datum \<Rightarrow> (deck_failure, 'c) outcome" where
  "deck_content_id K d = map_err DeckCanonical (datum_content_id K d)"

definition byte_content_id_of :: "('s, 'c) kernel \<Rightarrow> byte list \<Rightarrow> (deck_failure, 'c byte_content_id) outcome" where
  "byte_content_id_of K bytes =
     bind_o (deck_content_id K
       (DNode (sym_qualified K ''source-deck'' ''bytes-v1'') [(sym_new K ''bytes'', DBytes bytes)]))
       (\<lambda>c. Ok (ByteContentId c))"

definition verify_content ::
  "('s, 'c) kernel \<Rightarrow> string \<Rightarrow> byte list \<Rightarrow> 'c byte_content_id \<Rightarrow> (deck_failure, unit) outcome" where
  "verify_content K subject bytes expected =
     bind_o (byte_content_id_of K bytes) (\<lambda>i. if i = expected then Ok () else Err (ContentMismatch subject))"

definition cid_text :: "('s, 'c) kernel \<Rightarrow> 'c \<Rightarrow> string" where
  "cid_text K i = sym_to_string K (cid_algorithm K i) @ '':'' @ hex_bytes (cid_bytes K i)"

definition text_field :: "('s, 'c) kernel \<Rightarrow> string \<Rightarrow> string \<Rightarrow> 's \<times> 's datum" where
  "text_field K name value = (sym_new K name, DString value)"

definition cid_field :: "('s, 'c) kernel \<Rightarrow> string \<Rightarrow> 'c \<Rightarrow> 's \<times> 's datum" where
  "cid_field K name i = (sym_new K name, DString (cid_text K i))"

definition expected_digest ::
  "('s, 'c) kernel \<Rightarrow> 'c claim_certificate \<Rightarrow> (deck_failure, 'c byte_content_id) outcome" where
  "expected_digest K cert =
     bind_o (deck_content_id K (DNode (sym_qualified K ''source-deck'' ''claim-certificate-v1'')
        [text_field K ''anchor'' (cc_anchor cert), text_field K ''owner'' (cc_owner cert),
         cid_field K ''fragment'' (bcid (cc_fragment_id cert))]))
       (\<lambda>c. Ok (ByteContentId c))"

record 'c deck_debug =
  dd_evidence :: "'c grounded_evidence \<Rightarrow> string"
  dd_limitation :: "limitation \<Rightarrow> string"

definition canonical_rows ::
  "('s, 'c) kernel \<Rightarrow> 'c deck_debug \<Rightarrow> repository_snapshot list \<Rightarrow> 'c fragment_pin list \<Rightarrow> 'c source_file list
     \<Rightarrow> 'c grounded_evidence list \<Rightarrow> limitation list \<Rightarrow> (string \<times> string) list" where
  "canonical_rows K D repos fragments files evidence limitations =
     map (\<lambda>v. (''repo:'' @ rs_owner v, rs_repository v @ '':'' @ rs_revision v)) repos
     @ map (\<lambda>v. (''fragment:'' @ fp_owner v, cid_text K (bcid (fp_content_id v)))) fragments
     @ map (\<lambda>v. (''file:'' @ sf_owner v @ '':'' @ sf_path v, cid_text K (bcid (sf_content_id v)))) files
     @ map (\<lambda>v. (''evidence:'' @ dd_evidence D v, dd_evidence D v)) evidence
     @ map (\<lambda>v. (''limitation:'' @ dd_limitation D v, dd_limitation D v)) limitations"

definition deck_canonical ::
  "('s, 'c) kernel \<Rightarrow> 'c deck_debug \<Rightarrow> repository_snapshot list \<Rightarrow> 'c fragment_pin list \<Rightarrow> 'c source_file list
     \<Rightarrow> 'c grounded_evidence list \<Rightarrow> limitation list \<Rightarrow> 's datum" where
  "deck_canonical K D repos fragments files evidence limitations =
     DNode (sym_qualified K ''source-deck'' ''deck-v1'')
       [(sym_new K ''entries'',
         DMap (map (\<lambda>(k, v). (DString k, DString v))
           (sort (canonical_rows K D repos fragments files evidence limitations))))]"

section \<open>Building a deck\<close>

definition deck_counts :: "'c deck_input \<Rightarrow> (deck_failure, unit) outcome" where
  "deck_counts inp =
     (let l = di_limits inp in
      bind_o (check_count ''repositories'' (length (di_repositories inp)) (dl_repositories l)) (\<lambda>_.
      bind_o (check_count ''fragments'' (length (di_fragments inp)) (dl_fragments l)) (\<lambda>_.
      bind_o (check_count ''files'' (length (di_files inp)) (dl_files l)) (\<lambda>_.
      bind_o (check_count ''excerpts'' (length (di_excerpts inp)) (dl_excerpts l)) (\<lambda>_.
      bind_o (check_count ''specimens'' (length (di_specimens inp)) (dl_specimens l)) (\<lambda>_.
      bind_o (check_count ''queries'' (length (di_queries inp)) (dl_queries l)) (\<lambda>_.
      let total_bytes = sum_list (map (\<lambda>v. length (fp_bytes v)) (di_fragments inp)
            @ map (\<lambda>v. length (sf_bytes v)) (di_files inp)
            @ map (\<lambda>v. length (sp_bytes v)) (di_specimens inp)) in
      check_count ''total-bytes'' total_bytes (dl_total_bytes l))))))))"

definition repository_owners :: "'c deck_input \<Rightarrow> string fset" where
  "repository_owners inp = fset_of_list (map rs_owner (di_repositories inp))"

definition check_repository :: "repository_snapshot \<Rightarrow> (deck_failure, unit) outcome" where
  "check_repository repo =
     bind_o (required (rs_owner repo)) (\<lambda>_.
     bind_o (required (rs_repository repo)) (\<lambda>_. required (rs_revision repo)))"

definition decode_fragment ::
  "('s, 'c) kernel \<Rightarrow> 'c deck_input \<Rightarrow> ('c fragment_pin \<times> index_fragment) list \<Rightarrow> 'c fragment_pin
     \<Rightarrow> (deck_failure, ('c fragment_pin \<times> index_fragment) list) outcome" where
  "decode_fragment K inp decoded pin =
     bind_o (require_owner (repository_owners inp) (fp_owner pin) ''fragment'') (\<lambda>_.
     bind_o (verify_content K ''fragment'' (fp_bytes pin) (fp_content_id pin)) (\<lambda>_.
     bind_o (di_decode inp (fp_bytes pin)) (\<lambda>fragment.
     if if_owner fragment \<noteq> fp_owner pin then Err (OwnerMismatch (fp_owner pin))
     else Ok (decoded @ [(pin, fragment)]))))"

text \<open>\<open>map.entry(key).or_default().push(row)\<close>.\<close>

definition push_row :: "'k::linorder \<Rightarrow> 'v \<Rightarrow> ('k, 'v list) btmap \<Rightarrow> ('k, 'v list) btmap" where
  "push_row k v m = bt_insert k ((case bt_get m k of None \<Rightarrow> [] | Some vs \<Rightarrow> vs) @ [v]) m"

type_synonym 'c anchor_rows = "(string, ('c fragment_pin \<times> index_anchor) list) btmap"
type_synonym specimen_rows = "(string, index_specimen list) btmap"

definition index_anchor_row ::
  "'c fragment_pin \<Rightarrow> index_fragment \<Rightarrow> 'c anchor_rows \<Rightarrow> index_anchor \<Rightarrow> (deck_failure, 'c anchor_rows) outcome" where
  "index_anchor_row pin fragment anchors anchor =
     (if ia_owner anchor \<noteq> if_owner fragment then Err (OwnerMismatch (ia_id anchor))
      else bind_o (case ia_source_path anchor of None \<Rightarrow> Ok () | Some path \<Rightarrow> deck_valid_path path) (\<lambda>_.
        Ok (push_row (ia_id anchor) (pin, anchor) anchors)))"

definition index_specimen_row ::
  "index_fragment \<Rightarrow> specimen_rows \<Rightarrow> index_specimen \<Rightarrow> (deck_failure, specimen_rows) outcome" where
  "index_specimen_row fragment specimens specimen =
     (if is_owner specimen \<noteq> if_owner fragment then Err (OwnerMismatch (is_id specimen))
      else Ok (push_row (is_id specimen) specimen specimens))"

definition index_decoded ::
  "'c anchor_rows \<times> specimen_rows \<Rightarrow> 'c fragment_pin \<times> index_fragment
     \<Rightarrow> (deck_failure, 'c anchor_rows \<times> specimen_rows) outcome" where
  "index_decoded maps row =
     bind_o (try_fold (index_anchor_row (fst row) (snd row)) (fst maps) (if_anchors (snd row))) (\<lambda>anchors.
     bind_o (try_fold (index_specimen_row (snd row)) (snd maps) (if_specimens (snd row))) (\<lambda>specimens.
     Ok (anchors, specimens)))"

definition check_claim ::
  "('s, 'c) kernel \<Rightarrow> 'c deck_input \<Rightarrow> string \<times> ('c fragment_pin \<times> index_anchor) list
     \<Rightarrow> (deck_failure, unit) outcome" where
  "check_claim K inp entry =
     (let i = fst entry; rows = snd entry in
      if 1 < length rows then Err (MultiplyClaimed i)
      else let certs = filter (\<lambda>v. cc_anchor v = i) (di_certificates inp) in
      if certs = [] then Err (Unclaimed i)
      else if length certs \<noteq> 1 then Err (MultiplyClaimed i)
      else bind_o (expect (case rows of [] \<Rightarrow> None | row # _ \<Rightarrow> Some row)) (\<lambda>(pin, anchor).
      let cert = hd certs in
      if cc_owner cert \<noteq> ia_owner anchor \<or> cc_fragment_id cert \<noteq> fp_content_id pin then Err (Substituted i)
      else bind_o (expected_digest K cert) (\<lambda>digest.
      if cc_digest cert \<noteq> digest then Err (CertificateDigestMismatch i) else Ok ())))"

type_synonym 'c file_rows = "(string \<times> string, 'c source_file) btmap"

definition add_file ::
  "('s, 'c) kernel \<Rightarrow> 'c deck_input \<Rightarrow> 'c file_rows \<Rightarrow> 'c source_file \<Rightarrow> (deck_failure, 'c file_rows) outcome" where
  "add_file K inp files file =
     bind_o (require_owner (repository_owners inp) (sf_owner file) (sf_path file)) (\<lambda>_.
     bind_o (deck_valid_path (sf_path file)) (\<lambda>_.
     bind_o (verify_content K (sf_path file) (sf_bytes file) (sf_content_id file)) (\<lambda>_.
     if bt_contains files (sf_owner file, sf_path file) then Err (DeckDuplicate ''file'' (sf_path file))
     else Ok (bt_insert (sf_owner file, sf_path file) file files))))"

definition check_anchor_source ::
  "'c file_rows \<Rightarrow> index_anchor \<Rightarrow> (deck_failure, unit) outcome" where
  "check_anchor_source files anchor =
     (case ia_source_path anchor of
        None \<Rightarrow> Ok ()
      | Some path \<Rightarrow>
          if \<not> bt_contains files (ia_owner anchor, path)
          then Err (Unresolved ''anchor source'' (ia_owner anchor @ '':'' @ path)) else Ok ())"

definition add_excerpt ::
  "'c file_rows \<Rightarrow> (string, excerpt) btmap \<Rightarrow> excerpt \<Rightarrow> (deck_failure, (string, excerpt) btmap) outcome" where
  "add_excerpt files excerpts e =
     bind_o (deck_valid_path (ex_path e)) (\<lambda>_.
     bind_o (ok_or (bt_get files (ex_owner e, ex_path e)) (Unresolved ''file'' (ex_path e))) (\<lambda>file.
     if ex_end e < ex_start e \<or> length (sf_bytes file) < ex_end e then Err (Truncated (ex_id e))
     else if drop (ex_start e) (take (ex_end e) (sf_bytes file)) \<noteq> ex_bytes e then Err (ExcerptForgery (ex_id e))
     else if bt_contains excerpts (ex_id e) then Err (DeckDuplicate ''excerpt'' (ex_id e))
     else Ok (bt_insert (ex_id e) e excerpts)))"

definition add_specimen ::
  "('s, 'c) kernel \<Rightarrow> 'c deck_input \<Rightarrow> specimen_rows \<Rightarrow> (string, 'c specimen_pin) btmap \<Rightarrow> 'c specimen_pin
     \<Rightarrow> (deck_failure, (string, 'c specimen_pin) btmap) outcome" where
  "add_specimen K inp index_specimens specimens specimen =
     bind_o (require_owner (repository_owners inp) (sp_owner specimen) (sp_id specimen)) (\<lambda>_.
     bind_o (verify_content K (sp_id specimen) (sp_bytes specimen) (sp_content_id specimen)) (\<lambda>_.
     bind_o (case bt_get index_specimens (sp_id specimen) of
               None \<Rightarrow> Err (Unresolved ''specimen'' (sp_id specimen))
             | Some [row] \<Rightarrow> if is_owner row = sp_owner specimen then Ok () else Err (OwnerMismatch (sp_id specimen))
             | Some _ \<Rightarrow> Err (Ambiguous ''specimen'' (sp_id specimen))) (\<lambda>_.
     if bt_contains specimens (sp_id specimen) then Err (DeckDuplicate ''specimen'' (sp_id specimen))
     else Ok (bt_insert (sp_id specimen) specimen specimens))))"

definition answer ::
  "'c anchor_rows \<Rightarrow> (string, excerpt) btmap \<Rightarrow> (string, 'c specimen_pin) btmap
     \<Rightarrow> 'c grounded_evidence list \<Rightarrow> source_query \<Rightarrow> (deck_failure, 'c grounded_evidence list) outcome" where
  "answer anchors excerpts specimens evidence query =
     (case query of
        QAnchor i \<Rightarrow>
          (case bt_get anchors i of
             None \<Rightarrow> Err (Unresolved ''anchor'' i)
           | Some [(pin, row)] \<Rightarrow> Ok (evidence @ [GAnchor row])
           | Some _ \<Rightarrow> Err (Ambiguous ''anchor'' i))
      | QExcerpt i \<Rightarrow>
          bind_o (ok_or (bt_get excerpts i) (Unresolved ''excerpt'' i)) (\<lambda>e. Ok (evidence @ [GExcerpt e]))
      | QSpecimen i \<Rightarrow>
          bind_o (ok_or (bt_get specimens i) (Unresolved ''specimen'' i)) (\<lambda>s. Ok (evidence @ [GSpecimen s])))"

definition empty_limitation :: "limitation \<Rightarrow> bool" where
  "empty_limitation v =
     (case v of SyntaxBound _ detail \<Rightarrow> detail = [] | ScannerEvidence _ detail \<Rightarrow> detail = []
      | TruncatedEvidence _ _ _ \<Rightarrow> False)"

definition build ::
  "('s, 'c) kernel \<Rightarrow> 'c deck_debug \<Rightarrow> 'c deck_input \<Rightarrow> (deck_failure, 'c source_deck) outcome" where
  "build K D inp =
     bind_o (deck_counts inp) (\<lambda>_.
     bind_o (deck_unique (map rs_owner (di_repositories inp)) ''repository'') (\<lambda>_.
     bind_o (for_each check_repository (di_repositories inp)) (\<lambda>_.
     bind_o (try_fold (decode_fragment K inp) [] (di_fragments inp)) (\<lambda>decoded.
     bind_o (try_fold index_decoded (bt_empty, bt_empty) decoded) (\<lambda>maps.
     let anchors = fst maps; index_specimens = snd maps in
     bind_o (deck_unique (map cc_anchor (di_certificates inp)) ''certificate'') (\<lambda>_.
     bind_o (for_each (check_claim K inp) (bt_entries anchors)) (\<lambda>_.
     bind_o (for_each (\<lambda>cert. if bt_contains anchors (cc_anchor cert) then Ok ()
               else Err (DanglingAnchor (cc_anchor cert))) (di_certificates inp)) (\<lambda>_.
     bind_o (try_fold (add_file K inp) bt_empty (di_files inp)) (\<lambda>files.
     bind_o (for_each (for_each (\<lambda>row. check_anchor_source files (snd row))) (bt_values anchors)) (\<lambda>_.
     bind_o (try_fold (add_excerpt files) bt_empty (di_excerpts inp)) (\<lambda>excerpts.
     bind_o (try_fold (add_specimen K inp index_specimens) bt_empty (di_specimens inp)) (\<lambda>specimens.
     bind_o (try_fold (answer anchors excerpts specimens) [] (di_queries inp)) (\<lambda>evidence.
     if list_ex empty_limitation (di_limitations inp)
     then Err (MissingLimitation ''empty limitation evidence'')
     else
     bind_o (deck_content_id K (deck_canonical K D (di_repositories inp) (di_fragments inp) (di_files inp)
               evidence (di_limitations inp))) (\<lambda>i.
     Ok \<lparr>sd_id = SourceDeckId i, sd_repositories = di_repositories inp, sd_fragments = di_fragments inp,
         sd_files = di_files inp, sd_evidence = evidence, sd_limitations = di_limitations inp\<rparr>))))))))))))))"

section \<open>Checks that succeeded\<close>

lemma required_Ok [simp]: "required v = Ok u \<longleftrightarrow> v \<noteq> []"
  by (simp add: required_def)

lemma check_count_Ok [simp]: "check_count name a m = Ok u \<longleftrightarrow> a \<le> m"
  by (auto simp: check_count_def)

lemma require_owner_Ok [simp]: "require_owner owners o' s = Ok u \<longleftrightarrow> o' |\<in>| owners"
  by (simp add: require_owner_def)

lemma deck_unique_Ok [simp]: "deck_unique ids kind = Ok u \<longleftrightarrow> distinct ids"
  by (auto simp: deck_unique_def bind_o_Ok distinct_fold_Ok [where k = "\<lambda>i. i", simplified])

lemma verify_content_Ok [simp]:
  "verify_content K s bytes expected = Ok u \<longleftrightarrow> byte_content_id_of K bytes = Ok expected"
  by (auto simp: verify_content_def bind_o_Ok split: if_splits)

lemma repository_owners_iff [simp]:
  "o' |\<in>| repository_owners inp \<longleftrightarrow> o' \<in> rs_owner ` set (di_repositories inp)"
  by (simp only: repository_owners_def fset_of_list_elem set_map)

definition source_path_ok :: "index_anchor \<Rightarrow> bool" where
  "source_path_ok a \<longleftrightarrow> (\<forall>path. ia_source_path a = Some path \<longrightarrow> deck_valid_path path = Ok ())"

lemma index_anchor_row_Ok:
  "index_anchor_row pin frag m a = Ok m' \<longleftrightarrow>
     ia_owner a = if_owner frag \<and> source_path_ok a \<and> m' = push_row (ia_id a) (pin, a) m"
  by (auto simp: index_anchor_row_def source_path_ok_def bind_o_Ok split: option.splits)

lemma index_specimen_row_Ok:
  "index_specimen_row frag m a = Ok m' \<longleftrightarrow> is_owner a = if_owner frag \<and> m' = push_row (is_id a) a m"
  by (auto simp: index_specimen_row_def)

lemma index_decoded_row_Ok:
  "index_decoded maps (pin, f) = Ok maps' \<longleftrightarrow>
     try_fold (index_anchor_row pin f) (fst maps) (if_anchors f) = Ok (fst maps')
     \<and> try_fold (index_specimen_row f) (snd maps) (if_specimens f) = Ok (snd maps')"
  by (cases maps') (auto simp: index_decoded_def bind_o_Ok)

section \<open>Grouped rows\<close>

definition grouped :: "('k::linorder \<times> 'v) list \<Rightarrow> ('k, 'v list) btmap \<Rightarrow> bool" where
  "grouped rows m \<longleftrightarrow> (\<forall>k. bt_get m k =
     (let vs = map snd (filter (\<lambda>r. fst r = k) rows) in if vs = [] then None else Some vs))"

lemma grouped_empty: "grouped [] bt_empty"
  by (simp add: grouped_def)

lemma grouped_push: "grouped rows m \<Longrightarrow> grouped (rows @ [(k, v)]) (push_row k v m)"
  by (auto simp: grouped_def push_row_def Let_def)

lemma grouped_get:
  assumes "grouped rows m" "bt_get m k = Some vs"
  shows "vs \<noteq> []" and "set vs = {v. (k, v) \<in> set rows}"
  using assms by (force simp: grouped_def Let_def split: if_splits)+

definition anchor_list :: "('c fragment_pin \<times> index_fragment) list \<Rightarrow> (string \<times> ('c fragment_pin \<times> index_anchor)) list" where
  "anchor_list ds = concat (map (\<lambda>(pin, f). map (\<lambda>a. (ia_id a, (pin, a))) (if_anchors f)) ds)"

definition specimen_list :: "('c fragment_pin \<times> index_fragment) list \<Rightarrow> (string \<times> index_specimen) list" where
  "specimen_list ds = concat (map (\<lambda>(pin, f). map (\<lambda>a. (is_id a, a)) (if_specimens f)) ds)"

lemma index_anchors_Ok:
  assumes "try_fold (index_anchor_row pin frag) m as = Ok m'" "grouped rows m"
  shows "grouped (rows @ map (\<lambda>a. (ia_id a, (pin, a))) as) m'"
    and "\<forall>a \<in> set as. ia_owner a = if_owner frag"
proof -
  have "grouped (rows @ map (\<lambda>a. (ia_id a, (pin, a))) as) m' \<and> (\<forall>a \<in> set as. ia_owner a = if_owner frag)"
    using assms
  proof (induction as arbitrary: m rows)
    case (Cons a as)
    then have rest: "try_fold (index_anchor_row pin frag) (push_row (ia_id a) (pin, a) m) as = Ok m'"
      and owner: "ia_owner a = if_owner frag"
      by (auto simp: index_anchor_row_Ok bind_o_Ok)
    from Cons.IH [OF rest grouped_push [OF Cons.prems(2)]] owner show ?case by simp
  qed simp
  then show "grouped (rows @ map (\<lambda>a. (ia_id a, (pin, a))) as) m'" "\<forall>a \<in> set as. ia_owner a = if_owner frag"
    by blast+
qed

lemma index_specimens_Ok:
  assumes "try_fold (index_specimen_row frag) m as = Ok m'" "grouped rows m"
  shows "grouped (rows @ map (\<lambda>a. (is_id a, a)) as) m'"
  using assms
proof (induction as arbitrary: m rows)
  case (Cons a as)
  then have rest: "try_fold (index_specimen_row frag) (push_row (is_id a) a m) as = Ok m'"
    by (auto simp: index_specimen_row_Ok bind_o_Ok)
  from Cons.IH [OF rest grouped_push [OF Cons.prems(2)]] show ?case by simp
qed simp

lemma index_decoded_Ok:
  assumes "try_fold index_decoded maps ds = Ok maps'" "grouped ra (fst maps)" "grouped rs (snd maps)"
  shows "grouped (ra @ anchor_list ds) (fst maps') \<and> grouped (rs @ specimen_list ds) (snd maps')
     \<and> (\<forall>(pin, f) \<in> set ds. \<forall>a \<in> set (if_anchors f). ia_owner a = if_owner f)"
  using assms
proof (induction ds arbitrary: maps ra rs)
  case Nil
  then show ?case by (simp add: anchor_list_def specimen_list_def)
next
  case (Cons d ds)
  obtain pin f where d: "d = (pin, f)" by fastforce
  from Cons.prems(1) d obtain am sm where
    a: "try_fold (index_anchor_row pin f) (fst maps) (if_anchors f) = Ok am"
    and s: "try_fold (index_specimen_row f) (snd maps) (if_specimens f) = Ok sm"
    and rest: "try_fold index_decoded (am, sm) ds = Ok maps'"
    by (auto simp: index_decoded_row_Ok bind_o_Ok)
  note ga = index_anchors_Ok [OF a Cons.prems(2)] and gs = index_specimens_Ok [OF s Cons.prems(3)]
  from Cons.IH [OF rest, of "ra @ map (\<lambda>a. (ia_id a, (pin, a))) (if_anchors f)"
      "rs @ map (\<lambda>a. (is_id a, a)) (if_specimens f)"] ga gs
  show ?case by (simp add: d anchor_list_def specimen_list_def)
qed

section \<open>What a deck rests on\<close>

definition fragment_ok :: "('s, 'c) kernel \<Rightarrow> 'c deck_input \<Rightarrow> 'c fragment_pin \<Rightarrow> index_fragment \<Rightarrow> bool" where
  "fragment_ok K inp pin frag \<longleftrightarrow>
     pin \<in> set (di_fragments inp) \<and> fp_owner pin \<in> rs_owner ` set (di_repositories inp)
     \<and> byte_content_id_of K (fp_bytes pin) = Ok (fp_content_id pin)
     \<and> di_decode inp (fp_bytes pin) = Ok frag \<and> if_owner frag = fp_owner pin"

definition file_ok :: "('s, 'c) kernel \<Rightarrow> 'c deck_input \<Rightarrow> 'c source_file \<Rightarrow> bool" where
  "file_ok K inp f \<longleftrightarrow>
     f \<in> set (di_files inp) \<and> sf_owner f \<in> rs_owner ` set (di_repositories inp)
     \<and> deck_valid_path (sf_path f) = Ok () \<and> byte_content_id_of K (sf_bytes f) = Ok (sf_content_id f)"

definition anchor_grounded :: "('s, 'c) kernel \<Rightarrow> 'c deck_input \<Rightarrow> index_anchor \<Rightarrow> bool" where
  "anchor_grounded K inp a \<longleftrightarrow> (\<exists>pin frag cert.
     fragment_ok K inp pin frag \<and> a \<in> set (if_anchors frag) \<and> ia_owner a = fp_owner pin
     \<and> filter (\<lambda>c. cc_anchor c = ia_id a) (di_certificates inp) = [cert]
     \<and> cc_owner cert = ia_owner a \<and> cc_fragment_id cert = fp_content_id pin
     \<and> expected_digest K cert = Ok (cc_digest cert)
     \<and> (\<forall>path. ia_source_path a = Some path \<longrightarrow>
          (\<exists>f. file_ok K inp f \<and> sf_owner f = ia_owner a \<and> sf_path f = path)))"

definition excerpt_grounded :: "('s, 'c) kernel \<Rightarrow> 'c deck_input \<Rightarrow> excerpt \<Rightarrow> bool" where
  "excerpt_grounded K inp e \<longleftrightarrow> e \<in> set (di_excerpts inp) \<and> (\<exists>f.
     file_ok K inp f \<and> sf_owner f = ex_owner e \<and> sf_path f = ex_path e
     \<and> ex_start e \<le> ex_end e \<and> ex_end e \<le> length (sf_bytes f)
     \<and> ex_bytes e = drop (ex_start e) (take (ex_end e) (sf_bytes f)))"

definition specimen_grounded :: "('s, 'c) kernel \<Rightarrow> 'c deck_input \<Rightarrow> 'c specimen_pin \<Rightarrow> bool" where
  "specimen_grounded K inp s \<longleftrightarrow>
     s \<in> set (di_specimens inp) \<and> sp_owner s \<in> rs_owner ` set (di_repositories inp)
     \<and> byte_content_id_of K (sp_bytes s) = Ok (sp_content_id s)
     \<and> (\<exists>pin frag row. fragment_ok K inp pin frag \<and> row \<in> set (if_specimens frag)
          \<and> is_id row = sp_id s \<and> is_owner row = sp_owner s)"

fun grounded_for :: "('s, 'c) kernel \<Rightarrow> 'c deck_input \<Rightarrow> source_query \<Rightarrow> 'c grounded_evidence \<Rightarrow> bool" where
  "grounded_for K inp (QAnchor i) (GAnchor a) \<longleftrightarrow> ia_id a = i \<and> anchor_grounded K inp a"
| "grounded_for K inp (QExcerpt i) (GExcerpt e) \<longleftrightarrow> ex_id e = i \<and> excerpt_grounded K inp e"
| "grounded_for K inp (QSpecimen i) (GSpecimen s) \<longleftrightarrow> sp_id s = i \<and> specimen_grounded K inp s"
| "grounded_for K inp _ _ \<longleftrightarrow> False"

section \<open>Soundness of the loops\<close>

lemma decode_fragments_Ok:
  assumes "try_fold (decode_fragment K inp) acc pins = Ok decoded" "set pins \<subseteq> set (di_fragments inp)"
    "\<forall>(pin, f) \<in> set acc. fragment_ok K inp pin f"
  shows "\<forall>(pin, f) \<in> set decoded. fragment_ok K inp pin f"
  using assms(1)
  by (rule try_fold_invariant [where I = "\<lambda>acc. \<forall>(pin, f) \<in> set acc. fragment_ok K inp pin f"])
     (use assms(2,3) in \<open>auto simp: decode_fragment_def fragment_ok_def bind_o_Ok split: if_splits\<close>)

lemma add_file_Ok:
  assumes "add_file K inp m f = Ok m'" "f \<in> set (di_files inp)"
  shows "file_ok K inp f \<and> m' = bt_insert (sf_owner f, sf_path f) f m"
  using assms by (auto simp: add_file_def file_ok_def bind_o_Ok simp del: repository_owners_iff split: if_splits)
    (simp add: repository_owners_iff)

lemma add_files_Ok:
  assumes "try_fold (add_file K inp) bt_empty (di_files inp) = Ok files" "bt_get files k = Some f"
  shows "file_ok K inp f \<and> k = (sf_owner f, sf_path f)"
proof -
  have "\<forall>k f. bt_get files k = Some f \<longrightarrow> file_ok K inp f \<and> k = (sf_owner f, sf_path f)"
    using assms(1)
    by (rule try_fold_invariant
        [where I = "\<lambda>m. \<forall>k f. bt_get m k = Some f \<longrightarrow> file_ok K inp f \<and> k = (sf_owner f, sf_path f)"])
       (auto dest!: add_file_Ok split: if_splits)
  with assms(2) show ?thesis by blast
qed

lemma add_excerpts_Ok:
  assumes "try_fold (add_file K inp) bt_empty (di_files inp) = Ok files"
    "try_fold (add_excerpt files) bt_empty (di_excerpts inp) = Ok excerpts" "bt_get excerpts i = Some e"
  shows "ex_id e = i \<and> excerpt_grounded K inp e"
proof -
  have one: "ex_id e = ex_id x \<and> excerpt_grounded K inp x"
    if "x \<in> set (di_excerpts inp)" "add_excerpt files m x = Ok m'" "bt_get m' (ex_id x) = Some e" for x m m' e
  proof -
    from that(2) obtain f where f: "bt_get files (ex_owner x, ex_path x) = Some f"
      and rest: "ex_start x \<le> ex_end x" "ex_end x \<le> length (sf_bytes f)"
        "drop (ex_start x) (take (ex_end x) (sf_bytes f)) = ex_bytes x" "m' = bt_insert (ex_id x) x m"
      by (auto simp: add_excerpt_def bind_o_Ok split: if_splits)
    from add_files_Ok [OF assms(1) f] rest that(1,3) show ?thesis by (auto simp: excerpt_grounded_def)
  qed
  have "\<forall>i e. bt_get excerpts i = Some e \<longrightarrow> ex_id e = i \<and> excerpt_grounded K inp e"
    using assms(2)
  proof (rule try_fold_invariant
        [where I = "\<lambda>m. \<forall>i e. bt_get m i = Some e \<longrightarrow> ex_id e = i \<and> excerpt_grounded K inp e"])
    fix m x m'
    assume x: "x \<in> set (di_excerpts inp)" and step: "add_excerpt files m x = Ok m'"
      and inv: "\<forall>i e. bt_get m i = Some e \<longrightarrow> ex_id e = i \<and> excerpt_grounded K inp e"
    from step have m': "m' = bt_insert (ex_id x) x m" by (auto simp: add_excerpt_def bind_o_Ok split: if_splits)
    with one [OF x step] inv show "\<forall>i e. bt_get m' i = Some e \<longrightarrow> ex_id e = i \<and> excerpt_grounded K inp e" by auto
  qed simp
  with assms(3) show ?thesis by blast
qed

lemma add_specimens_Ok:
  assumes dec: "\<forall>(pin, f) \<in> set ds. fragment_ok K inp pin f" and grp: "grouped (specimen_list ds) ism"
    and run: "try_fold (add_specimen K inp ism) bt_empty (di_specimens inp) = Ok specimens"
    and get: "bt_get specimens i = Some s"
  shows "sp_id s = i \<and> specimen_grounded K inp s"
proof -
  have row: "\<exists>pin frag. fragment_ok K inp pin frag \<and> row \<in> set (if_specimens frag) \<and> is_id row = i"
    if "bt_get ism i = Some rows" "row \<in> set rows" for i rows row
    using grouped_get(2) [OF grp that(1)] that(2) dec by (fastforce simp: specimen_list_def)
  have "\<forall>i s. bt_get specimens i = Some s \<longrightarrow> sp_id s = i \<and> specimen_grounded K inp s"
    using run
  proof (rule try_fold_invariant
        [where I = "\<lambda>m. \<forall>i s. bt_get m i = Some s \<longrightarrow> sp_id s = i \<and> specimen_grounded K inp s"])
    fix m x m'
    assume x: "x \<in> set (di_specimens inp)" and step: "add_specimen K inp ism m x = Ok m'"
      and inv: "\<forall>i s. bt_get m i = Some s \<longrightarrow> sp_id s = i \<and> specimen_grounded K inp s"
    from step obtain r where r: "bt_get ism (sp_id x) = Some [r]" "is_owner r = sp_owner x"
      and m': "m' = bt_insert (sp_id x) x m"
      and facts: "sp_owner x \<in> rs_owner ` set (di_repositories inp)"
        "byte_content_id_of K (sp_bytes x) = Ok (sp_content_id x)"
      by (auto simp: add_specimen_def bind_o_Ok split: if_splits option.splits list.splits)
    from row [OF r(1)] r(2) facts x have "specimen_grounded K inp x" by (auto simp: specimen_grounded_def)
    with inv m' show "\<forall>i s. bt_get m' i = Some s \<longrightarrow> sp_id s = i \<and> specimen_grounded K inp s" by auto
  qed simp
  with get show ?thesis by blast
qed

section \<open>Soundness of the deck\<close>

lemma build_Ok_elim:
  assumes "build K D inp = Ok deck"
  obtains decoded anchors ism files excerpts specimens where
    "deck_counts inp = Ok ()" "distinct (map rs_owner (di_repositories inp))"
    "for_each check_repository (di_repositories inp) = Ok ()"
    "try_fold (decode_fragment K inp) [] (di_fragments inp) = Ok decoded"
    "try_fold index_decoded (bt_empty, bt_empty) decoded = Ok (anchors, ism)"
    "for_each (check_claim K inp) (bt_entries anchors) = Ok ()"
    "\<forall>cert \<in> set (di_certificates inp). bt_contains anchors (cc_anchor cert)"
    "try_fold (add_file K inp) bt_empty (di_files inp) = Ok files"
    "for_each (for_each (\<lambda>row. check_anchor_source files (snd row))) (bt_values anchors) = Ok ()"
    "try_fold (add_excerpt files) bt_empty (di_excerpts inp) = Ok excerpts"
    "try_fold (add_specimen K inp ism) bt_empty (di_specimens inp) = Ok specimens"
    "try_fold (answer anchors excerpts specimens) [] (di_queries inp) = Ok (sd_evidence deck)"
    "list_all (\<lambda>l. \<not> empty_limitation l) (di_limitations inp)"
    "deck_content_id K (deck_canonical K D (di_repositories inp) (di_fragments inp) (di_files inp)
       (sd_evidence deck) (di_limitations inp)) = Ok (sdid (sd_id deck))"
    "sd_repositories deck = di_repositories inp" "sd_fragments deck = di_fragments inp"
    "sd_files deck = di_files inp" "sd_limitations deck = di_limitations inp"
  using assms unfolding build_def Let_def
  by (clarsimp simp: bind_o_Ok for_each_Ok list_all_iff list_ex_iff split: if_split_asm)

lemma check_claim_Ok:
  assumes "check_claim K inp (i, rows) = Ok u"
  obtains pin a cert where "rows = [(pin, a)]"
    "filter (\<lambda>c. cc_anchor c = i) (di_certificates inp) = [cert]" "cc_owner cert = ia_owner a"
    "cc_fragment_id cert = fp_content_id pin" "expected_digest K cert = Ok (cc_digest cert)"
proof -
  from assms obtain pin a where rows: "rows = [(pin, a)]"
    by (auto simp: check_claim_def Let_def bind_o_Ok split: if_splits list.splits)
  let ?certs = "filter (\<lambda>c. cc_anchor c = i) (di_certificates inp)"
  from assms rows have "length ?certs = 1"
    by (auto simp: check_claim_def Let_def split: if_splits)
  then obtain cert where cert: "?certs = [cert]" by (auto simp: length_Suc_conv)
  from assms have "cc_owner cert = ia_owner a" "cc_fragment_id cert = fp_content_id pin"
    "expected_digest K cert = Ok (cc_digest cert)"
    by (auto simp: check_claim_def Let_def rows cert bind_o_Ok split: if_splits)
  with that rows cert show ?thesis by blast
qed

lemma answers_Ok:
  assumes "try_fold (answer anchors excerpts specimens) acc qs = Ok ev"
    and anchor: "\<And>i pin a. bt_get anchors i = Some [(pin, a)] \<Longrightarrow> P (QAnchor i) (GAnchor a)"
    and excerpt: "\<And>i e. bt_get excerpts i = Some e \<Longrightarrow> P (QExcerpt i) (GExcerpt e)"
    and specimen: "\<And>i s. bt_get specimens i = Some s \<Longrightarrow> P (QSpecimen i) (GSpecimen s)"
  shows "\<exists>vs. ev = acc @ vs \<and> list_all2 P qs vs"
  using assms(1)
proof (induction qs arbitrary: acc)
  case (Cons q qs)
  have one: "\<exists>v. answer anchors excerpts specimens acc q = Ok (acc @ [v]) \<and> P q v"
    if "answer anchors excerpts specimens acc q = Ok acc'" for acc'
    using that anchor excerpt specimen
    by (cases q) (auto simp: answer_def bind_o_Ok split: option.splits list.splits)
  from Cons.prems obtain acc' where a: "answer anchors excerpts specimens acc q = Ok acc'"
    and rest: "try_fold (answer anchors excerpts specimens) acc' qs = Ok ev" by (auto simp: bind_o_Ok)
  from one [OF a] a obtain v where v: "acc' = acc @ [v]" "P q v" by auto
  from Cons.IH [OF rest] v show ?case by auto
qed simp

lemma build_sound:
  assumes "build K D inp = Ok deck"
  shows "list_all2 (grounded_for K inp) (di_queries inp) (sd_evidence deck)"
proof -
  from assms obtain decoded anchors ism files excerpts specimens where
    dec: "try_fold (decode_fragment K inp) [] (di_fragments inp) = Ok decoded"
    and idx: "try_fold index_decoded (bt_empty, bt_empty) decoded = Ok (anchors, ism)"
    and claims: "for_each (check_claim K inp) (bt_entries anchors) = Ok ()"
    and files: "try_fold (add_file K inp) bt_empty (di_files inp) = Ok files"
    and sources: "for_each (for_each (\<lambda>row. check_anchor_source files (snd row))) (bt_values anchors) = Ok ()"
    and ex: "try_fold (add_excerpt files) bt_empty (di_excerpts inp) = Ok excerpts"
    and sp: "try_fold (add_specimen K inp ism) bt_empty (di_specimens inp) = Ok specimens"
    and ans: "try_fold (answer anchors excerpts specimens) [] (di_queries inp) = Ok (sd_evidence deck)"
    by (rule build_Ok_elim)
  have frag: "\<forall>(pin, f) \<in> set decoded. fragment_ok K inp pin f"
    by (rule decode_fragments_Ok [OF dec]) auto
  from index_decoded_Ok [OF idx, of "[]" "[]"] have ga: "grouped (anchor_list decoded) anchors"
    and gs: "grouped (specimen_list decoded) ism"
    and own: "\<forall>(pin, f) \<in> set decoded. \<forall>a \<in> set (if_anchors f). ia_owner a = if_owner f"
    by (simp_all add: grouped_empty)
  have anchor: "grounded_for K inp (QAnchor i) (GAnchor a)" if get: "bt_get anchors i = Some [(pin, a)]" for i pin a
  proof -
    have "(i, (pin, a)) \<in> set (anchor_list decoded)" using grouped_get(2) [OF ga get] by auto
    then obtain f where f: "(pin, f) \<in> set decoded" "a \<in> set (if_anchors f)" "ia_id a = i"
      by (auto simp: anchor_list_def)
    have ok: "fragment_ok K inp pin f" "ia_owner a = fp_owner pin"
      using frag own f by (fastforce simp: fragment_ok_def)+
    have "check_claim K inp (i, [(pin, a)]) = Ok ()"
      using claims get by (auto simp: for_each_Ok bt_get_Some_iff)
    then obtain cert where cert: "filter (\<lambda>c. cc_anchor c = i) (di_certificates inp) = [cert]"
      "cc_owner cert = ia_owner a" "cc_fragment_id cert = fp_content_id pin"
      "expected_digest K cert = Ok (cc_digest cert)"
      by (rule check_claim_Ok) simp
    have "check_anchor_source files a = Ok ()"
      using sources get by (fastforce simp: for_each_Ok set_bt_values ran_def)
    then have src: "\<exists>f. file_ok K inp f \<and> sf_owner f = ia_owner a \<and> sf_path f = path"
      if "ia_source_path a = Some path" for path
      using that add_files_Ok [OF files] by (force simp: check_anchor_source_def bt_contains_def split: if_splits)
    have "anchor_grounded K inp a"
      unfolding anchor_grounded_def using ok f(2,3) cert src by blast
    with f(3) show ?thesis by simp
  qed
  from answers_Ok [OF ans, where P = "grounded_for K inp"] anchor add_excerpts_Ok [OF files ex]
    add_specimens_Ok [OF frag gs sp]
  show ?thesis by simp
qed

text \<open>\<open>rows[0]\<close> is never out of range: the rows of an indexed anchor are never empty.\<close>

lemma check_claim_no_Panic:
  assumes "rows \<noteq> []" "\<And>d. datum_content_id K d \<noteq> Panic"
  shows "check_claim K inp (i, rows) \<noteq> Panic"
  using assms
  by (auto simp: check_claim_def Let_def bind_o_Panic expected_digest_def deck_content_id_def
      split: list.splits prod.splits if_splits)

definition well_behaved :: "('s, 'c) kernel \<Rightarrow> 'c deck_input \<Rightarrow> bool" where
  "well_behaved K inp \<longleftrightarrow> (\<forall>d. datum_content_id K d \<noteq> Panic) \<and> (\<forall>b. di_decode inp b \<noteq> Panic)"

lemma deck_checks_no_Panic [simp]:
  "check_count n a m \<noteq> Panic" "required v \<noteq> Panic" "deck_valid_path path \<noteq> Panic" "require_owner ow x y \<noteq> Panic"
  "deck_unique ids kind \<noteq> Panic" "check_anchor_source files anc \<noteq> Panic"
  by (auto simp: check_count_def required_def deck_valid_path_def require_owner_def deck_unique_def
      check_anchor_source_def bind_o_Panic try_fold_never_Panic split: option.splits)

lemma deck_rows_no_Panic [simp]:
  "index_anchor_row pin f m a \<noteq> Panic" "index_specimen_row f m' s \<noteq> Panic"
  by (auto simp: index_anchor_row_def index_specimen_row_def bind_o_Panic split: option.splits)

lemma deck_steps_no_Panic [simp]:
  "check_repository r \<noteq> Panic" "index_decoded maps d \<noteq> Panic" "add_excerpt files es e \<noteq> Panic"
  "answer am em sm ev q \<noteq> Panic" "deck_counts inp \<noteq> Panic"
  by (auto simp: check_repository_def index_decoded_def add_excerpt_def answer_def deck_counts_def Let_def
      bind_o_Panic try_fold_never_Panic split: source_query.splits option.splits list.splits)

lemma deck_kernel_steps_no_Panic:
  assumes "well_behaved K inp"
  shows "verify_content K subject bytes c \<noteq> Panic" "decode_fragment K inp acc pin \<noteq> Panic"
    "add_file K inp fs f \<noteq> Panic" "add_specimen K inp ism ss s \<noteq> Panic" "deck_content_id K d \<noteq> Panic"
proof -
  show vc: "verify_content K subject bytes c \<noteq> Panic" for subject bytes c
    using assms by (auto simp: verify_content_def byte_content_id_of_def deck_content_id_def bind_o_Panic well_behaved_def)
  show "decode_fragment K inp acc pin \<noteq> Panic" "add_file K inp fs f \<noteq> Panic" "deck_content_id K d \<noteq> Panic"
    using vc assms by (auto simp: decode_fragment_def add_file_def deck_content_id_def bind_o_Panic well_behaved_def)
  show "add_specimen K inp ism ss s \<noteq> Panic"
    using vc by (auto simp: add_specimen_def bind_o_Panic split: option.splits list.splits)
qed

lemma check_claims_no_Panic:
  assumes "well_behaved K inp" "try_fold index_decoded (bt_empty, bt_empty) decoded = Ok maps"
  shows "for_each (check_claim K inp) (bt_entries (fst maps)) \<noteq> Panic"
proof (rule for_each_no_Panic)
  fix x assume x: "x \<in> set (bt_entries (fst maps))"
  from index_decoded_Ok [OF assms(2), of "[]" "[]"] have "grouped (anchor_list decoded) (fst maps)"
    by (simp add: grouped_empty)
  from grouped_get(1) [OF this, of "fst x" "snd x"] x have "snd x \<noteq> []" by (simp add: bt_get_Some_iff)
  from check_claim_no_Panic [OF this, of K inp "fst x"] assms(1) show "check_claim K inp x \<noteq> Panic"
    by (simp add: well_behaved_def)
qed

lemma build_no_Panic:
  assumes "well_behaved K inp"
  shows "build K D inp \<noteq> Panic"
  unfolding build_def Let_def
  by (auto simp: bind_o_Panic deck_kernel_steps_no_Panic [OF assms] try_fold_never_Panic for_each_no_Panic
      dest: check_claims_no_Panic [OF assms])

end
