(* ===== verification/Deck_Theorems.thy ===== *)
theory Deck_Theorems
  imports Deck_Build Roadmap_Samples
begin

text \<open>
  The properties of \<open>sim-source-deck\<close>. The sample input grounds one anchor, one excerpt and one
  specimen of a single repository; its decoder reads every fragment as the same index.
\<close>

definition sample_index :: index_fragment where
  "sample_index = \<lparr>if_owner = ''o'', if_anchors = [\<lparr>ia_id = ''a1'', ia_owner = ''o'', ia_source_path = Some ''src/lib.rs''\<rparr>],
     if_specimens = [\<lparr>is_id = ''s1'', is_owner = ''o''\<rparr>]\<rparr>"

definition sample_debug :: "byte list deck_debug" where
  "sample_debug = \<lparr>dd_evidence = (\<lambda>_. ''e''), dd_limitation = (\<lambda>_. ''l'')\<rparr>"

definition sample_input :: "string \<Rightarrow> string \<Rightarrow> byte list deck_input" where
  "sample_input repository revision =
     \<lparr>di_repositories = [\<lparr>rs_owner = ''o'', rs_repository = repository, rs_revision = revision\<rparr>],
      di_fragments = [\<lparr>fp_owner = ''o'', fp_bytes = [7], fp_content_id = ByteContentId [1]\<rparr>],
      di_certificates = [\<lparr>cc_anchor = ''a1'', cc_owner = ''o'', cc_fragment_id = ByteContentId [1],
                         cc_digest = ByteContentId [1]\<rparr>],
      di_files = [\<lparr>sf_owner = ''o'', sf_path = ''src/lib.rs'', sf_bytes = [1, 2, 3], sf_content_id = ByteContentId [1]\<rparr>],
      di_excerpts = [\<lparr>ex_id = ''e1'', ex_owner = ''o'', ex_path = ''src/lib.rs'', ex_start = 1, ex_end = 3,
                     ex_bytes = [2, 3]\<rparr>],
      di_specimens = [\<lparr>sp_id = ''s1'', sp_owner = ''o'', sp_bytes = [9], sp_content_id = ByteContentId [1]\<rparr>],
      di_queries = [QAnchor ''a1'', QExcerpt ''e1'', QSpecimen ''s1''],
      di_limitations = [SyntaxBound ''rust'' ''macros''],
      di_limits = strict 2 2 2 2 2 4 16, di_decode = (\<lambda>_. Ok sample_index)\<rparr>"

lemma sample_build: "\<exists>d. build sample_kernel sample_debug (sample_input ''r'' ''v'') = Ok d \<and> length (sd_evidence d) = 3"
  by (rule Ok_cases_intro) code_simp

text \<open>
  C16: A deck is grounded: when a deck is built, each query has one row of evidence in the order of
  the queries. An anchor row comes from a fragment whose bytes have the pinned identity and whose
  owner is a pinned repository, carries the only certificate for that anchor with the expected
  digest over the same fragment, and its source file is present; an excerpt row is exactly the
  bytes of a verified file between its bounds; a specimen row is verified and listed by a fragment
  with the same owner. Everything else of the deck is the input unchanged.
\<close>
theorem deck_grounded:
  assumes "build K D inp = Ok deck"
  shows "list_all2 (grounded_for K inp) (di_queries inp) (sd_evidence deck)
     \<and> sd_repositories deck = di_repositories inp \<and> sd_fragments deck = di_fragments inp
     \<and> sd_files deck = di_files inp \<and> sd_limitations deck = di_limitations inp"
  using build_sound [OF assms] assms by (auto elim!: build_Ok_elim)

theorem deck_grounded_witness:
  "\<exists>d a. build sample_kernel sample_debug (sample_input ''r'' ''v'') = Ok d
     \<and> hd (sd_evidence d) = GAnchor a \<and> anchor_grounded sample_kernel (sample_input ''r'' ''v'') a"
proof -
  from sample_build obtain d where d: "build sample_kernel sample_debug (sample_input ''r'' ''v'') = Ok d" by blast
  have "di_queries (sample_input ''r'' ''v'') = [QAnchor ''a1'', QExcerpt ''e1'', QSpecimen ''s1'']"
    by (simp add: sample_input_def)
  with deck_grounded [OF d] obtain v vs where v: "sd_evidence d = v # vs"
    "grounded_for sample_kernel (sample_input ''r'' ''v'') (QAnchor ''a1'') v" by (auto simp: list_all2_Cons1)
  then obtain a where "v = GAnchor a" "anchor_grounded sample_kernel (sample_input ''r'' ''v'') a"
    by (cases v) auto
  with d v show ?thesis by auto
qed

text \<open>
  Building a deck respects its limits and never panics. A built deck has no more
  repositories, fragments, files, excerpts, specimens, queries and bytes than the limits allow,
  repository owners are unique and their identity fields nonempty, every certificate names an
  indexed anchor, and limitations carry evidence; when neither the kernel's content identity nor
  the decoder panics, no input makes the build panic.
\<close>
theorem deck_bounded_and_total:
  "(build K D inp = Ok deck \<longrightarrow>
      length (di_repositories inp) \<le> dl_repositories (di_limits inp)
      \<and> length (di_fragments inp) \<le> dl_fragments (di_limits inp)
      \<and> length (di_files inp) \<le> dl_files (di_limits inp)
      \<and> length (di_excerpts inp) \<le> dl_excerpts (di_limits inp)
      \<and> length (di_specimens inp) \<le> dl_specimens (di_limits inp)
      \<and> length (di_queries inp) \<le> dl_queries (di_limits inp)
      \<and> sum_list (map (\<lambda>v. length (fp_bytes v)) (di_fragments inp)) + sum_list (map (\<lambda>v. length (sf_bytes v)) (di_files inp))
          + sum_list (map (\<lambda>v. length (sp_bytes v)) (di_specimens inp)) \<le> dl_total_bytes (di_limits inp)
      \<and> distinct (map rs_owner (di_repositories inp))
      \<and> (\<forall>r \<in> set (di_repositories inp). rs_owner r \<noteq> [] \<and> rs_repository r \<noteq> [] \<and> rs_revision r \<noteq> [])
      \<and> list_all (\<lambda>l. \<not> empty_limitation l) (di_limitations inp))
   \<and> (well_behaved K inp \<longrightarrow> build K D inp \<noteq> Panic)"
proof (intro conjI impI)
  assume "build K D inp = Ok deck"
  then have c: "deck_counts inp = Ok ()" and d: "distinct (map rs_owner (di_repositories inp))"
    and r: "for_each check_repository (di_repositories inp) = Ok ()"
    and l: "list_all (\<lambda>l. \<not> empty_limitation l) (di_limitations inp)"
    by (auto elim!: build_Ok_elim)
  from c show "length (di_repositories inp) \<le> dl_repositories (di_limits inp)"
    "length (di_fragments inp) \<le> dl_fragments (di_limits inp)" "length (di_files inp) \<le> dl_files (di_limits inp)"
    "length (di_excerpts inp) \<le> dl_excerpts (di_limits inp)"
    "length (di_specimens inp) \<le> dl_specimens (di_limits inp)"
    "length (di_queries inp) \<le> dl_queries (di_limits inp)"
    "sum_list (map (\<lambda>v. length (fp_bytes v)) (di_fragments inp)) + sum_list (map (\<lambda>v. length (sf_bytes v)) (di_files inp))
          + sum_list (map (\<lambda>v. length (sp_bytes v)) (di_specimens inp)) \<le> dl_total_bytes (di_limits inp)"
    by (simp_all add: deck_counts_def Let_def bind_o_Ok)
  show "distinct (map rs_owner (di_repositories inp))" by (rule d)
  show "\<forall>r \<in> set (di_repositories inp). rs_owner r \<noteq> [] \<and> rs_repository r \<noteq> [] \<and> rs_revision r \<noteq> []"
    using r by (auto simp: for_each_Ok check_repository_def bind_o_Ok)
  show "list_all (\<lambda>l. \<not> empty_limitation l) (di_limitations inp)" by (rule l)
qed (rule build_no_Panic)

theorem deck_bounded_and_total_witness:
  "well_behaved sample_kernel (sample_input ''r'' ''v'')
     \<and> build sample_kernel sample_debug (sample_input ''r'' ''v'') \<noteq> Panic
     \<and> length (di_files (sample_input ''r'' ''v'')) \<le> 2"
proof -
  from sample_build obtain d where d: "build sample_kernel sample_debug (sample_input ''r'' ''v'') = Ok d" by blast
  have "well_behaved sample_kernel (sample_input ''r'' ''v'')"
    by (simp add: well_behaved_def sample_kernel_def sample_input_def)
  with deck_bounded_and_total [of sample_kernel sample_debug "sample_input ''r'' ''v''" d] d
  show ?thesis by (simp add: sample_input_def strict_def)
qed

lemma deck_steps_one_repository:
  "decode_fragment K (inp\<lparr>di_repositories := [r]\<rparr>) = decode_fragment K (inp\<lparr>di_repositories := [r\<lparr>rs_repository := x, rs_revision := y\<rparr>]\<rparr>)"
  "check_claim K (inp\<lparr>di_repositories := rs\<rparr>) = check_claim K inp"
  "add_file K (inp\<lparr>di_repositories := [r]\<rparr>) = add_file K (inp\<lparr>di_repositories := [r\<lparr>rs_repository := x, rs_revision := y\<rparr>]\<rparr>)"
  "add_specimen K (inp\<lparr>di_repositories := [r]\<rparr>) = add_specimen K (inp\<lparr>di_repositories := [r\<lparr>rs_repository := x, rs_revision := y\<rparr>]\<rparr>)"
  by (simp_all add: fun_eq_iff decode_fragment_def check_claim_def add_file_def add_specimen_def repository_owners_def)

text \<open>
  C17: The identity of a deck does not determine its repositories. The canonical rows join the
  repository and the revision with a colon and do not escape colons. On every kernel and for every
  input, replacing the only snapshot by one of the same owner whose joined text is the same gives a
  deck with another repository and revision but the same identity: \<open>a:b\<close> at revision \<open>c\<close> and
  \<open>a\<close> at revision \<open>b:c\<close>, for example.
\<close>
theorem deck_identity_conflates_repositories:
  assumes "build K D (inp\<lparr>di_repositories := [r]\<rparr>) = Ok d"
    "repo @ '':'' @ vers = rs_repository r @ '':'' @ rs_revision r" "repo \<noteq> []" "vers \<noteq> []"
  shows "\<exists>d'. build K D (inp\<lparr>di_repositories := [r\<lparr>rs_repository := repo, rs_revision := vers\<rparr>]\<rparr>) = Ok d'
     \<and> sd_id d' = sd_id d \<and> sd_repositories d' = [r\<lparr>rs_repository := repo, rs_revision := vers\<rparr>]"
proof -
  let ?r = "r\<lparr>rs_repository := repo, rs_revision := vers\<rparr>"
  have counts: "deck_counts (inp\<lparr>di_repositories := [?r]\<rparr>) = deck_counts (inp\<lparr>di_repositories := [r]\<rparr>)"
    by (simp add: deck_counts_def)
  have canonical: "deck_canonical K D [?r] fs sfs ev ls = deck_canonical K D [r] fs sfs ev ls" for fs sfs ev ls
    using assms(2) by (simp add: deck_canonical_def canonical_rows_def)
  have "check_repository r = Ok ()"
    using assms(1) by (auto elim!: build_Ok_elim simp: bind_o_Ok)
  then have repo_ok: "check_repository ?r = Ok ()" "check_repository r = Ok ()"
    using assms(3,4) by (simp_all add: check_repository_def bind_o_Ok)
  have uniq: "deck_unique [x] kind = Ok ()" for x kind by simp
  note steps = deck_steps_one_repository(1,3,4) [where r = r and x = repo and y = vers]
    deck_steps_one_repository(2)
  have "build K D (inp\<lparr>di_repositories := [?r]\<rparr>) = Ok (d\<lparr>sd_repositories := [?r]\<rparr>)"
    using assms(1) unfolding build_def steps
    by (simp add: counts canonical repo_ok uniq Let_def bind_o_Ok split: if_splits) (auto simp: bind_o_Ok)
  then show ?thesis by simp
qed

theorem deck_identity_conflates_repositories_witness:
  "\<exists>d d'. build sample_kernel sample_debug (sample_input ''a:b'' ''c'') = Ok d
     \<and> build sample_kernel sample_debug (sample_input ''a'' ''b:c'') = Ok d'
     \<and> sd_repositories d \<noteq> sd_repositories d' \<and> sd_id d = sd_id d'"
proof -
  let ?r = "\<lparr>rs_owner = ''o'', rs_repository = ''a:b'', rs_revision = ''c''\<rparr>"
  have inp: "sample_input ''a:b'' ''c'' = (sample_input [] [])\<lparr>di_repositories := [?r]\<rparr>"
    "sample_input ''a'' ''b:c'' = (sample_input [] [])\<lparr>di_repositories := [?r\<lparr>rs_repository := ''a'', rs_revision := ''b:c''\<rparr>]\<rparr>"
    by (simp_all add: sample_input_def)
  have "\<exists>d. build sample_kernel sample_debug (sample_input ''a:b'' ''c'') = Ok d
      \<and> sd_repositories d = di_repositories (sample_input ''a:b'' ''c'')"
    by (rule Ok_cases_intro) code_simp
  then obtain d where d: "build sample_kernel sample_debug (sample_input ''a:b'' ''c'') = Ok d"
    "sd_repositories d = [?r]" by (auto simp: sample_input_def)
  from deck_identity_conflates_repositories [OF d(1) [unfolded inp(1)], of "''a''" "''b:c''"] d inp
  show ?thesis by auto
qed

end
