(* ===== verification/Refine_Model.thy ===== *)
theory Refine_Model
  imports Roadmap_Datum
begin

text \<open>
  \<open>sim-roadmap-refine\<close>: \<open>proposal.rs\<close>, \<open>profile.rs\<close>, \<open>rank.rs\<close>, \<open>policy.rs\<close>, \<open>atomicity.rs\<close>,
  \<open>certificate.rs\<close>, \<open>diff.rs\<close> and \<open>refusal.rs\<close>. Profile components are 32-bit counts that saturate
  at the maximum; profiles are compared component by component in a fixed order, and the
  comparison is shown to be a well-founded lexicographic order.
\<close>

section \<open>Groundings and proposals\<close>

datatype 'c grounding_id = GroundingId (gdid: 'c)

record 'c grounding =
  gr_id :: "'c grounding_id"
  gr_resolved :: "source_query list"

definition refine_query_datum :: "('s, 'c) kernel \<Rightarrow> source_query \<Rightarrow> 's datum" where
  "refine_query_datum K query =
     (let (kind, i) = (case query of QAnchor i \<Rightarrow> (''anchor'', i) | QExcerpt i \<Rightarrow> (''excerpt'', i)
                       | QSpecimen i \<Rightarrow> (''specimen'', i)) in
      DNode (sym_qualified K ''roadmap-refine'' ''SourceQueryV1'')
        [(sym_new K ''kind'', DSymbol (sym_new K kind)), (sym_new K ''id'', DString i)])"

definition grounding_new :: "('s, 'c) kernel \<Rightarrow> source_query list \<Rightarrow> (string, 'c grounding) outcome" where
  "grounding_new K resolved =
     bind_o (datum_content_id K (DNode (sym_qualified K ''roadmap-refine'' ''grounding-v1'')
        [(sym_new K ''resolved'', DVector (map (refine_query_datum K) resolved))]))
       (\<lambda>i. Ok \<lparr>gr_id = GroundingId i, gr_resolved = resolved\<rparr>)"

record child_contribution =
  cb_child :: phase_id
  cb_obligation :: obligation_id

record ('s, 'c) refinement_proposal =
  pp_base_revision :: "'c roadmap_revision_id"
  pp_parent :: phase_id
  pp_expected_parent :: 'c
  pp_expected_grounding :: "'c grounding_id"
  pp_children :: "('s, 'c) phase_spec list"
  pp_coverage :: "(obligation_id, child_contribution list) btmap"
  pp_rationale :: string

definition phase_fingerprint :: "('s, 'c) kernel \<Rightarrow> ('s, 'c) phase_spec \<Rightarrow> (string, 'c) outcome" where
  "phase_fingerprint K phase =
     datum_content_id K (DNode (sym_qualified K ''roadmap-refine'' ''PhaseFingerprintV2'')
       [(sym_new K ''phase'', phase_datum K phase)])"

section \<open>Work profiles\<close>

record work_profile =
  wp_unknowns :: "32 word"
  wp_mutable_owners :: "32 word"
  wp_packages :: "32 word"
  wp_change_targets :: "32 word"
  wp_promises :: "32 word"
  wp_acceptance_groups :: "32 word"
  wp_checkpoints :: "32 word"

text \<open>\<open>u32::try_from(value).unwrap_or(u32::MAX)\<close>.\<close>

definition count32 :: "nat \<Rightarrow> 32 word" where
  "count32 value = (if value < 2 ^ 32 then of_nat value else - 1)"

lemma count32_code [code]:
  "count32 value = (if int value < 4294967296 then word_of_int (int value) else - 1)"
proof -
  have "value < 2 ^ 32 \<longleftrightarrow> int value < 4294967296" by simp
  then show ?thesis by (simp add: count32_def)
qed

definition unresolved :: "('s, 'c) phase_spec \<Rightarrow> 'c grounding \<Rightarrow> source_query list" where
  "unresolved phase grounding =
     filter (\<lambda>query. query \<notin> set (gr_resolved grounding)) (g_uses (ph_guide phase))"

definition derive_profile ::
  "('s, 'c) phase_spec \<Rightarrow> ('s, 'c) admitted_phase \<Rightarrow> 'c grounding \<Rightarrow> work_profile" where
  "derive_profile phase admitted grounding =
     (let packages = fset_of_list (List.map_filter ct_package (g_change_targets (ph_guide phase))) in
      \<lparr>wp_unknowns = count32 (length (filter (\<lambda>query. query \<notin> set (gr_resolved grounding)) (g_uses (ph_guide phase)))),
       wp_mutable_owners = count32 (fcard (oe_mutable (effective_owners admitted))),
       wp_packages = count32 (fcard packages),
       wp_change_targets = count32 (fcard (effective_changes admitted)),
       wp_promises = count32 (length (g_promises (ph_guide phase))),
       wp_acceptance_groups = count32 (bt_len (ac_statements (ph_acceptance phase))),
       wp_checkpoints = (case ph_body phase of Leaf checkpoints \<Rightarrow> count32 (length checkpoints)
                         | Composite _ \<Rightarrow> 0)\<rparr>)"

text \<open>
  What a profile counts, written without the code's collections: the seven sizes, each cut off at
  the largest \<open>u32\<close>.
\<close>

definition counts :: "32 word \<Rightarrow> nat \<Rightarrow> bool" where
  "counts w n \<longleftrightarrow> unat w = min n (2 ^ 32 - 1)"

definition profile_counts ::
  "('s, 'c) phase_spec \<Rightarrow> ('s, 'c) admitted_phase \<Rightarrow> 'c grounding \<Rightarrow> work_profile \<Rightarrow> bool" where
  "profile_counts phase admitted grounding w \<longleftrightarrow>
     counts (wp_unknowns w)
       (card {i. i < length (g_uses (ph_guide phase)) \<and> g_uses (ph_guide phase) ! i \<notin> set (gr_resolved grounding)})
     \<and> counts (wp_mutable_owners w) (card (fset (oe_mutable (effective_owners admitted))))
     \<and> counts (wp_packages w) (card {p. \<exists>target \<in> set (g_change_targets (ph_guide phase)). ct_package target = Some p})
     \<and> counts (wp_change_targets w) (card (fset (effective_changes admitted)))
     \<and> counts (wp_promises w) (length (g_promises (ph_guide phase)))
     \<and> counts (wp_acceptance_groups w) (card (dom (bt_get (ac_statements (ph_acceptance phase)))))
     \<and> (\<forall>checkpoints. ph_body phase = Leaf checkpoints \<longrightarrow> counts (wp_checkpoints w) (length checkpoints))
     \<and> (\<forall>children. ph_body phase = Composite children \<longrightarrow> wp_checkpoints w = 0)"

lemma counts_count32: "counts (count32 n) n"
proof -
  have "unat (- 1 :: 32 word) = 2 ^ 32 - 1" by (simp add: unsigned_minus_1_eq_mask mask_eq_exp_minus_1)
  then show ?thesis by (auto simp: counts_def count32_def unat_of_nat take_bit_nat_eq_self)
qed

lemma derive_profile_counts: "profile_counts phase admitted grounding (derive_profile phase admitted grounding)"
proof -
  have "fset (fset_of_list (List.map_filter ct_package targets)) = {p. \<exists>t \<in> set targets. ct_package t = Some p}"
    for targets :: "change_target list"
    by (induction targets) (auto simp: map_filter_simps fset_of_list.rep_eq split: option.splits)
  then show ?thesis
    by (simp add: profile_counts_def derive_profile_def Let_def counts_count32 fcard.rep_eq bt_len_card
        length_filter_conv_card)
qed

section \<open>Ranks\<close>

datatype rank_component = Unknowns | MutableOwners | Packages | ChangeTargets | Promises
  | AcceptanceGroups | Checkpoints

definition ORDINAL_COMPONENTS :: "rank_component list" where
  "ORDINAL_COMPONENTS =
     [Unknowns, MutableOwners, Packages, ChangeTargets, Promises, AcceptanceGroups, Checkpoints]"

datatype rank_relation =
    RankEqual
  | Lower rank_component "32 word" "32 word"
  | Higher rank_component "32 word" "32 word"

fun component_value :: "work_profile \<Rightarrow> rank_component \<Rightarrow> 32 word" where
  "component_value p Unknowns = wp_unknowns p"
| "component_value p MutableOwners = wp_mutable_owners p"
| "component_value p Packages = wp_packages p"
| "component_value p ChangeTargets = wp_change_targets p"
| "component_value p Promises = wp_promises p"
| "component_value p AcceptanceGroups = wp_acceptance_groups p"
| "component_value p Checkpoints = wp_checkpoints p"

fun compare_components :: "work_profile \<Rightarrow> work_profile \<Rightarrow> rank_component list \<Rightarrow> rank_relation" where
  "compare_components child parent [] = RankEqual"
| "compare_components child parent (c # cs) =
     (let cv = component_value child c; pv = component_value parent c in
      if cv < pv then Lower c cv pv
      else if pv < cv then Higher c cv pv
      else compare_components child parent cs)"

definition compare_profiles :: "work_profile \<Rightarrow> work_profile \<Rightarrow> rank_relation" where
  "compare_profiles child parent = compare_components child parent ORDINAL_COMPONENTS"

definition is_lower :: "rank_relation \<Rightarrow> bool" where
  "is_lower r = (case r of Lower _ _ _ \<Rightarrow> True | _ \<Rightarrow> False)"

section \<open>Policies and atomicity\<close>

record tractability_policy =
  tp_revision :: string
  tp_maximum :: work_profile
  tp_maximum_children :: nat

record policy_breach =
  pb_component :: rank_component
  pb_actual :: "32 word"
  pb_maximum :: "32 word"

definition breaches :: "tractability_policy \<Rightarrow> work_profile \<Rightarrow> policy_breach list" where
  "breaches policy profile =
     List.map_filter (\<lambda>c.
       let actual = component_value profile c; maximum = component_value (tp_maximum policy) c in
       if maximum < actual then Some \<lparr>pb_component = c, pb_actual = actual, pb_maximum = maximum\<rparr> else None)
       ORDINAL_COMPONENTS"

datatype atomicity =
    Atomic work_profile
  | MustDescend work_profile "policy_breach list"
  | Ungrounded "source_query list"

definition compute_atomicity ::
  "('s, 'c) phase_spec \<Rightarrow> ('s, 'c) admitted_phase \<Rightarrow> 'c grounding \<Rightarrow> tractability_policy \<Rightarrow> atomicity" where
  "compute_atomicity phase admitted grounding policy =
     (let open_queries = unresolved phase grounding in
      if open_queries \<noteq> [] then Ungrounded open_queries
      else let profile = derive_profile phase admitted grounding; bs = breaches policy profile in
        if bs = [] then Atomic profile else MustDescend profile bs)"

section \<open>Certificates and refusals\<close>

record coverage_report =
  cr_obligations :: "(obligation_id, phase_id list) btmap"
  cr_complete :: bool

record descent_certificate =
  dc_parent :: work_profile
  dc_children :: "(phase_id, work_profile) btmap"
  dc_ordering :: "(phase_id, rank_relation) btmap"
  dc_coverage :: coverage_report

definition certificate_verify :: "descent_certificate \<Rightarrow> bool" where
  "certificate_verify cert \<longleftrightarrow>
     cr_complete (dc_coverage cert) \<and> 2 \<le> bt_len (dc_children cert)
     \<and> bt_len (dc_ordering cert) = bt_len (dc_children cert)
     \<and> list_all (\<lambda>i. case bt_get (dc_ordering cert) i of Some r \<Rightarrow> is_lower r | None \<Rightarrow> False)
         (bt_keys (dc_children cert))"

datatype refusal =
    StaleBase
  | MissingParent phase_id
  | StaleParent
  | StaleGrounding
  | UngroundedParent "source_query list"
  | ParentNotLeaf
  | TooFewChildren nat nat
  | TooManyChildren nat nat
  | InvalidRationale
  | DuplicateChild phase_id
  | InvalidChildParent phase_id
  | WidenedCeiling phase_id string
  | UngroundedGuide phase_id source_query
  | IncompleteCoverage obligation_id
  | InvalidCoverage obligation_id
  | NonDescending phase_id rank_relation
  | InvalidTree failure
  | DependencyCompilation string
  | OutputCompilation string
  | InvalidSuccessor failure

section \<open>Revision differences\<close>

datatype evidence_disposition = Candidate | ExactReusable | Invalidated

record revision_diff =
  rd_path :: string
  rd_evidence :: evidence_disposition

definition change_row :: "string \<Rightarrow> evidence_disposition \<Rightarrow> revision_diff" where
  "change_row path evidence = \<lparr>rd_path = path, rd_evidence = evidence\<rparr>"

definition changed_field ::
  "phase_id \<Rightarrow> string \<Rightarrow> evidence_disposition \<Rightarrow> bool \<Rightarrow> revision_diff list" where
  "changed_field i field disposition differs =
     (if differs then [change_row (''phases.'' @ i @ ''.'' @ field) disposition] else [])"

definition diff_fields :: "phase_id \<Rightarrow> ('s, 'c) phase_spec \<Rightarrow> ('s, 'c) phase_spec \<Rightarrow> revision_diff list" where
  "diff_fields i old new =
     changed_field i ''parent'' Invalidated (ph_parent old \<noteq> ph_parent new)
     @ changed_field i ''title'' Candidate (ph_title old \<noteq> ph_title new)
     @ changed_field i ''intent'' Invalidated (ph_intent old \<noteq> ph_intent new)
     @ changed_field i ''body'' Invalidated (ph_body old \<noteq> ph_body new)
     @ changed_field i ''dependencies'' Invalidated (ph_dependencies old \<noteq> ph_dependencies new)
     @ changed_field i ''owners'' Invalidated (ph_owners old \<noteq> ph_owners new)
     @ changed_field i ''resources'' Invalidated (ph_resources old \<noteq> ph_resources new)
     @ changed_field i ''effects'' Invalidated (ph_effects old \<noteq> ph_effects new)
     @ changed_field i ''capabilities'' Invalidated (ph_capabilities old \<noteq> ph_capabilities new)
     @ changed_field i ''changes'' Invalidated (ph_changes old \<noteq> ph_changes new)
     @ changed_field i ''acceptance'' Invalidated (ph_acceptance old \<noteq> ph_acceptance new)
     @ changed_field i ''coverage'' Candidate (ph_coverage old \<noteq> ph_coverage new)
     @ changed_field i ''outputs'' Invalidated (ph_outputs old \<noteq> ph_outputs new)
     @ changed_field i ''guide'' Invalidated (ph_guide old \<noteq> ph_guide new)
     @ changed_field i ''origin'' Invalidated (ph_origin old \<noteq> ph_origin new)"

definition diff_old ::
  "('s, 'c) roadmap_revision \<Rightarrow> phase_id \<times> ('s, 'c) phase_spec \<Rightarrow> revision_diff list" where
  "diff_old new entry =
     (case bt_get (sp_phases (rv_spec new)) (fst entry) of
        None \<Rightarrow> [change_row (''phases.'' @ fst entry) Invalidated]
      | Some new_phase \<Rightarrow>
          if snd entry \<noteq> new_phase then diff_fields (fst entry) (snd entry) new_phase
          else [change_row (''phases.'' @ fst entry) ExactReusable])"

definition diff_revisions ::
  "('s, 'c) roadmap_revision \<Rightarrow> ('s, 'c) roadmap_revision \<Rightarrow> revision_diff list" where
  "diff_revisions old new =
     sort_key rd_path
       (concat (map (diff_old new) (bt_entries (sp_phases (rv_spec old))))
        @ map (\<lambda>i. change_row (''phases.'' @ i) Candidate)
            (filter (\<lambda>i. \<not> bt_contains (sp_phases (rv_spec old)) i) (bt_keys (sp_phases (rv_spec new)))))"

section \<open>The order on profiles\<close>

definition profile_key :: "work_profile \<Rightarrow> nat list" where
  "profile_key p = map (\<lambda>c. unat (component_value p c)) ORDINAL_COMPONENTS"

lemma compare_components_Lower:
  "is_lower (compare_components a b cs) \<longleftrightarrow>
     (map (\<lambda>c. unat (component_value a c)) cs, map (\<lambda>c. unat (component_value b c)) cs) \<in> lex less_than"
proof (induction cs)
  case (Cons c cs)
  show ?case
    using Cons.IH
    by (cases "component_value a c" "component_value b c" rule: linorder_cases)
       (auto simp: is_lower_def Let_def word_less_nat_alt)
qed (simp add: is_lower_def)

lemma compare_profiles_Lower:
  "is_lower (compare_profiles a b) \<longleftrightarrow> (profile_key a, profile_key b) \<in> lex less_than"
  by (simp add: compare_profiles_def profile_key_def compare_components_Lower)

lemma wf_profile_order: "wf {(a, b). is_lower (compare_profiles a b)}"
proof -
  have "{(a, b). is_lower (compare_profiles a b)} = inv_image (lex less_than) profile_key"
    by (auto simp: compare_profiles_Lower)
  then show ?thesis by (simp add: wf_inv_image wf_lex)
qed

lemma compare_components_total:
  "(compare_components a b cs = RankEqual \<longleftrightarrow> (\<forall>c \<in> set cs. component_value a c = component_value b c))
   \<and> (is_lower (compare_components b a cs) \<longleftrightarrow> (\<exists>c x y. compare_components a b cs = Higher c x y))"
  by (induction cs) (auto simp: is_lower_def Let_def)

lemma all_components: "set ORDINAL_COMPONENTS = UNIV"
proof -
  have "c \<in> set ORDINAL_COMPONENTS" for c by (cases c) (simp_all add: ORDINAL_COMPONENTS_def)
  then show ?thesis by auto
qed

lemma profile_ext: "(\<forall>c. component_value a c = component_value b c) \<longleftrightarrow> a = (b :: work_profile)"
proof
  assume eq: "\<forall>c. component_value a c = component_value b c"
  show "a = b"
    using eq [rule_format, of Unknowns] eq [rule_format, of MutableOwners] eq [rule_format, of Packages]
      eq [rule_format, of ChangeTargets] eq [rule_format, of Promises] eq [rule_format, of AcceptanceGroups]
      eq [rule_format, of Checkpoints] by simp
qed simp

lemma is_lower_iff: "is_lower r \<longleftrightarrow> (\<exists>c x y. r = Lower c x y)"
  by (cases r) (auto simp: is_lower_def)

lemma breaches_Nil: "breaches policy profile = [] \<longleftrightarrow>
    (\<forall>c. component_value profile c \<le> component_value (tp_maximum policy) c)"
proof -
  have "(List.map_filter f xs = []) \<longleftrightarrow> (\<forall>x \<in> set xs. f x = None)" for f :: "rank_component \<Rightarrow> policy_breach option" and xs
    by (induction xs) (auto simp: List.map_filter_simps split: option.splits)
  then show ?thesis
    by (simp add: breaches_def Let_def all_components not_less)
qed

section \<open>Differences report every change\<close>

lemma diff_fields_Nil:
  "diff_fields i a b = [] \<longleftrightarrow> a\<lparr>ph_id := x\<rparr> = b\<lparr>ph_id := x\<rparr>"
  by (cases a; cases b) (simp add: diff_fields_def changed_field_def)

lemma diff_fields_not_reusable: "r \<in> set (diff_fields i a b) \<Longrightarrow> rd_evidence r \<noteq> ExactReusable"
  by (auto simp: diff_fields_def changed_field_def change_row_def split: if_splits)

lemma diff_old_reusable:
  assumes "ph_id (snd entry) = fst entry" "coherent (rv_spec new)"
  shows "(\<forall>r \<in> set (diff_old new entry). rd_evidence r = ExactReusable) \<longleftrightarrow>
     bt_get (sp_phases (rv_spec new)) (fst entry) = Some (snd entry)"
proof (cases "bt_get (sp_phases (rv_spec new)) (fst entry)")
  case None
  then show ?thesis by (simp add: diff_old_def change_row_def)
next
  case (Some np)
  have idn: "ph_id np = fst entry" using assms(2) Some by (simp add: coherent_def)
  show ?thesis
  proof (cases "snd entry = np")
    case True
    with Some show ?thesis by (simp add: diff_old_def change_row_def)
  next
    case False
    have "diff_fields (fst entry) (snd entry) np \<noteq> []"
    proof
      assume "diff_fields (fst entry) (snd entry) np = []"
      then have "(snd entry)\<lparr>ph_id := fst entry\<rparr> = np\<lparr>ph_id := fst entry\<rparr>" using diff_fields_Nil by blast
      with assms(1) idn False show False by (cases "snd entry"; cases np) simp
    qed
    then obtain r where "r \<in> set (diff_fields (fst entry) (snd entry) np)" by (meson last_in_set)
    with diff_fields_not_reusable Some False show ?thesis by (fastforce simp: diff_old_def)
  qed
qed

lemma diff_revisions_reusable:
  assumes "coherent (rv_spec old)" "coherent (rv_spec new)"
  shows "(\<forall>r \<in> set (diff_revisions old new). rd_evidence r = ExactReusable) \<longleftrightarrow>
     sp_phases (rv_spec old) = sp_phases (rv_spec new)"
proof -
  let ?o = "sp_phases (rv_spec old)" and ?n = "sp_phases (rv_spec new)"
  have one: "(\<forall>r \<in> set (diff_old new e). rd_evidence r = ExactReusable) \<longleftrightarrow> bt_get ?n (fst e) = Some (snd e)"
    if "e \<in> set (bt_entries ?o)" for e
    by (rule diff_old_reusable) (use assms that in \<open>auto simp: coherent_def bt_get_Some_iff\<close>)
  have "(\<forall>r \<in> set (diff_revisions old new). rd_evidence r = ExactReusable) \<longleftrightarrow>
      (\<forall>e \<in> set (bt_entries ?o). \<forall>r \<in> set (diff_old new e). rd_evidence r = ExactReusable)
      \<and> (\<forall>i \<in> set (bt_keys ?n). bt_contains ?o i)"
    unfolding diff_revisions_def set_sort set_append ball_Un set_concat set_map
    by (auto simp: change_row_def)
  also have "\<dots> \<longleftrightarrow> (\<forall>e \<in> set (bt_entries ?o). bt_get ?n (fst e) = Some (snd e))
      \<and> (\<forall>i \<in> set (bt_keys ?n). bt_contains ?o i)"
    using one by blast
  also have "\<dots> \<longleftrightarrow> (\<forall>k v. bt_get ?o k = Some v \<longrightarrow> bt_get ?n k = Some v) \<and> dom (bt_get ?n) \<subseteq> dom (bt_get ?o)"
    by (fastforce simp: bt_get_Some_iff set_bt_keys bt_contains_def subset_iff domIff)
  also have "\<dots> \<longleftrightarrow> bt_get ?o = bt_get ?n"
    by (auto simp: fun_eq_iff subset_iff dom_def) (metis not_Some_eq)
  finally show ?thesis using bt_ext by metis
qed

end
