(* ===== verification/Refine_Apply.thy ===== *)
theory Refine_Apply
  imports Refine_Model
begin

text \<open>
  \<open>sim-roadmap-refine/src/apply.rs\<close>: the replacement of one grounded leaf by a smaller finite tree.
  The caller's \<open>CompilationHooks\<close> are a record of two functions. An indexed map access is
  \<open>expect\<close>, \<open>unreachable!\<close> is \<open>Panic\<close>.
\<close>

section \<open>Applying a refinement\<close>

record ('s, 'c) compilation_hooks =
  hk_compile_dependencies :: "('s, 'c) roadmap_revision \<Rightarrow> (string, unit) outcome"
  hk_compile_outputs :: "('s, 'c) roadmap_revision \<Rightarrow> (string, unit) outcome"

definition noop_hooks :: "('s, 'c) compilation_hooks" where
  "noop_hooks = \<lparr>hk_compile_dependencies = (\<lambda>_. Ok ()), hk_compile_outputs = (\<lambda>_. Ok ())\<rparr>"

record ('s, 'c) applied_refinement =
  ap_successor :: "('s, 'c) roadmap_revision"
  ap_certificate :: descent_certificate

definition ceiling ::
  "phase_id \<Rightarrow> string \<Rightarrow> string fset \<Rightarrow> string fset \<Rightarrow> (refusal, unit) outcome" where
  "ceiling i field child allowed =
     (if child \<noteq> {||} \<and> \<not> child |\<subseteq>| allowed then Err (WidenedCeiling i field) else Ok ())"

definition check_ceilings ::
  "('s, 'c) phase_spec \<Rightarrow> ('s, 'c) phase_spec \<Rightarrow> (refusal, unit) outcome" where
  "check_ceilings parent child =
     (let i = ph_id child in
      bind_o (ceiling i ''owners.mutable'' (oe_mutable (ph_owners child)) (oe_mutable (ph_owners parent))) (\<lambda>_.
      bind_o (ceiling i ''owners.read_only'' (oe_read_only (ph_owners child))
                (oe_mutable (ph_owners parent) |\<union>| oe_read_only (ph_owners parent))) (\<lambda>_.
      bind_o (ceiling i ''resources'' (ph_resources child) (ph_resources parent)) (\<lambda>_.
      bind_o (ceiling i ''capabilities'' (ph_capabilities child) (ph_capabilities parent)) (\<lambda>_.
      bind_o (ceiling i ''effects'' (ph_effects child) (ph_effects parent)) (\<lambda>_.
      ceiling i ''change-targets'' (ph_changes child) (ph_changes parent)))))))"

definition check_child ::
  "'c grounding \<Rightarrow> ('s, 'c) refinement_proposal \<Rightarrow> ('s, 'c) phase_spec \<Rightarrow> phase_id fset \<Rightarrow> ('s, 'c) phase_spec
     \<Rightarrow> (refusal, phase_id fset) outcome" where
  "check_child grounding proposal parent ids child =
     (if ph_id child |\<in>| ids then Err (DuplicateChild (ph_id child))
      else if ph_parent child \<noteq> Some (pp_parent proposal) then Err (InvalidChildParent (ph_id child))
      else bind_o (check_ceilings parent child) (\<lambda>_.
        case find (\<lambda>q. q \<notin> set (gr_resolved grounding)) (g_uses (ph_guide child)) of
          Some query \<Rightarrow> Err (UngroundedGuide (ph_id child) query)
        | None \<Rightarrow> Ok (finsert (ph_id child) ids)))"

definition contribution_marker ::
  "('s, 'c) refinement_proposal \<Rightarrow> obligation_id \<Rightarrow> obligation_coverage list \<Rightarrow> child_contribution
     \<Rightarrow> (refusal, obligation_coverage list) outcome" where
  "contribution_marker proposal obligation markers contribution =
     (case find (\<lambda>c. ph_id c = cb_child contribution) (pp_children proposal) of
        None \<Rightarrow> Err (InvalidCoverage obligation)
      | Some child \<Rightarrow>
          if \<not> bt_contains (ac_statements (ph_acceptance child)) (cb_obligation contribution)
          then Err (InvalidCoverage obligation)
          else Ok (markers @ [Contributes obligation (cb_child contribution) (cb_obligation contribution)]))"

definition obligation_markers ::
  "('s, 'c) refinement_proposal \<Rightarrow> obligation_coverage list \<Rightarrow> obligation_id
     \<Rightarrow> (refusal, obligation_coverage list) outcome" where
  "obligation_markers proposal markers obligation =
     (case bt_get (pp_coverage proposal) obligation of
        None \<Rightarrow> Err (IncompleteCoverage obligation)
      | Some contributions \<Rightarrow>
          if contributions = [] then Err (IncompleteCoverage obligation)
          else try_fold (contribution_marker proposal obligation) markers contributions)"

definition coverage_markers ::
  "('s, 'c) phase_spec \<Rightarrow> ('s, 'c) refinement_proposal \<Rightarrow> (refusal, obligation_coverage list) outcome" where
  "coverage_markers parent proposal =
     bind_o (try_fold (obligation_markers proposal) [] (bt_keys (ac_statements (ph_acceptance parent)))) (\<lambda>markers.
     case find (\<lambda>i. \<not> bt_contains (ac_statements (ph_acceptance parent)) i) (bt_keys (pp_coverage proposal)) of
       Some extra \<Rightarrow> Err (InvalidCoverage extra)
     | None \<Rightarrow> Ok markers)"

text \<open>The successor specification: the parent becomes composite and the children are inserted.\<close>

definition refined_spec ::
  "('s, 'c) roadmap_spec \<Rightarrow> ('s, 'c) refinement_proposal \<Rightarrow> ('s, 'c) phase_spec \<Rightarrow> obligation_coverage list
     \<Rightarrow> ('s, 'c) roadmap_spec" where
  "refined_spec spec proposal parent coverage =
     (let parent' = parent\<lparr>ph_body := Composite (map ph_id (pp_children proposal)), ph_coverage := coverage\<rparr>;
          phases = bt_insert (pp_parent proposal) parent' (sp_phases spec) in
      spec\<lparr>sp_phases := foldl (\<lambda>m c. bt_insert (ph_id c) c m) phases (pp_children proposal)\<rparr>)"

type_synonym child_ranks = "(phase_id, work_profile) btmap \<times> (phase_id, rank_relation) btmap"

definition rank_child ::
  "'c grounding \<Rightarrow> work_profile \<Rightarrow> ('s, 'c) roadmap_spec \<Rightarrow> ('s, 'c) admitted_roadmap \<Rightarrow> child_ranks \<Rightarrow> phase_id
     \<Rightarrow> (refusal, child_ranks) outcome" where
  "rank_child grounding parent_profile spec admitted ranks child_id =
     bind_o (expect (bt_get (sp_phases spec) child_id)) (\<lambda>child.
     bind_o (expect (bt_get (adm_phases admitted) child_id)) (\<lambda>entry.
     let profile = derive_profile child entry grounding;
         relation = compare_profiles profile parent_profile in
     if \<not> is_lower relation then Err (NonDescending child_id relation)
     else Ok (bt_insert child_id profile (fst ranks), bt_insert child_id relation (snd ranks))))"

definition refine_guards ::
  "('s, 'c) kernel \<Rightarrow> ('s, 'c) roadmap_revision \<Rightarrow> 'c grounding \<Rightarrow> tractability_policy
     \<Rightarrow> ('s, 'c) refinement_proposal \<Rightarrow> (refusal, ('s, 'c) phase_spec) outcome" where
  "refine_guards K base grounding policy proposal =
     (if pp_base_revision proposal \<noteq> rv_id base then Err StaleBase
      else bind_o (ok_or (bt_get (sp_phases (rv_spec base)) (pp_parent proposal))
                     (MissingParent (pp_parent proposal))) (\<lambda>parent.
      bind_o (map_err OutputCompilation (phase_fingerprint K parent)) (\<lambda>expected_parent.
      if pp_expected_parent proposal \<noteq> expected_parent then Err StaleParent
      else if pp_expected_grounding proposal \<noteq> gr_id grounding then Err StaleGrounding
      else if unresolved parent grounding \<noteq> [] then Err (UngroundedParent (unresolved parent grounding))
      else if (case ph_body parent of Leaf _ \<Rightarrow> False | Composite _ \<Rightarrow> True) then Err ParentNotLeaf
      else if length (pp_children proposal) < 2 then Err (TooFewChildren (length (pp_children proposal)) 2)
      else let maximum = min (tp_maximum_children policy) (children_per_phase (sp_limits (rv_spec base))) in
      if maximum < length (pp_children proposal)
      then Err (TooManyChildren (length (pp_children proposal)) maximum)
      else if trim_is_empty (pp_rationale proposal) then Err InvalidRationale
      else Ok parent)))"

definition apply_refinement ::
  "('s, 'c) kernel \<Rightarrow> ('s, 'c) roadmap_revision \<Rightarrow> 'c grounding \<Rightarrow> tractability_policy
     \<Rightarrow> ('s, 'c) refinement_proposal \<Rightarrow> ('s, 'c) compilation_hooks
     \<Rightarrow> (refusal, ('s, 'c) applied_refinement) outcome" where
  "apply_refinement K base grounding policy proposal hooks =
     bind_o (refine_guards K base grounding policy proposal) (\<lambda>parent.
     bind_o (map_err InvalidTree (admit (rv_spec base))) (\<lambda>admitted.
     bind_o (expect (bt_get (adm_phases admitted) (pp_parent proposal))) (\<lambda>parent_entry.
     let parent_profile = derive_profile parent parent_entry grounding in
     bind_o (try_fold (check_child grounding proposal parent) {||} (pp_children proposal)) (\<lambda>_.
     bind_o (coverage_markers parent proposal) (\<lambda>coverage.
     let spec = refined_spec (rv_spec base) proposal parent coverage in
     bind_o (map_err InvalidTree (admit spec)) (\<lambda>successor_admitted.
     bind_o (expect (bt_get (sp_phases spec) (pp_parent proposal))) (\<lambda>new_parent.
     bind_o (case ph_body new_parent of Composite children \<Rightarrow> Ok children | Leaf _ \<Rightarrow> Panic) (\<lambda>child_ids.
     bind_o (try_fold (rank_child grounding parent_profile spec successor_admitted)
               (bt_empty, bt_empty) child_ids) (\<lambda>ranks.
     bind_o (map_err InvalidSuccessor (text_id_new ''ChangeId'' (''refine-'' @ pp_parent proposal))) (\<lambda>change_id.
     bind_o (map_err InvalidSuccessor (revision_new K (Some (rv_id base)) spec
               \<lparr>rc_id = change_id, rc_rationale = pp_rationale proposal\<rparr>)) (\<lambda>successor.
     bind_o (map_err DependencyCompilation (hk_compile_dependencies hooks successor)) (\<lambda>_.
     bind_o (map_err OutputCompilation (hk_compile_outputs hooks successor)) (\<lambda>_.
     Ok \<lparr>ap_successor = successor,
         ap_certificate =
           \<lparr>dc_parent = parent_profile, dc_children = fst ranks, dc_ordering = snd ranks,
            dc_coverage =
              \<lparr>cr_obligations = bt_of_list (map (\<lambda>(i, vs). (i, map cb_child vs)) (bt_entries (pp_coverage proposal))),
               cr_complete = True\<rparr>\<rparr>\<rparr>)))))))))))))"

section \<open>Inversion\<close>

lemma refine_guards_Ok:
  assumes "refine_guards K base grounding policy proposal = Ok parent"
  shows "pp_base_revision proposal = rv_id base"
    and "bt_get (sp_phases (rv_spec base)) (pp_parent proposal) = Some parent"
    and "phase_fingerprint K parent = Ok (pp_expected_parent proposal)"
    and "pp_expected_grounding proposal = gr_id grounding"
    and "set (g_uses (ph_guide parent)) \<subseteq> set (gr_resolved grounding)"
    and "\<exists>cps. ph_body parent = Leaf cps"
    and "2 \<le> length (pp_children proposal)"
    and "length (pp_children proposal) \<le> tp_maximum_children policy"
  using assms
  by (auto simp: refine_guards_def bind_o_Ok Let_def unresolved_def filter_empty_conv
      split: if_splits phase_body.splits)

lemma composite_children_Ok:
  "(case b of Leaf _ \<Rightarrow> Panic | Composite cs \<Rightarrow> Ok cs) = Ok xs \<longleftrightarrow> b = Composite xs"
  by (cases b) auto

lemma apply_refinement_Ok:
  assumes "apply_refinement K base grounding policy proposal hooks = Ok r"
  obtains parent admitted entry coverage sadm np child_ids ranks ch where
    "refine_guards K base grounding policy proposal = Ok parent"
    "admit (rv_spec base) = Ok admitted"
    "bt_get (adm_phases admitted) (pp_parent proposal) = Some entry"
    "\<exists>ids. try_fold (check_child grounding proposal parent) {||} (pp_children proposal) = Ok ids"
    "coverage_markers parent proposal = Ok coverage"
    "admit (refined_spec (rv_spec base) proposal parent coverage) = Ok sadm"
    "bt_get (sp_phases (refined_spec (rv_spec base) proposal parent coverage)) (pp_parent proposal) = Some np"
    "ph_body np = Composite child_ids"
    "try_fold (rank_child grounding (derive_profile parent entry grounding)
        (refined_spec (rv_spec base) proposal parent coverage) sadm) (bt_empty, bt_empty) child_ids = Ok ranks"
    "revision_new K (Some (rv_id base)) (refined_spec (rv_spec base) proposal parent coverage)
        \<lparr>rc_id = ch, rc_rationale = pp_rationale proposal\<rparr> = Ok (ap_successor r)"
    "dc_parent (ap_certificate r) = derive_profile parent entry grounding"
    "dc_children (ap_certificate r) = fst ranks" "dc_ordering (ap_certificate r) = snd ranks"
    "cr_complete (dc_coverage (ap_certificate r))"
  using assms unfolding apply_refinement_def Let_def
  by (clarsimp simp: bind_o_Ok composite_children_Ok)

lemma check_child_Ok:
  "check_child grounding proposal parent A c = Ok B \<longleftrightarrow>
     ph_id c |\<notin>| A \<and> ph_parent c = Some (pp_parent proposal) \<and> check_ceilings parent c = Ok ()
     \<and> set (g_uses (ph_guide c)) \<subseteq> set (gr_resolved grounding) \<and> B = finsert (ph_id c) A"
proof -
  have "find (\<lambda>q. q \<notin> set (gr_resolved grounding)) (g_uses (ph_guide c)) = None
      \<longleftrightarrow> set (g_uses (ph_guide c)) \<subseteq> set (gr_resolved grounding)"
    by (auto simp: find_None_iff)
  then show ?thesis by (auto simp: check_child_def bind_o_Ok split: option.splits)
qed

lemma check_children_Ok:
  assumes "try_fold (check_child grounding proposal parent) A children = Ok ids"
  shows "distinct (map ph_id children) \<and> set (map ph_id children) \<inter> fset A = {}
     \<and> (\<forall>c \<in> set children. ph_parent c = Some (pp_parent proposal)
          \<and> set (g_uses (ph_guide c)) \<subseteq> set (gr_resolved grounding))"
  using assms
proof (induction children arbitrary: A)
  case (Cons c cs)
  from Cons.prems have "ph_id c |\<notin>| A" "ph_parent c = Some (pp_parent proposal)"
    "set (g_uses (ph_guide c)) \<subseteq> set (gr_resolved grounding)"
    and rest: "try_fold (check_child grounding proposal parent) (finsert (ph_id c) A) cs = Ok ids"
    by (auto simp: check_child_Ok bind_o_Ok)
  with Cons.IH [OF rest] show ?case by auto
qed simp

section \<open>The successor specification\<close>

lemma insert_children_get:
  assumes "distinct (map ph_id cs)"
  shows "bt_get (foldl (\<lambda>m c. bt_insert (ph_id c) c m) m cs) k =
     (case find (\<lambda>c. ph_id c = k) cs of Some c \<Rightarrow> Some c | None \<Rightarrow> bt_get m k)"
  using assms
proof (induction cs arbitrary: m)
  case (Cons c cs)
  show ?case
  proof (cases "ph_id c = k")
    case True
    then have "find (\<lambda>c. ph_id c = k) cs = None"
      using Cons.prems by (auto simp: find_None_iff) (metis imageI)
    with Cons True show ?thesis by simp
  next
    case False
    with Cons show ?thesis by (simp split: option.splits)
  qed
qed simp

lemma find_child:
  assumes "distinct (map ph_id cs)" "c \<in> set cs"
  shows "find (\<lambda>d. ph_id d = ph_id c) cs = Some c"
  using assms by (induction cs) auto

lemma refined_get:
  assumes "distinct (map ph_id (pp_children proposal))"
  shows "bt_get (sp_phases (refined_spec spec proposal parent coverage)) k =
     (case find (\<lambda>c. ph_id c = k) (pp_children proposal) of
        Some c \<Rightarrow> Some c
      | None \<Rightarrow> if k = pp_parent proposal
                then Some (parent\<lparr>ph_body := Composite (map ph_id (pp_children proposal)), ph_coverage := coverage\<rparr>)
                else bt_get (sp_phases spec) k)"
  by (simp add: refined_spec_def Let_def insert_children_get [OF assms] split: option.splits)

lemma refined_limits [simp]:
  "sp_root (refined_spec spec proposal parent coverage) = sp_root spec"
  "sp_limits (refined_spec spec proposal parent coverage) = sp_limits spec"
  by (simp_all add: refined_spec_def Let_def)

lemma refined_coherent:
  assumes "coherent spec" "distinct (map ph_id (pp_children proposal))"
    "bt_get (sp_phases spec) (pp_parent proposal) = Some parent"
  shows "coherent (refined_spec spec proposal parent coverage)"
  unfolding coherent_def
proof (intro allI impI)
  fix k ph
  assume "bt_get (sp_phases (refined_spec spec proposal parent coverage)) k = Some ph"
  then show "ph_id ph = k"
    using assms(1,3)
    by (auto simp: refined_get [OF assms(2)] coherent_def find_Some_iff split: option.splits if_splits)
qed

text \<open>
  The children of an admitted refinement are new phases: if one of them replaced a phase of the
  base, the first replaced phase on a path from the root would be listed both by its old parent and
  by the refined leaf.
\<close>

lemma children_fresh:
  assumes base: "tree_validate spec = Ok t" and coh: "coherent spec"
    and par: "bt_get (sp_phases spec) (pp_parent proposal) = Some parent" "ph_body parent = Leaf cps"
    and dist: "distinct (map ph_id (pp_children proposal))"
    and parents: "\<forall>c \<in> set (pp_children proposal). ph_parent c = Some (pp_parent proposal)"
    and succ: "tree_validate (refined_spec spec proposal parent coverage) = Ok t'"
    and c: "c \<in> set (pp_children proposal)"
  shows "\<not> bt_contains (sp_phases spec) (ph_id c)"
proof
  let ?C = "ph_id ` set (pp_children proposal)" and ?S = "refined_spec spec proposal parent coverage"
  note get = refined_get [OF dist]
  assume "bt_contains (sp_phases spec) (ph_id c)"
  from tree_validate_path [OF base this] obtain p where p: "tree_path spec p (ph_id c)" by blast
  then have "last p \<in> set p" "last p = ph_id c" using last_in_set [of p] by (simp_all add: tree_path_def)
  then have "\<exists>e \<in> set p. e \<in> ?C" using c by auto
  then obtain ys e zs where split: "p = ys @ e # zs" "e \<in> ?C" "\<forall>y \<in> set ys. y \<notin> ?C"
    using split_list_first_prop [of p "\<lambda>x. x \<in> ?C"] by blast
  from split(2) obtain d where d: "d \<in> set (pp_children proposal)" "ph_id d = e" by blast
  have e: "bt_get (sp_phases ?S) e = Some d" using find_child [OF dist d(1)] d(2) by (simp add: get)
  show False
  proof (cases ys rule: rev_cases)
    case Nil
    then have "e = sp_root spec" using p split(1) by (simp add: tree_path_def)
    moreover from succ obtain root where "bt_get (sp_phases ?S) (sp_root ?S) = Some root" "ph_parent root = None"
      by (elim tree_validate_Ok_elim)
    ultimately show False using e parents d(1) by simp
  next
    case (snoc ys' b)
    then have edge: "lists_child spec b e"
      using p split(1) by (auto simp: tree_path_def successively_append_iff)
    have notC: "b \<notin> ?C" using split(3) snoc by simp
    have "b \<noteq> pp_parent proposal" using edge par by (auto simp: lists_child_def)
    moreover have "find (\<lambda>c. ph_id c = b) (pp_children proposal) = None"
      using notC by (auto simp: find_None_iff)
    ultimately have same: "bt_get (sp_phases ?S) b = bt_get (sp_phases spec) b" by (simp add: get)
    with edge obtain bp where bp: "bt_get (sp_phases ?S) b = Some bp" "e \<in> set (kids bp)"
      by (auto simp: lists_child_kids)
    have "ph_id bp = b" using bp(1) same coh by (simp add: coherent_def)
    with tree_validate_declared(1) [OF succ bp] e have "ph_parent d = Some b" by (simp add: child_ok_def)
    with parents d(1) \<open>b \<noteq> pp_parent proposal\<close> show False by auto
  qed
qed

lemma rank_children_Ok:
  assumes "try_fold (rank_child grounding pf spec adm) ranks ids = Ok ranks'"
  shows "dom (bt_get (fst ranks')) = dom (bt_get (fst ranks)) \<union> set ids"
    and "dom (bt_get (snd ranks')) = dom (bt_get (snd ranks)) \<union> set ids"
    and "\<forall>i \<in> set ids. \<exists>child entry. bt_get (sp_phases spec) i = Some child
          \<and> bt_get (adm_phases adm) i = Some entry
          \<and> bt_get (fst ranks') i = Some (derive_profile child entry grounding)
          \<and> bt_get (snd ranks') i = Some (compare_profiles (derive_profile child entry grounding) pf)
          \<and> is_lower (compare_profiles (derive_profile child entry grounding) pf)"
proof -
  have step: "rank_child grounding pf spec adm r i = Ok r' \<longleftrightarrow>
      (\<exists>child entry. bt_get (sp_phases spec) i = Some child \<and> bt_get (adm_phases adm) i = Some entry
        \<and> is_lower (compare_profiles (derive_profile child entry grounding) pf)
        \<and> r' = (bt_insert i (derive_profile child entry grounding) (fst r),
                bt_insert i (compare_profiles (derive_profile child entry grounding) pf) (snd r)))" for r i r'
    by (auto simp: rank_child_def bind_o_Ok Let_def split: if_splits)
  have "dom (bt_get (fst ranks')) = dom (bt_get (fst ranks)) \<union> set ids
      \<and> dom (bt_get (snd ranks')) = dom (bt_get (snd ranks)) \<union> set ids
      \<and> (\<forall>i \<in> set ids. \<exists>child entry. bt_get (sp_phases spec) i = Some child
          \<and> bt_get (adm_phases adm) i = Some entry
          \<and> bt_get (fst ranks') i = Some (derive_profile child entry grounding)
          \<and> bt_get (snd ranks') i = Some (compare_profiles (derive_profile child entry grounding) pf)
          \<and> is_lower (compare_profiles (derive_profile child entry grounding) pf))"
    using assms
  proof (induction ids arbitrary: ranks' rule: rev_induct)
    case (snoc i ids)
    then obtain r where r: "try_fold (rank_child grounding pf spec adm) ranks ids = Ok r"
      "rank_child grounding pf spec adm r i = Ok ranks'" by (auto simp: try_fold_append bind_o_Ok)
    from r(2) obtain child entry where new: "bt_get (sp_phases spec) i = Some child"
      "bt_get (adm_phases adm) i = Some entry" "is_lower (compare_profiles (derive_profile child entry grounding) pf)"
      "bt_get (fst ranks') = (bt_get (fst r))(i \<mapsto> derive_profile child entry grounding)"
      "bt_get (snd ranks') = (bt_get (snd r))(i \<mapsto> compare_profiles (derive_profile child entry grounding) pf)"
      unfolding step by (auto simp: fun_eq_iff)
    note ih = snoc.IH [OF r(1)]
    have "dom (bt_get (fst ranks')) = dom (bt_get (fst ranks)) \<union> set (ids @ [i])"
      "dom (bt_get (snd ranks')) = dom (bt_get (snd ranks)) \<union> set (ids @ [i])"
      using ih by (simp_all add: new(4,5))
    moreover have "\<exists>child entry. bt_get (sp_phases spec) j = Some child \<and> bt_get (adm_phases adm) j = Some entry
          \<and> bt_get (fst ranks') j = Some (derive_profile child entry grounding)
          \<and> bt_get (snd ranks') j = Some (compare_profiles (derive_profile child entry grounding) pf)
          \<and> is_lower (compare_profiles (derive_profile child entry grounding) pf)" if "j \<in> set (ids @ [i])" for j
      using ih new that by (cases "j = i") auto
    ultimately show ?case by blast
  qed simp
  then show "dom (bt_get (fst ranks')) = dom (bt_get (fst ranks)) \<union> set ids"
    "dom (bt_get (snd ranks')) = dom (bt_get (snd ranks)) \<union> set ids"
    "\<forall>i \<in> set ids. \<exists>child entry. bt_get (sp_phases spec) i = Some child
          \<and> bt_get (adm_phases adm) i = Some entry
          \<and> bt_get (fst ranks') i = Some (derive_profile child entry grounding)
          \<and> bt_get (snd ranks') i = Some (compare_profiles (derive_profile child entry grounding) pf)
          \<and> is_lower (compare_profiles (derive_profile child entry grounding) pf)"
    by blast+
qed

section \<open>Coverage markers\<close>

definition marker_of :: "obligation_id \<Rightarrow> child_contribution \<Rightarrow> obligation_coverage" where
  "marker_of ob v = Contributes ob (cb_child v) (cb_obligation v)"

definition contribution_valid :: "('s, 'c) refinement_proposal \<Rightarrow> child_contribution \<Rightarrow> bool" where
  "contribution_valid proposal v \<longleftrightarrow> (\<exists>c \<in> set (pp_children proposal). ph_id c = cb_child v
     \<and> bt_contains (ac_statements (ph_acceptance c)) (cb_obligation v))"

lemma contribution_markers_Ok:
  assumes "try_fold (contribution_marker proposal ob) ms vs = Ok ms'"
  shows "ms' = ms @ map (marker_of ob) vs \<and> list_all (contribution_valid proposal) vs"
  using assms
proof (induction vs arbitrary: ms)
  case (Cons v vs)
  from Cons.prems obtain ms1 where one: "contribution_marker proposal ob ms v = Ok ms1"
    and rest: "try_fold (contribution_marker proposal ob) ms1 vs = Ok ms'" by (auto simp: bind_o_Ok)
  from one obtain c where "find (\<lambda>c. ph_id c = cb_child v) (pp_children proposal) = Some c"
    "bt_contains (ac_statements (ph_acceptance c)) (cb_obligation v)" "ms1 = ms @ [marker_of ob v]"
    by (auto simp: contribution_marker_def marker_of_def split: option.splits if_splits)
  moreover from this(1) have "c \<in> set (pp_children proposal)" "ph_id c = cb_child v"
    by (auto simp: find_Some_iff)
  ultimately show ?case using Cons.IH [OF rest] by (auto simp: contribution_valid_def)
qed simp

lemma obligation_markers_Ok:
  assumes "try_fold (obligation_markers proposal) ms obs = Ok ms'"
  shows "ms' = ms @ concat (map (\<lambda>ob. map (marker_of ob) (the (bt_get (pp_coverage proposal) ob))) obs)
     \<and> (\<forall>ob \<in> set obs. \<exists>vs. bt_get (pp_coverage proposal) ob = Some vs \<and> vs \<noteq> []
          \<and> list_all (contribution_valid proposal) vs)"
  using assms
proof (induction obs arbitrary: ms)
  case (Cons ob obs)
  from Cons.prems obtain ms1 vs where vs: "bt_get (pp_coverage proposal) ob = Some vs" "vs \<noteq> []"
    and one: "try_fold (contribution_marker proposal ob) ms vs = Ok ms1"
    and rest: "try_fold (obligation_markers proposal) ms1 obs = Ok ms'"
    by (fastforce simp: obligation_markers_def [of proposal ms ob] bind_o_Ok split: option.splits if_splits)
  from Cons.IH [OF rest] contribution_markers_Ok [OF one] vs show ?case by simp
qed simp

lemma distinct_marker_parents:
  assumes "distinct (map marker_parent (concat (map (\<lambda>ob. map (marker_of ob) (f ob)) obs)))" "ob \<in> set obs"
  shows "length (f ob) \<le> 1"
  using assms
proof (induction obs)
  case (Cons o' obs)
  show ?case
  proof (cases "ob = o'")
    case True
    from Cons.prems(1) have "distinct (map (marker_parent \<circ> marker_of o') (f o'))" by simp
    moreover have "map (marker_parent \<circ> marker_of o') (f o') = replicate (length (f o')) o'"
      by (rule replicate_eqI) (auto simp: marker_of_def)
    ultimately show ?thesis using True by (cases "f o'"; cases "tl (f o')") auto
  next
    case False
    with Cons show ?thesis by simp
  qed
qed simp

lemma coverage_markers_facts:
  assumes "coverage_markers parent proposal = Ok ms" "distinct (map marker_parent ms)"
  shows "dom (bt_get (pp_coverage proposal)) = dom (bt_get (ac_statements (ph_acceptance parent)))"
    and "\<forall>ob vs. bt_get (pp_coverage proposal) ob = Some vs \<longrightarrow> (\<exists>v. vs = [v] \<and> (\<exists>c \<in> set (pp_children proposal).
           ph_id c = cb_child v \<and> bt_contains (ac_statements (ph_acceptance c)) (cb_obligation v)))"
    and "m \<in> set ms \<Longrightarrow> \<exists>ob v. bt_get (pp_coverage proposal) ob = Some [v] \<and> m = marker_of ob v"
proof -
  let ?obs = "bt_keys (ac_statements (ph_acceptance parent))"
  from assms(1) have run: "try_fold (obligation_markers proposal) [] ?obs = Ok ms"
    and extra: "find (\<lambda>i. \<not> bt_contains (ac_statements (ph_acceptance parent)) i) (bt_keys (pp_coverage proposal)) = None"
    by (auto simp: coverage_markers_def bind_o_Ok split: option.splits)
  from obligation_markers_Ok [OF run] have
    ms: "ms = concat (map (\<lambda>ob. map (marker_of ob) (the (bt_get (pp_coverage proposal) ob))) ?obs)"
    and all: "\<forall>ob \<in> set ?obs. \<exists>vs. bt_get (pp_coverage proposal) ob = Some vs \<and> vs \<noteq> []
          \<and> list_all (contribution_valid proposal) vs" by auto
  have keys: "bt_contains (pp_coverage proposal) ob \<longleftrightarrow> ob \<in> set ?obs" for ob
  proof
    assume "bt_contains (pp_coverage proposal) ob"
    with extra show "ob \<in> set ?obs" unfolding find_None_iff in_bt_keys_iff by blast
  next
    assume "ob \<in> set ?obs"
    with all show "bt_contains (pp_coverage proposal) ob" by (auto simp: bt_contains_def)
  qed
  then show "dom (bt_get (pp_coverage proposal)) = dom (bt_get (ac_statements (ph_acceptance parent)))"
    by (simp add: set_bt_keys bt_contains_def dom_def)
  have single: "\<exists>v. bt_get (pp_coverage proposal) ob = Some [v] \<and> contribution_valid proposal v"
    if ob: "ob \<in> set ?obs" for ob
  proof -
    from all ob obtain vs where vs: "bt_get (pp_coverage proposal) ob = Some vs" "vs \<noteq> []"
      "list_all (contribution_valid proposal) vs" by blast
    moreover have "length vs \<le> 1"
      using distinct_marker_parents [OF assms(2) [unfolded ms] ob] vs(1) by simp
    ultimately show ?thesis by (cases vs; cases "tl vs") auto
  qed
  show "\<forall>ob vs. bt_get (pp_coverage proposal) ob = Some vs \<longrightarrow> (\<exists>v. vs = [v] \<and> (\<exists>c \<in> set (pp_children proposal).
           ph_id c = cb_child v \<and> bt_contains (ac_statements (ph_acceptance c)) (cb_obligation v)))"
  proof (intro allI impI)
    fix ob vs assume vs: "bt_get (pp_coverage proposal) ob = Some vs"
    then have "ob \<in> set ?obs" using keys [of ob] by (simp add: bt_contains_def)
    from single [OF this] vs show "\<exists>v. vs = [v] \<and> (\<exists>c \<in> set (pp_children proposal).
           ph_id c = cb_child v \<and> bt_contains (ac_statements (ph_acceptance c)) (cb_obligation v))"
      by (auto simp: contribution_valid_def)
  qed
  show "m \<in> set ms \<Longrightarrow> \<exists>ob v. bt_get (pp_coverage proposal) ob = Some [v] \<and> m = marker_of ob v"
    using single by (fastforce simp: ms)
qed

lemma traced_pairs_in: "(c, ob) \<in> set (traced_pairs ms) \<longleftrightarrow> (\<exists>p. Contributes p c ob \<in> set ms)"
  by (induction ms) (auto simp: traced_pairs_def List.map_filter_simps split: obligation_coverage.splits)

section \<open>What an applied refinement keeps and adds\<close>

lemma refined_phases:
  assumes base: "compile spec = Ok adm" and coh: "coherent spec"
    and par: "bt_get (sp_phases spec) (pp_parent proposal) = Some parent" "ph_body parent = Leaf cps"
    and run: "try_fold (check_child grounding proposal parent) {||} (pp_children proposal) = Ok ids"
    and succ: "compile (refined_spec spec proposal parent coverage) = Ok sadm"
  shows "c \<in> set (pp_children proposal) \<Longrightarrow> \<not> bt_contains (sp_phases spec) (ph_id c)"
    and "c \<in> set (pp_children proposal) \<Longrightarrow>
       bt_get (sp_phases (refined_spec spec proposal parent coverage)) (ph_id c) = Some c"
    and "bt_get (sp_phases (refined_spec spec proposal parent coverage)) (pp_parent proposal) =
       Some (parent\<lparr>ph_body := Composite (map ph_id (pp_children proposal)), ph_coverage := coverage\<rparr>)"
    and "bt_contains (sp_phases spec) k \<Longrightarrow> k \<noteq> pp_parent proposal \<Longrightarrow>
       bt_get (sp_phases (refined_spec spec proposal parent coverage)) k = bt_get (sp_phases spec) k"
    and "bt_contains (sp_phases (refined_spec spec proposal parent coverage)) k \<longleftrightarrow>
       bt_contains (sp_phases spec) k \<or> k \<in> ph_id ` set (pp_children proposal)"
proof -
  note kids = check_children_Ok [OF run]
  then have dist: "distinct (map ph_id (pp_children proposal))" by blast
  note get = refined_get [OF dist, of spec parent coverage]
  from base succ obtain t t' where t: "tree_validate spec = Ok t"
    "tree_validate (refined_spec spec proposal parent coverage) = Ok t'"
    by (elim compile_Ok_elim)
  note fresh = children_fresh [OF t(1) coh par dist _ t(2)]
  have old: "find (\<lambda>c. ph_id c = k) (pp_children proposal) = None" if "bt_contains (sp_phases spec) k" for k
    using fresh kids that by (auto simp: find_None_iff)
  show new: "\<not> bt_contains (sp_phases spec) (ph_id c)" if "c \<in> set (pp_children proposal)" for c
    using fresh kids that by blast
  show "bt_get (sp_phases (refined_spec spec proposal parent coverage)) (ph_id c) = Some c"
    if "c \<in> set (pp_children proposal)" for c
    by (simp add: get find_child [OF dist that])
  show "bt_get (sp_phases (refined_spec spec proposal parent coverage)) (pp_parent proposal) =
       Some (parent\<lparr>ph_body := Composite (map ph_id (pp_children proposal)), ph_coverage := coverage\<rparr>)"
    using old par(1) by (simp add: get bt_contains_def)
  show "bt_get (sp_phases (refined_spec spec proposal parent coverage)) k = bt_get (sp_phases spec) k"
    if "bt_contains (sp_phases spec) k" "k \<noteq> pp_parent proposal" for k
    using old that by (simp add: get)
  show "bt_contains (sp_phases (refined_spec spec proposal parent coverage)) k \<longleftrightarrow>
       bt_contains (sp_phases spec) k \<or> k \<in> ph_id ` set (pp_children proposal)" for k
    using par(1) by (auto simp: bt_contains_def get find_None_iff find_Some_iff split: option.splits)
qed

section \<open>Refinement does not panic\<close>

lemma refine_guards_no_Panic:
  assumes "\<And>d. datum_content_id K d \<noteq> Panic"
  shows "refine_guards K base grounding policy proposal \<noteq> Panic"
  using assms
  by (auto simp: refine_guards_def bind_o_Panic Let_def phase_fingerprint_def split: if_splits)

lemma check_child_no_Panic: "check_child grounding proposal parent A c \<noteq> Panic"
  by (auto simp: check_child_def check_ceilings_def ceiling_def bind_o_Panic Let_def split: option.splits if_splits)

lemma coverage_markers_no_Panic: "coverage_markers parent proposal \<noteq> Panic"
proof -
  have "try_fold (obligation_markers proposal) [] obs \<noteq> Panic" for obs
    by (intro try_fold_never_Panic)
       (auto simp: obligation_markers_def contribution_marker_def intro!: try_fold_never_Panic split: option.splits if_splits)
  then show ?thesis by (auto simp: coverage_markers_def bind_o_Panic split: option.splits)
qed

lemma rank_children_no_Panic:
  assumes "\<And>i. i \<in> set ids \<Longrightarrow> bt_contains (sp_phases spec) i \<and> bt_contains (adm_phases adm) i"
  shows "try_fold (rank_child grounding pf spec adm) ranks ids \<noteq> Panic"
proof (rule try_fold_never_Panic)
  fix r i assume "i \<in> set ids"
  from assms [OF this] show "rank_child grounding pf spec adm r i \<noteq> Panic"
    by (auto simp: rank_child_def bind_o_Panic bt_contains_def Let_def split: if_splits)
qed

lemma apply_refinement_no_Panic:
  assumes coh: "coherent (rv_spec base)"
    and K: "\<And>d. datum_content_id K d \<noteq> Panic"
    and hooks: "\<And>x. hk_compile_dependencies hooks x \<noteq> Panic" "\<And>x. hk_compile_outputs hooks x \<noteq> Panic"
  shows "apply_refinement K base grounding policy proposal hooks \<noteq> Panic"
proof
  let ?s = "rv_spec base"
  assume bad: "apply_refinement K base grounding policy proposal hooks = Panic"
  then obtain parent where g: "refine_guards K base grounding policy proposal = Ok parent"
    using refine_guards_no_Panic [OF K] by (auto simp: apply_refinement_def bind_o_Panic)
  note guards = refine_guards_Ok [OF g]
  from guards(6) obtain cps where leaf: "ph_body parent = Leaf cps" by blast
  have "admit ?s \<noteq> Panic" using compile_no_Panic [OF coh] by (simp add: admit_def)
  with bad g obtain adm where adm: "compile ?s = Ok adm"
    by (auto simp: apply_refinement_def bind_o_Panic admit_def)
  then obtain entry where entry: "bt_get (adm_phases adm) (pp_parent proposal) = Some entry"
    using guards(2) compile_entries(1) [OF adm] by (elim compile_Ok_elim) (fastforce simp: bt_contains_def)
  from bad g adm entry obtain ids where ids:
    "try_fold (check_child grounding proposal parent) {||} (pp_children proposal) = Ok ids"
    using try_fold_never_Panic [where f = "check_child grounding proposal parent", OF check_child_no_Panic]
    by (auto simp: apply_refinement_def bind_o_Panic admit_def Let_def)
  from bad g adm entry ids obtain cov where cov: "coverage_markers parent proposal = Ok cov"
    using coverage_markers_no_Panic by (auto simp: apply_refinement_def bind_o_Panic admit_def Let_def)
  let ?n = "refined_spec ?s proposal parent cov"
  have coh': "coherent ?n"
    using refined_coherent [OF coh _ guards(2)] check_children_Ok [OF ids] by blast
  have noadm: "compile ?n \<noteq> Panic" by (rule compile_no_Panic [OF coh'])
  with bad g adm entry ids cov obtain sadm where sadm: "compile ?n = Ok sadm"
    by (auto simp: apply_refinement_def bind_o_Panic admit_def Let_def)
  note ph = refined_phases [OF adm coh guards(2) leaf ids sadm]
  have "bt_contains (sp_phases ?n) i \<and> bt_contains (adm_phases sadm) i" if "i \<in> set (map ph_id (pp_children proposal))" for i
    using sadm compile_entries(1) [OF sadm] ph(5) that by (elim compile_Ok_elim) auto
  then have ranks: "try_fold (rank_child grounding pf ?n sadm) rk (map ph_id (pp_children proposal)) \<noteq> Panic" for pf rk
    by (rule rank_children_no_Panic)
  have "validate_spec K ?n \<noteq> Panic" using validate_spec_Panic_iff noadm by (auto simp: admit_def)
  then have rev: "revision_new K p ?n ch \<noteq> Panic" for p ch
    using K by (auto simp: revision_new_def bind_o_Panic)
  have "text_id_new a b \<noteq> Panic" for a b by (auto simp: text_id_new_def validate_id_def bind_o_Panic split: if_splits)
  with bad g adm entry ids cov sadm ph(3) ranks rev hooks show False
    by (auto simp: apply_refinement_def bind_o_Panic admit_def Let_def)
qed

end
