(* ===== verification/Refine_Theorems.thy ===== *)
theory Refine_Theorems
  imports Refine_Apply Roadmap_Samples
begin

text \<open>
  The properties of \<open>sim-roadmap-refine\<close>. The sample refines the leaf \<open>b\<close>, which has a checkpoint
  and one obligation, into the leaves \<open>d\<close> and \<open>e\<close>, which have no checkpoints.
\<close>

definition refine_base :: sspec where
  "refine_base = sample_roadmap ''a''
     [(''a'', (sample_phase ''a'' None (Composite [''b'']) [] {||})
              \<lparr>ph_acceptance := sample_acceptance ''p'', ph_coverage := [Contributes ''p'' ''b'' ''q'']\<rparr>),
      (''b'', (sample_phase ''b'' (Some ''a'') (Leaf [\<lparr>cp_id = ''k'', cp_statement = ''s''\<rparr>]) [] {||})
              \<lparr>ph_acceptance := sample_acceptance ''q''\<rparr>)]"

definition refine_revision :: "(string list, byte list) roadmap_revision" where
  "refine_revision = \<lparr>rv_id = RoadmapRevisionId [1], rv_parent = None, rv_spec = refine_base,
     rv_change = \<lparr>rc_id = ''x'', rc_rationale = ''y''\<rparr>\<rparr>"

definition refine_grounding :: "byte list grounding" where
  "refine_grounding = \<lparr>gr_id = GroundingId [2], gr_resolved = []\<rparr>"

definition refine_policy :: tractability_policy where
  "refine_policy = \<lparr>tp_revision = ''v'', tp_maximum = \<lparr>wp_unknowns = 0, wp_mutable_owners = 1, wp_packages = 1,
     wp_change_targets = 1, wp_promises = 1, wp_acceptance_groups = 1, wp_checkpoints = 0\<rparr>,
     tp_maximum_children = 4\<rparr>"

definition refine_proposal :: "(string list, byte list) refinement_proposal" where
  "refine_proposal = \<lparr>pp_base_revision = RoadmapRevisionId [1], pp_parent = ''b'', pp_expected_parent = [1],
     pp_expected_grounding = GroundingId [2],
     pp_children = [(sample_phase ''d'' (Some ''b'') (Leaf []) [] {||})\<lparr>ph_acceptance := sample_acceptance ''r''\<rparr>,
                    sample_phase ''e'' (Some ''b'') (Leaf []) [Requires (LocalRef ''d'')] {||}],
     pp_coverage = bt_of_list [(''q'', [\<lparr>cb_child = ''d'', cb_obligation = ''r''\<rparr>])],
     pp_rationale = ''z''\<rparr>"

lemma refine_revision_new:
  "revision_new sample_kernel None refine_base \<lparr>rc_id = ''x'', rc_rationale = ''y''\<rparr> = Ok refine_revision"
  by code_simp

lemma refine_applied:
  "\<exists>r. apply_refinement sample_kernel refine_revision refine_grounding refine_policy refine_proposal noop_hooks = Ok r
     \<and> bt_keys (sp_phases (rv_spec (ap_successor r))) = [''a'', ''b'', ''d'', ''e'']"
  by (rule Ok_cases_intro) code_simp

section \<open>Shared facts about an applied refinement\<close>

lemma revision_new_coherent: "revision_new K p s ch = Ok base \<Longrightarrow> rv_spec base = s \<and> coherent s"
  by (auto simp: revision_new_def bind_o_Ok validate_spec_iff well_formed_def)

lemma revision_new_fields:
  "revision_new K p s ch = Ok r \<Longrightarrow> rv_parent r = p \<and> rv_spec r = s \<and> validate_spec K s = Ok ()"
  by (auto simp: revision_new_def bind_o_Ok)

lemma applied_refinement_facts:
  assumes coh: "coherent (rv_spec base)"
    and ok: "apply_refinement K base grounding policy proposal hooks = Ok r"
  obtains parent coverage adm sadm ids where
    "refine_guards K base grounding policy proposal = Ok parent"
    "compile (rv_spec base) = Ok adm" "coverage_markers parent proposal = Ok coverage"
    "try_fold (check_child grounding proposal parent) {||} (pp_children proposal) = Ok ids"
    "compile (refined_spec (rv_spec base) proposal parent coverage) = Ok sadm"
    "rv_spec (ap_successor r) = refined_spec (rv_spec base) proposal parent coverage"
    "rv_parent (ap_successor r) = Some (rv_id base)"
    "validate_spec K (rv_spec (ap_successor r)) = Ok ()"
    "dom (bt_get (dc_children (ap_certificate r))) = ph_id ` set (pp_children proposal)"
    "dom (bt_get (dc_ordering (ap_certificate r))) = ph_id ` set (pp_children proposal)"
    "\<And>i. i \<in> ph_id ` set (pp_children proposal) \<Longrightarrow> \<exists>w. bt_get (dc_children (ap_certificate r)) i = Some w
        \<and> bt_get (dc_ordering (ap_certificate r)) i = Some (compare_profiles w (dc_parent (ap_certificate r)))
        \<and> is_lower (compare_profiles w (dc_parent (ap_certificate r)))"
    "cr_complete (dc_coverage (ap_certificate r))"
  using ok
proof (cases rule: apply_refinement_Ok)
  case (1 parent adm entry coverage sadm np child_ids ranks ch)
  let ?n = "refined_spec (rv_spec base) proposal parent coverage"
  from 1(4) obtain ids where ids: "try_fold (check_child grounding proposal parent) {||} (pp_children proposal) = Ok ids"
    by blast
  have comp: "compile (rv_spec base) = Ok adm" "compile ?n = Ok sadm" using 1(2,6) by (simp_all add: admit_def)
  from refine_guards_Ok(6) [OF 1(1)] obtain cps where "ph_body parent = Leaf cps" by blast
  note ph = refined_phases [OF comp(1) coh refine_guards_Ok(2) [OF 1(1)] this ids comp(2)]
  have kids: "set child_ids = ph_id ` set (pp_children proposal)" using ph(3) 1(7,8) by auto
  note ranks = rank_children_Ok [OF 1(9)]
  show thesis
  proof (rule that [OF 1(1) comp(1) 1(5) ids comp(2)])
    show "rv_spec (ap_successor r) = ?n" "rv_parent (ap_successor r) = Some (rv_id base)"
      "validate_spec K (rv_spec (ap_successor r)) = Ok ()"
      using revision_new_fields [OF 1(10)] by simp_all
    show "dom (bt_get (dc_children (ap_certificate r))) = ph_id ` set (pp_children proposal)"
      "dom (bt_get (dc_ordering (ap_certificate r))) = ph_id ` set (pp_children proposal)"
      using ranks(1,2) kids 1(12,13) by (simp_all add: dom_def)
    show "\<exists>w. bt_get (dc_children (ap_certificate r)) i = Some w
        \<and> bt_get (dc_ordering (ap_certificate r)) i = Some (compare_profiles w (dc_parent (ap_certificate r)))
        \<and> is_lower (compare_profiles w (dc_parent (ap_certificate r)))" if "i \<in> ph_id ` set (pp_children proposal)" for i
      using ranks(3) that kids 1(11-13) by auto
    show "cr_complete (dc_coverage (ap_certificate r))" by (rule 1(14))
  qed
qed

lemma certified_child_lower:
  assumes "revision_new K p s ch = Ok base"
    "apply_refinement K base grounding policy proposal hooks = Ok r"
    "bt_get (dc_children (ap_certificate r)) i = Some w"
  shows "is_lower (compare_profiles w (dc_parent (ap_certificate r)))"
proof -
  have coh: "coherent (rv_spec base)" using revision_new_coherent [OF assms(1)] by auto
  show ?thesis
  proof (rule applied_refinement_facts [OF coh assms(2)])
    assume "dom (bt_get (dc_children (ap_certificate r))) = ph_id ` set (pp_children proposal)"
    then have "i \<in> ph_id ` set (pp_children proposal)" using assms(3) by (metis domI)
    moreover assume "\<And>i. i \<in> ph_id ` set (pp_children proposal) \<Longrightarrow> \<exists>w. bt_get (dc_children (ap_certificate r)) i = Some w
        \<and> bt_get (dc_ordering (ap_certificate r)) i = Some (compare_profiles w (dc_parent (ap_certificate r)))
        \<and> is_lower (compare_profiles w (dc_parent (ap_certificate r)))"
    ultimately obtain v where "bt_get (dc_children (ap_certificate r)) i = Some v"
      "is_lower (compare_profiles v (dc_parent (ap_certificate r)))" by blast
    then show ?thesis using assms(3) by simp
  qed
qed

text \<open>The certified profiles are those of the refined leaf and of the proposed children.\<close>

lemma applied_profiles:
  assumes base: "revision_new K p s ch = Ok base"
    and ok: "apply_refinement K base grounding policy proposal hooks = Ok r"
  shows "(\<exists>parent adm entry. bt_get (sp_phases s) (pp_parent proposal) = Some parent \<and> admit s = Ok adm
      \<and> bt_get (adm_phases adm) (pp_parent proposal) = Some entry
      \<and> profile_counts parent entry grounding (dc_parent (ap_certificate r)))
    \<and> (\<exists>sadm. admit (rv_spec (ap_successor r)) = Ok sadm
      \<and> (\<forall>c \<in> set (pp_children proposal). \<exists>entry w. bt_get (adm_phases sadm) (ph_id c) = Some entry
           \<and> bt_get (dc_children (ap_certificate r)) (ph_id c) = Some w \<and> profile_counts c entry grounding w))"
  using ok
proof (cases rule: apply_refinement_Ok)
  case (1 parent adm entry coverage sadm np child_ids ranks change)
  let ?n = "refined_spec (rv_spec base) proposal parent coverage"
  have s: "rv_spec base = s" "coherent (rv_spec base)" using revision_new_coherent [OF base] by auto
  note g = refine_guards_Ok [OF 1(1)]
  have leaf_counts: "\<exists>parent adm entry. bt_get (sp_phases s) (pp_parent proposal) = Some parent \<and> admit s = Ok adm
      \<and> bt_get (adm_phases adm) (pp_parent proposal) = Some entry
      \<and> profile_counts parent entry grounding (dc_parent (ap_certificate r))"
    using g(2) 1(2,3) derive_profile_counts unfolding s(1) 1(11) by blast
  from 1(4) obtain ids where ids: "try_fold (check_child grounding proposal parent) {||} (pp_children proposal) = Ok ids"
    by blast
  from g(6) obtain cps where leaf: "ph_body parent = Leaf cps" by blast
  have comp: "compile (rv_spec base) = Ok adm" "compile ?n = Ok sadm" using 1(2,6) by (simp_all add: admit_def)
  note ph = refined_phases [OF comp(1) s(2) g(2) leaf ids comp(2)]
  have "\<exists>entry w. bt_get (adm_phases sadm) (ph_id c) = Some entry
      \<and> bt_get (dc_children (ap_certificate r)) (ph_id c) = Some w \<and> profile_counts c entry grounding w"
    if c: "c \<in> set (pp_children proposal)" for c
  proof -
    have "ph_id c \<in> set child_ids" using ph(3) 1(7,8) c by auto
    with rank_children_Ok(3) [OF 1(9)] obtain child ce where
      "bt_get (sp_phases ?n) (ph_id c) = Some child" "bt_get (adm_phases sadm) (ph_id c) = Some ce"
      "bt_get (fst ranks) (ph_id c) = Some (derive_profile child ce grounding)" by blast
    with ph(2) [OF c] derive_profile_counts show ?thesis by (auto simp: 1(12))
  qed
  moreover have "rv_spec (ap_successor r) = ?n" using revision_new_fields [OF 1(10)] by simp
  ultimately show ?thesis using leaf_counts 1(6) by metis
qed

section \<open>Properties\<close>

text \<open>
  C18: A refinement changes one leaf and nothing else. When a proposal against a revision is
  applied, the successor is a valid revision whose parent is the base; every phase of the base
  other than the refined one is kept as it was; the refined leaf now lists exactly the proposed
  children and keeps everything but its body and coverage; every child is new to the roadmap and
  stored as proposed; and no other phase appears.
\<close>
theorem refinement_is_local:
  assumes "revision_new K p s ch = Ok base"
    "apply_refinement K base grounding policy proposal hooks = Ok r"
  shows "rv_parent (ap_successor r) = Some (rv_id base)
     \<and> validate_spec K (rv_spec (ap_successor r)) = Ok ()
     \<and> (\<exists>parent coverage. bt_get (sp_phases s) (pp_parent proposal) = Some parent
          \<and> (\<exists>cps. ph_body parent = Leaf cps)
          \<and> bt_get (sp_phases (rv_spec (ap_successor r))) (pp_parent proposal) =
              Some (parent\<lparr>ph_body := Composite (map ph_id (pp_children proposal)), ph_coverage := coverage\<rparr>))
     \<and> (\<forall>k. bt_contains (sp_phases s) k \<longrightarrow> k \<noteq> pp_parent proposal \<longrightarrow>
          bt_get (sp_phases (rv_spec (ap_successor r))) k = bt_get (sp_phases s) k)
     \<and> (\<forall>c \<in> set (pp_children proposal). \<not> bt_contains (sp_phases s) (ph_id c)
          \<and> ph_parent c = Some (pp_parent proposal)
          \<and> bt_get (sp_phases (rv_spec (ap_successor r))) (ph_id c) = Some c)
     \<and> (\<forall>k. bt_contains (sp_phases (rv_spec (ap_successor r))) k \<longleftrightarrow>
          bt_contains (sp_phases s) k \<or> k \<in> ph_id ` set (pp_children proposal))"
proof -
  have base: "rv_spec base = s" "coherent (rv_spec base)" using revision_new_coherent [OF assms(1)] by auto
  from applied_refinement_facts [OF base(2) assms(2)] obtain parent coverage adm sadm ids where f:
    "refine_guards K base grounding policy proposal = Ok parent" "compile (rv_spec base) = Ok adm"
    "try_fold (check_child grounding proposal parent) {||} (pp_children proposal) = Ok ids"
    "compile (refined_spec (rv_spec base) proposal parent coverage) = Ok sadm"
    "rv_spec (ap_successor r) = refined_spec (rv_spec base) proposal parent coverage"
    "rv_parent (ap_successor r) = Some (rv_id base)" "validate_spec K (rv_spec (ap_successor r)) = Ok ()"
    by metis
  note g = refine_guards_Ok [OF f(1)]
  from g(6) obtain cps where leaf: "ph_body parent = Leaf cps" by blast
  note ph = refined_phases [OF f(2) base(2) g(2) leaf f(3,4)]
  show ?thesis
    using f(6,7) g(2) leaf ph check_children_Ok [OF f(3)] unfolding f(5) base(1) by blast
qed

theorem refinement_is_local_witness:
  "\<exists>r. apply_refinement sample_kernel refine_revision refine_grounding refine_policy refine_proposal noop_hooks = Ok r
     \<and> bt_get (sp_phases (rv_spec (ap_successor r))) ''a'' = bt_get (sp_phases refine_base) ''a''
     \<and> bt_contains (sp_phases (rv_spec (ap_successor r))) ''e'' \<and> \<not> bt_contains (sp_phases refine_base) ''e''"
proof -
  from refine_applied obtain r where
    r: "apply_refinement sample_kernel refine_revision refine_grounding refine_policy refine_proposal noop_hooks = Ok r"
    by blast
  have "bt_contains (sp_phases refine_base) ''a''" "''a'' \<noteq> pp_parent refine_proposal"
    "\<not> bt_contains (sp_phases refine_base) ''e''" "''e'' \<in> ph_id ` set (pp_children refine_proposal)" by code_simp+
  with refinement_is_local [OF refine_revision_new r] r show ?thesis by blast
qed

text \<open>
  C19: Every applied refinement carries a descent certificate that verifies: it certifies exactly
  the proposed children, at least two; the certified profile of the refined leaf counts the work of
  that leaf as the base admits it, the certified profile of a child counts the work of the proposed
  child as the successor admits it, and the profile of each child is strictly below that of the
  leaf in the order the code compares profiles by, with that comparison recorded.
\<close>
theorem refinement_certificate_verifies:
  assumes "revision_new K p s ch = Ok base"
    "apply_refinement K base grounding policy proposal hooks = Ok r"
  shows "certificate_verify (ap_certificate r)
     \<and> dom (bt_get (dc_children (ap_certificate r))) = ph_id ` set (pp_children proposal)
     \<and> (\<forall>i w. bt_get (dc_children (ap_certificate r)) i = Some w \<longrightarrow>
          is_lower (compare_profiles w (dc_parent (ap_certificate r)))
          \<and> bt_get (dc_ordering (ap_certificate r)) i = Some (compare_profiles w (dc_parent (ap_certificate r))))
     \<and> (\<exists>parent adm entry. bt_get (sp_phases s) (pp_parent proposal) = Some parent \<and> admit s = Ok adm
          \<and> bt_get (adm_phases adm) (pp_parent proposal) = Some entry
          \<and> profile_counts parent entry grounding (dc_parent (ap_certificate r)))
     \<and> (\<exists>sadm. admit (rv_spec (ap_successor r)) = Ok sadm
          \<and> (\<forall>c \<in> set (pp_children proposal). \<exists>entry w. bt_get (adm_phases sadm) (ph_id c) = Some entry
               \<and> bt_get (dc_children (ap_certificate r)) (ph_id c) = Some w \<and> profile_counts c entry grounding w))"
proof -
  have coh: "coherent (rv_spec base)" using revision_new_coherent [OF assms(1)] by auto
  from applied_refinement_facts [OF coh assms(2)] obtain parent ids where f:
    "refine_guards K base grounding policy proposal = Ok parent"
    "try_fold (check_child grounding proposal parent) {||} (pp_children proposal) = Ok ids"
    "dom (bt_get (dc_children (ap_certificate r))) = ph_id ` set (pp_children proposal)"
    "dom (bt_get (dc_ordering (ap_certificate r))) = ph_id ` set (pp_children proposal)"
    "\<And>i. i \<in> ph_id ` set (pp_children proposal) \<Longrightarrow> \<exists>w. bt_get (dc_children (ap_certificate r)) i = Some w
        \<and> bt_get (dc_ordering (ap_certificate r)) i = Some (compare_profiles w (dc_parent (ap_certificate r)))
        \<and> is_lower (compare_profiles w (dc_parent (ap_certificate r)))"
    "cr_complete (dc_coverage (ap_certificate r))"
    by metis
  have "card (ph_id ` set (pp_children proposal)) = length (pp_children proposal)"
    using check_children_Ok [OF f(2)] distinct_card by fastforce
  then have "2 \<le> bt_len (dc_children (ap_certificate r))"
    using refine_guards_Ok(7) [OF f(1)] by (simp add: bt_len_card f(3))
  moreover have "case bt_get (dc_ordering (ap_certificate r)) i of Some x \<Rightarrow> is_lower x | None \<Rightarrow> False"
    if "i \<in> set (bt_keys (dc_children (ap_certificate r)))" for i
    using f(5) [of i] that by (auto simp: set_bt_keys f(3))
  moreover have "is_lower (compare_profiles w (dc_parent (ap_certificate r)))
      \<and> bt_get (dc_ordering (ap_certificate r)) i = Some (compare_profiles w (dc_parent (ap_certificate r)))"
    if "bt_get (dc_children (ap_certificate r)) i = Some w" for i w
    using f(3) f(5) [of i] that by force
  ultimately show ?thesis
    using f(3,4,6) applied_profiles [OF assms] by (simp add: certificate_verify_def bt_len_card list_all_iff)
qed

theorem refinement_certificate_verifies_witness:
  "\<exists>r w. apply_refinement sample_kernel refine_revision refine_grounding refine_policy refine_proposal noop_hooks = Ok r
     \<and> certificate_verify (ap_certificate r)
     \<and> dom (bt_get (dc_children (ap_certificate r))) = {''d'', ''e''}
     \<and> unat (wp_checkpoints (dc_parent (ap_certificate r))) = 1
     \<and> bt_get (dc_children (ap_certificate r)) ''d'' = Some w \<and> unat (wp_checkpoints w) = 0"
proof -
  from refine_applied obtain r where
    r: "apply_refinement sample_kernel refine_revision refine_grounding refine_policy refine_proposal noop_hooks = Ok r"
    by blast
  note c = refinement_certificate_verifies [OF refine_revision_new r]
  have ids: "ph_id ` set (pp_children refine_proposal) = {''d'', ''e''}"
    by (simp add: refine_proposal_def sample_phase_def)
  have leaf: "ph_body parent = Leaf [\<lparr>cp_id = ''k'', cp_statement = ''s''\<rparr>]"
    if "bt_get (sp_phases refine_base) (pp_parent refine_proposal) = Some parent" for parent
  proof -
    have "map_option ph_body (bt_get (sp_phases refine_base) (pp_parent refine_proposal)) =
        Some (Leaf [\<lparr>cp_id = ''k'', cp_statement = ''s''\<rparr>])" by code_simp
    with that show ?thesis by simp
  qed
  obtain d where d: "d \<in> set (pp_children refine_proposal)" "ph_id d = ''d''" "ph_body d = Leaf []"
    by (rule that [of "hd (pp_children refine_proposal)"]) (simp_all add: refine_proposal_def sample_phase_def)
  from c obtain parent entry where "bt_get (sp_phases refine_base) (pp_parent refine_proposal) = Some parent"
    "profile_counts parent entry refine_grounding (dc_parent (ap_certificate r))" by (elim conjE exE) (rule that)
  then have one: "unat (wp_checkpoints (dc_parent (ap_certificate r))) = 1"
    using leaf by (simp add: profile_counts_def counts_def)
  from c obtain sadm where sadm: "admit (rv_spec (ap_successor r)) = Ok sadm"
    and kids: "\<forall>c \<in> set (pp_children refine_proposal). \<exists>entry w.
      bt_get (adm_phases sadm) (ph_id c) = Some entry
      \<and> bt_get (dc_children (ap_certificate r)) (ph_id c) = Some w \<and> profile_counts c entry refine_grounding w"
    by (elim conjE exE) (rule that)
  from bspec [OF kids d(1)] obtain w entry where w: "bt_get (dc_children (ap_certificate r)) ''d'' = Some w"
    "profile_counts d entry refine_grounding w" unfolding d(2) by (elim conjE exE) (rule that)
  then have "unat (wp_checkpoints w) = 0" using d(3) by (simp add: profile_counts_def counts_def)
  moreover have "certificate_verify (ap_certificate r)" "dom (bt_get (dc_children (ap_certificate r))) = {''d'', ''e''}"
    using c unfolding ids by simp_all
  ultimately show ?thesis using one r w(1) by (intro exI conjI)
qed

text \<open>
  C20: Refinement ends. The comparison of profiles is a well-founded total order, so no sequence of
  applied refinements of valid revisions, in which each refines a leaf whose certified profile is
  the one certified for a child of the step before, goes on forever.
\<close>
theorem refinement_cannot_descend_forever:
  "wf {(a, b). is_lower (compare_profiles a b)}
   \<and> (\<forall>a b. compare_profiles a b = RankEqual \<longleftrightarrow> a = b)
   \<and> (\<forall>a b. is_lower (compare_profiles b a) \<longleftrightarrow> (\<exists>c x y. compare_profiles a b = Higher c x y))
   \<and> \<not> (\<exists>rs. \<forall>n. (\<exists>K p s ch base grounding policy proposal hooks.
            revision_new (K :: ('s, 'c) kernel) p s ch = Ok base
            \<and> apply_refinement K base grounding policy proposal hooks = Ok (rs n))
        \<and> (\<exists>i. bt_get (dc_children (ap_certificate (rs n))) i = Some (dc_parent (ap_certificate (rs (Suc n))))))"
proof (intro conjI)
  show "\<forall>a b. compare_profiles a b = RankEqual \<longleftrightarrow> a = b"
    by (simp add: compare_profiles_def compare_components_total all_components profile_ext)
  show "\<forall>a b. is_lower (compare_profiles b a) \<longleftrightarrow> (\<exists>c x y. compare_profiles a b = Higher c x y)"
    by (simp add: compare_profiles_def compare_components_total)
  show "\<not> (\<exists>rs. \<forall>n. (\<exists>K p s ch base grounding policy proposal hooks.
            revision_new (K :: ('s, 'c) kernel) p s ch = Ok base
            \<and> apply_refinement K base grounding policy proposal hooks = Ok (rs n))
        \<and> (\<exists>i. bt_get (dc_children (ap_certificate (rs n))) i = Some (dc_parent (ap_certificate (rs (Suc n))))))"
  proof clarify
    fix rs :: "nat \<Rightarrow> ('s, 'c) applied_refinement"
    assume steps: "\<forall>n. (\<exists>K p s ch base grounding policy proposal hooks.
            revision_new (K :: ('s, 'c) kernel) p s ch = Ok base
            \<and> apply_refinement K base grounding policy proposal hooks = Ok (rs n))
        \<and> (\<exists>i. bt_get (dc_children (ap_certificate (rs n))) i = Some (dc_parent (ap_certificate (rs (Suc n)))))"
    have "(dc_parent (ap_certificate (rs (Suc n))), dc_parent (ap_certificate (rs n)))
        \<in> {(a, b). is_lower (compare_profiles a b)}" for n
      using steps [rule_format, of n] certified_child_lower by blast
    then show False
      using wf_no_infinite_down_chainE [OF wf_profile_order, of "\<lambda>n. dc_parent (ap_certificate (rs n))"] by blast
  qed
qed (rule wf_profile_order)

text \<open>
  C21: The coverage of an applied refinement is exact and single. The proposal's coverage names
  exactly the obligations of the refined leaf, each with exactly one contribution (a proposal that
  shares an obligation between several children is refused), that contribution names an
  obligation some proposed child really has, and every obligation of a child is named by one.
\<close>
theorem refinement_coverage_single:
  assumes "revision_new K p s ch = Ok base"
    "apply_refinement K base grounding policy proposal hooks = Ok r"
    "bt_get (sp_phases s) (pp_parent proposal) = Some parent"
  shows "dom (bt_get (pp_coverage proposal)) = dom (bt_get (ac_statements (ph_acceptance parent)))
     \<and> (\<forall>ob vs. bt_get (pp_coverage proposal) ob = Some vs \<longrightarrow>
          (\<exists>v. vs = [v] \<and> (\<exists>c \<in> set (pp_children proposal). ph_id c = cb_child v
             \<and> bt_contains (ac_statements (ph_acceptance c)) (cb_obligation v))))
     \<and> (\<forall>c \<in> set (pp_children proposal). \<forall>ob. bt_contains (ac_statements (ph_acceptance c)) ob \<longrightarrow>
          (\<exists>pob v. bt_get (pp_coverage proposal) pob = Some [v] \<and> cb_child v = ph_id c \<and> cb_obligation v = ob))"
proof -
  have base: "rv_spec base = s" "coherent (rv_spec base)" using revision_new_coherent [OF assms(1)] by auto
  from applied_refinement_facts [OF base(2) assms(2)] obtain parent' coverage adm sadm ids where f:
    "refine_guards K base grounding policy proposal = Ok parent'" "compile (rv_spec base) = Ok adm"
    "coverage_markers parent' proposal = Ok coverage"
    "try_fold (check_child grounding proposal parent') {||} (pp_children proposal) = Ok ids"
    "compile (refined_spec (rv_spec base) proposal parent' coverage) = Ok sadm"
    by metis
  note g = refine_guards_Ok [OF f(1)]
  have par: "parent' = parent" using g(2) assms(3) base(1) by simp
  from g(6) obtain cps where leaf: "ph_body parent' = Leaf cps" by blast
  note ph = refined_phases [OF f(2) base(2) g(2) leaf f(4,5)]
  have exact: "coverage_exact (refined_spec (rv_spec base) proposal parent' coverage)
      (parent'\<lparr>ph_body := Composite (map ph_id (pp_children proposal)), ph_coverage := coverage\<rparr>)
      (map ph_id (pp_children proposal))"
    by (rule compile_coverage [OF f(5) ph(3)]) simp
  then have dist: "distinct (map marker_parent coverage)" by (simp add: coverage_exact_def)
  note cov = coverage_markers_facts [OF f(3) dist]
  have traced: "\<exists>pob v. bt_get (pp_coverage proposal) pob = Some [v] \<and> cb_child v = ph_id c \<and> cb_obligation v = ob"
    if "c \<in> set (pp_children proposal)" "bt_contains (ac_statements (ph_acceptance c)) ob" for c ob
  proof -
    have "(ph_id c, ob) \<in> set (traced_pairs coverage)"
      using exact ph(2) [OF that(1)] that by (auto simp: coverage_exact_def)
    then obtain pob where "Contributes pob (ph_id c) ob \<in> set coverage" by (auto simp: traced_pairs_in)
    from cov(3) [OF this] show ?thesis by (simp add: marker_of_def) metis
  qed
  show ?thesis using cov(1,2) traced by (simp add: par)
qed

theorem refinement_coverage_single_witness:
  "\<exists>r parent. apply_refinement sample_kernel refine_revision refine_grounding refine_policy refine_proposal noop_hooks = Ok r
     \<and> bt_get (sp_phases refine_base) ''b'' = Some parent
     \<and> dom (bt_get (pp_coverage refine_proposal)) = dom (bt_get (ac_statements (ph_acceptance parent)))"
proof -
  from refine_applied obtain r where
    r: "apply_refinement sample_kernel refine_revision refine_grounding refine_policy refine_proposal noop_hooks = Ok r"
    by blast
  have "bt_contains (sp_phases refine_base) (pp_parent refine_proposal)" "pp_parent refine_proposal = ''b''" by code_simp+
  then obtain parent where "bt_get (sp_phases refine_base) (pp_parent refine_proposal) = Some parent"
    by (auto simp: bt_contains_def)
  with refinement_coverage_single [OF refine_revision_new r this] r \<open>pp_parent refine_proposal = ''b''\<close>
  show ?thesis by auto
qed

text \<open>
  Applying a refinement to a valid revision does not panic, whatever the proposal: every
  indexed access and the \<open>unreachable!\<close> of the source are safe, for a kernel and hooks that do not
  panic themselves.
\<close>
theorem refinement_never_panics:
  assumes "revision_new K p s ch = Ok base" "\<And>d. datum_content_id K d \<noteq> Panic"
    "\<And>x. hk_compile_dependencies hooks x \<noteq> Panic" "\<And>x. hk_compile_outputs hooks x \<noteq> Panic"
  shows "apply_refinement K base grounding policy proposal hooks \<noteq> Panic"
  using apply_refinement_no_Panic revision_new_coherent [OF assms(1)] assms(2-4) by blast

theorem refinement_never_panics_witness:
  "apply_refinement sample_kernel refine_revision refine_grounding refine_policy refine_proposal noop_hooks \<noteq> Panic"
  by (rule refinement_never_panics [OF refine_revision_new]) (simp_all add: sample_kernel_def noop_hooks_def)

text \<open>
  A leaf is judged atomic exactly when every query of its guide is resolved by the grounding
  and no component of its derived profile exceeds the policy; the profile is the count of each
  component, and a count that does not fit 32 bits is the largest 32-bit number.
\<close>
theorem atomic_exactly_within_policy:
  "(compute_atomicity phase admitted grounding policy = Atomic p \<longleftrightarrow>
      set (g_uses (ph_guide phase)) \<subseteq> set (gr_resolved grounding)
      \<and> p = derive_profile phase admitted grounding
      \<and> (\<forall>c. component_value p c \<le> component_value (tp_maximum policy) c))
   \<and> unat (count32 n) = min n (2 ^ 32 - 1)"
proof
  have "unresolved phase grounding = [] \<longleftrightarrow> set (g_uses (ph_guide phase)) \<subseteq> set (gr_resolved grounding)"
    by (auto simp: unresolved_def filter_empty_conv)
  then show "compute_atomicity phase admitted grounding policy = Atomic p \<longleftrightarrow>
      set (g_uses (ph_guide phase)) \<subseteq> set (gr_resolved grounding)
      \<and> p = derive_profile phase admitted grounding
      \<and> (\<forall>c. component_value p c \<le> component_value (tp_maximum policy) c)"
    by (auto simp: compute_atomicity_def Let_def breaches_Nil)
  show "unat (count32 n) = min n (2 ^ 32 - 1)"
    by (simp add: count32_def unat_of_nat take_bit_nat_eq_self unsigned_minus_1_eq_mask mask_eq_exp_minus_1)
qed

text \<open>
  A revision difference hides no change. For revisions that file every phase under its own id,
  all rows say \<open>ExactReusable\<close> exactly when the two revisions have the same phases.
\<close>
theorem diff_hides_no_change:
  assumes "revision_new K p s ch = Ok old" "revision_new K p' s' ch' = Ok new"
  shows "(\<forall>row \<in> set (diff_revisions old new). rd_evidence row = ExactReusable) \<longleftrightarrow> sp_phases s = sp_phases s'"
  using diff_revisions_reusable revision_new_coherent assms by metis

theorem diff_hides_no_change_witness:
  "list_all (\<lambda>row. rd_evidence row = ExactReusable) (diff_revisions refine_revision refine_revision)"
  using diff_hides_no_change [OF refine_revision_new refine_revision_new] by (simp add: list_all_iff)

end
