(* ===== verification/Plan_Model.thy ===== *)
theory Plan_Model
  imports Refine_Apply Deck_Build
begin

text \<open>
  \<open>sim-roadmap-plan\<close>: the compilation of a revision against a source deck (\<open>compile.rs\<close>,
  \<open>ground.rs\<close>, \<open>promise.rs\<close>), and the queries on a compiled plan (\<open>completion.rs\<close>,
  \<open>readiness.rs\<close>, \<open>projection.rs\<close>, \<open>explain.rs\<close>, \<open>key.rs\<close>, \<open>query.rs\<close>).

  Two recursions of the source have no guard of their own. \<open>aggregate_complete\<close> descends through
  the listed children; a call nested more deeply than there are phases repeats a phase that is
  already being evaluated and never returns, so the number of phases plus one is fuel enough and
  running out of it is \<open>Diverge\<close>. \<open>visit\<close> adds a phase to its \<open>seen\<close> set before it descends and
  takes the same fuel.
\<close>

section \<open>Keys and observations\<close>

datatype source_query_key = KAnchor string | KExcerpt string | KSpecimen string

fun query_key :: "source_query \<Rightarrow> source_query_key" where
  "query_key (QAnchor v) = KAnchor v"
| "query_key (QExcerpt v) = KExcerpt v"
| "query_key (QSpecimen v) = KSpecimen v"

datatype plan_key =
    KeySource source_query_key
  | KeyPolicy
  | KeyPhase phase_id
  | KeyAggregate phase_id
  | KeyOutput phase_id output_id
  | KeyPromise phase_id promise_id
  | KeyAcceptance phase_id obligation_id

record observations =
  ob_completed_phases :: "phase_id fset"
  ob_outputs :: "(phase_id \<times> output_id, string) btmap"
  ob_promises :: "(phase_id \<times> promise_id) fset"
  ob_acceptance :: "(phase_id \<times> obligation_id) fset"

section \<open>Aggregate completion\<close>

text \<open>The queries have no error value: they return, panic or do not return.\<close>

type_synonym 'a query_outcome = "(unit, 'a) outcome"

text \<open>\<open>Iterator::all\<close> and \<open>Iterator::any\<close> over a test that may not return.\<close>

fun all_o :: "('a \<Rightarrow> bool query_outcome) \<Rightarrow> 'a list \<Rightarrow> bool query_outcome" where
  "all_o f [] = Ok True"
| "all_o f (x # xs) = bind_o (f x) (\<lambda>b. if b then all_o f xs else Ok False)"

fun any_o :: "('a \<Rightarrow> bool query_outcome) \<Rightarrow> 'a list \<Rightarrow> bool query_outcome" where
  "any_o f [] = Ok False"
| "any_o f (x # xs) = bind_o (f x) (\<lambda>b. if b then Ok True else any_o f xs)"

fun aggregate_fuel ::
  "nat \<Rightarrow> ('s, 'c) roadmap_spec \<Rightarrow> observations \<Rightarrow> phase_id \<Rightarrow> bool query_outcome" where
  "aggregate_fuel 0 spec obs i = Diverge"
| "aggregate_fuel (Suc fuel) spec obs i =
     (case bt_get (sp_phases spec) i of
        None \<Rightarrow> Ok False
      | Some phase \<Rightarrow>
          (case ph_body phase of
             Leaf _ \<Rightarrow> Ok (i |\<in>| ob_completed_phases obs)
           | Composite children \<Rightarrow> all_o (aggregate_fuel fuel spec obs) children))"

definition aggregate_complete ::
  "('s, 'c) roadmap_spec \<Rightarrow> observations \<Rightarrow> phase_id \<Rightarrow> bool query_outcome" where
  "aggregate_complete spec obs i = aggregate_fuel (Suc (bt_len (sp_phases spec))) spec obs i"

section \<open>Readiness\<close>

datatype blocker =
    RequiredPhase phase_id
  | RequiredOutput phase_id string
  | ImportedPhase string
  | BlockingPromise string
  | BlockingAcceptance string
  | BlockingDescent

definition dependency_blockers ::
  "('s, 'c) roadmap_spec \<Rightarrow> observations \<Rightarrow> 'c phase_dependency \<Rightarrow> blocker list query_outcome" where
  "dependency_blockers spec obs dependency =
     (case dependency of
        Requires (LocalRef needed) \<Rightarrow>
          bind_o (aggregate_complete spec obs needed) (\<lambda>b. Ok (if b then [] else [RequiredPhase needed]))
      | Requires (ImportedRef import phase _) \<Rightarrow> Ok [ImportedPhase (import @ '':'' @ phase)]
      | Consumes output \<Rightarrow>
          (case or_phase output of
             LocalRef producer \<Rightarrow>
               Ok (if bt_contains (ob_outputs obs) (producer, or_output output) then []
                   else [RequiredOutput producer (or_output output)])
           | ImportedRef import phase _ \<Rightarrow> Ok [ImportedPhase (import @ '':'' @ phase)])
      | PrefersAfter _ \<Rightarrow> Ok [])"

definition blockers ::
  "('s, 'c) roadmap_spec \<Rightarrow> observations \<Rightarrow> phase_id \<Rightarrow> blocker list query_outcome" where
  "blockers spec obs i =
     (case bt_get (sp_phases spec) i of
        None \<Rightarrow> Ok [RequiredPhase i]
      | Some phase \<Rightarrow>
          bind_o (try_fold (\<lambda>out d. bind_o (dependency_blockers spec obs d) (\<lambda>b. Ok (out @ b))) []
                    (ph_dependencies phase)) (\<lambda>out.
          Ok (out
              @ map (\<lambda>p. BlockingPromise (promise_id_of p))
                  (filter (\<lambda>p. (i, promise_id_of p) |\<notin>| ob_promises obs) (g_promises (ph_guide phase)))
              @ map BlockingAcceptance
                  (filter (\<lambda>ob. (i, ob) |\<notin>| ob_acceptance obs) (bt_keys (ac_statements (ph_acceptance phase)))))))"

section \<open>Grounding\<close>

record 'c phase_grounding =
  pg_grounding :: "'c grounding"
  pg_evidence :: "'c grounded_evidence list"
  pg_limitations :: "limitation list"

datatype ground_failure =
    GroundUnresolved source_query
  | OutOfOwner source_query
  | GroundCanonical string

fun matches_query :: "'c grounded_evidence \<Rightarrow> source_query \<Rightarrow> bool" where
  "matches_query (GAnchor a) (QAnchor q) \<longleftrightarrow> ia_id a = q"
| "matches_query (GExcerpt a) (QExcerpt q) \<longleftrightarrow> ex_id a = q"
| "matches_query (GSpecimen a) (QSpecimen q) \<longleftrightarrow> sp_id a = q"
| "matches_query _ _ \<longleftrightarrow> False"

fun evidence_owner :: "'c grounded_evidence \<Rightarrow> string" where
  "evidence_owner (GAnchor v) = ia_owner v"
| "evidence_owner (GExcerpt v) = ex_owner v"
| "evidence_owner (GSpecimen v) = sp_owner v"

definition ground_query ::
  "('s, 'c) phase_spec \<Rightarrow> 'c source_deck \<Rightarrow> 'c grounded_evidence list \<Rightarrow> source_query
     \<Rightarrow> (ground_failure, 'c grounded_evidence list) outcome" where
  "ground_query phase deck evidence query =
     bind_o (ok_or (find (\<lambda>row. matches_query row query) (sd_evidence deck)) (GroundUnresolved query)) (\<lambda>witness.
     if evidence_owner witness |\<in>| oe_mutable (ph_owners phase) \<or> evidence_owner witness |\<in>| oe_read_only (ph_owners phase)
     then Ok (evidence @ [witness]) else Err (OutOfOwner query))"

definition ground_phase ::
  "('s, 'c) kernel \<Rightarrow> ('s, 'c) phase_spec \<Rightarrow> 'c source_deck \<Rightarrow> (ground_failure, 'c phase_grounding) outcome" where
  "ground_phase K phase deck =
     bind_o (try_fold (ground_query phase deck) [] (g_uses (ph_guide phase))) (\<lambda>evidence.
     bind_o (map_err GroundCanonical (grounding_new K (g_uses (ph_guide phase)))) (\<lambda>grounding.
     Ok \<lparr>pg_grounding = grounding, pg_evidence = evidence, pg_limitations = sd_limitations deck\<rparr>))"

section \<open>Promises\<close>

text \<open>The caller's \<open>PromiseVerifier\<close>.\<close>

record promise_verifier =
  public_declaration_exists :: "string \<Rightarrow> string \<Rightarrow> bool"
  source_path_is_current :: "string \<Rightarrow> string \<Rightarrow> bool"
  specimen_exists :: "string \<Rightarrow> string \<Rightarrow> bool"

datatype promise_state = PromiseClear | PromiseCollides | PreconditionsMet | PromiseDeferred

fun check_promise :: "phase_id \<Rightarrow> 'c promise \<Rightarrow> 'c source_deck \<Rightarrow> promise_verifier \<Rightarrow> promise_state" where
  "check_promise _ (PublicDeclaration _ owner anchor) deck verifier =
     (if public_declaration_exists verifier owner anchor then PromiseCollides else PromiseClear)"
| "check_promise _ (SourcePostimage _ owner path _) deck verifier =
     (if list_ex (\<lambda>r. rs_owner r = owner) (sd_repositories deck) \<and> source_path_is_current verifier owner path
      then PreconditionsMet else PromiseDeferred)"
| "check_promise _ (CheckedSpecimen _ owner specimen) deck verifier =
     (if specimen_exists verifier owner specimen then PreconditionsMet else PromiseDeferred)"
| "check_promise _ (ProducedOutput _ _) deck verifier = PromiseDeferred"
| "check_promise _ (AcceptancePromise _ _) deck verifier = PromiseDeferred"

section \<open>Compilation\<close>

record 'c compiled_phase =
  cph_id :: phase_id
  cph_authored_order :: nat
  cph_grounding :: "'c phase_grounding"
  cph_profile :: work_profile
  cph_atomicity :: atomicity
  cph_atomic :: bool
  cph_promises :: "(string, promise_state) btmap"

record 'c compiled_plan =
  pl_revision :: "'c roadmap_revision_id"
  pl_phases :: "'c compiled_phase list"

datatype compile_failure =
    Structure failure
  | GroundFailed phase_id ground_failure
  | PromiseCollision phase_id string
  | DependencyCycle "phase_id list"
  | OutputCycle "phase_id list"
  | MissingOutput phase_id string
  | GraphLimit nat nat

type_synonym visit_state = "phase_id fset \<times> phase_id list"

fun visit ::
  "nat \<Rightarrow> ('s, 'c) roadmap_spec \<Rightarrow> visit_state \<Rightarrow> phase_id \<Rightarrow> (compile_failure, visit_state) outcome" where
  "visit 0 spec st i = Diverge"
| "visit (Suc fuel) spec st i =
     (if i |\<in>| fst st then Ok st
      else bind_o (expect (bt_get (sp_phases spec) i)) (\<lambda>phase.
        case ph_body phase of
          Leaf _ \<Rightarrow> Ok (finsert i (fst st), snd st @ [i])
        | Composite children \<Rightarrow> try_fold (visit fuel spec) (finsert i (fst st), snd st @ [i]) children))"

definition authored_order :: "('s, 'c) roadmap_revision \<Rightarrow> (compile_failure, phase_id list) outcome" where
  "authored_order revision =
     bind_o (visit (Suc (bt_len (sp_phases (rv_spec revision)))) (rv_spec revision) ({||}, [])
               (sp_root (rv_spec revision))) (\<lambda>st. Ok (snd st))"

definition validate_output ::
  "('s, 'c) roadmap_spec \<Rightarrow> phase_id \<Rightarrow> 'c phase_dependency \<Rightarrow> (compile_failure, unit) outcome" where
  "validate_output spec i dependency =
     (case dependency of
        Consumes output \<Rightarrow>
          (case or_phase output of
             LocalRef producer \<Rightarrow>
               bind_o (expect (bt_get (sp_phases spec) producer)) (\<lambda>p.
               if bt_contains (ph_outputs p) (or_output output) then Ok ()
               else Err (MissingOutput i (or_output output)))
           | ImportedRef _ _ _ \<Rightarrow> Ok ())
      | _ \<Rightarrow> Ok ())"

definition validate_outputs :: "('s, 'c) roadmap_revision \<Rightarrow> (compile_failure, unit) outcome" where
  "validate_outputs revision =
     for_each (\<lambda>(i, phase). for_each (validate_output (rv_spec revision) i) (ph_dependencies phase))
       (bt_entries (sp_phases (rv_spec revision)))"

definition record_promise ::
  "phase_id \<Rightarrow> 'c source_deck \<Rightarrow> promise_verifier \<Rightarrow> (string, promise_state) btmap \<Rightarrow> 'c promise
     \<Rightarrow> (compile_failure, (string, promise_state) btmap) outcome" where
  "record_promise i deck verifier promises promise =
     (let state = check_promise i promise deck verifier in
      if state = PromiseCollides then Err (PromiseCollision i (promise_id_of promise))
      else Ok (bt_insert (promise_id_of promise) state promises))"

definition compile_one ::
  "('s, 'c) kernel \<Rightarrow> ('s, 'c) roadmap_revision \<Rightarrow> 'c source_deck \<Rightarrow> tractability_policy \<Rightarrow> promise_verifier
     \<Rightarrow> ('s, 'c) admitted_roadmap \<Rightarrow> 'c compiled_phase list \<Rightarrow> phase_id
     \<Rightarrow> (compile_failure, 'c compiled_phase list) outcome" where
  "compile_one K revision deck policy verifier admitted phases i =
     bind_o (expect (bt_get (sp_phases (rv_spec revision)) i)) (\<lambda>phase.
     bind_o (map_err (GroundFailed i) (ground_phase K phase deck)) (\<lambda>grounding.
     bind_o (expect (bt_get (adm_phases admitted) i)) (\<lambda>entry.
     let atomicity = compute_atomicity phase entry (pg_grounding grounding) policy;
         profile = derive_profile phase entry (pg_grounding grounding) in
     bind_o (try_fold (record_promise i deck verifier) bt_empty (g_promises (ph_guide phase))) (\<lambda>promises.
     Ok (phases @ [\<lparr>cph_id = i, cph_authored_order = length phases, cph_grounding = grounding,
            cph_profile = profile, cph_atomicity = atomicity,
            cph_atomic = (case atomicity of Atomic _ \<Rightarrow> True | _ \<Rightarrow> False),
            cph_promises = promises\<rparr>])))))"

definition compile_plan ::
  "('s, 'c) kernel \<Rightarrow> ('s, 'c) roadmap_revision \<Rightarrow> 'c source_deck \<Rightarrow> tractability_policy \<Rightarrow> promise_verifier
     \<Rightarrow> (compile_failure, 'c compiled_plan) outcome" where
  "compile_plan K revision deck policy verifier =
     bind_o (map_err Structure (admit (rv_spec revision))) (\<lambda>admitted.
     if max_phases (sp_limits (rv_spec revision)) < bt_len (sp_phases (rv_spec revision))
     then Err (GraphLimit (bt_len (sp_phases (rv_spec revision))) (max_phases (sp_limits (rv_spec revision))))
     else bind_o (validate_outputs revision) (\<lambda>_.
     bind_o (authored_order revision) (\<lambda>order.
     bind_o (try_fold (compile_one K revision deck policy verifier admitted) [] order) (\<lambda>phases.
     Ok \<lparr>pl_revision = rv_id revision, pl_phases = phases\<rparr>))))"

section \<open>The ready set\<close>

definition pending_preference ::
  "('s, 'c) roadmap_spec \<Rightarrow> observations \<Rightarrow> 'c phase_dependency \<Rightarrow> bool query_outcome" where
  "pending_preference spec obs d =
     (case d of
        PrefersAfter (LocalRef other) \<Rightarrow> bind_o (aggregate_complete spec obs other) (\<lambda>b. Ok (\<not> b))
      | _ \<Rightarrow> Ok False)"

definition ready_key ::
  "('s, 'c) roadmap_spec \<Rightarrow> observations \<Rightarrow> (phase_id, nat) btmap \<Rightarrow> phase_id
     \<Rightarrow> (bool \<times> nat \<times> phase_id) query_outcome" where
  "ready_key spec obs authored i =
     bind_o (expect (bt_get (sp_phases spec) i)) (\<lambda>phase.
     bind_o (any_o (pending_preference spec obs) (ph_dependencies phase)) (\<lambda>pending.
     bind_o (expect (bt_get authored i)) (\<lambda>order. Ok (pending, order, i))))"

definition is_ready ::
  "('s, 'c) roadmap_spec \<Rightarrow> observations \<Rightarrow> 'c compiled_phase \<Rightarrow> bool query_outcome" where
  "is_ready spec obs p =
     (if cph_atomic p then bind_o (blockers spec obs (cph_id p)) (\<lambda>bs. Ok (bs = [])) else Ok False)"

text \<open>
  \<open>sort_by_key\<close> does not compute the key of a list of fewer than two elements, and computes the
  key of every element of a longer one.
\<close>

definition ready_set ::
  "('s, 'c) roadmap_spec \<Rightarrow> 'c compiled_phase list \<Rightarrow> observations \<Rightarrow> phase_id list query_outcome" where
  "ready_set spec phases obs =
     (let authored = bt_of_list (map (\<lambda>p. (cph_id p, cph_authored_order p)) phases) in
      bind_o (try_fold (\<lambda>out p. bind_o (is_ready spec obs p) (\<lambda>b. Ok (if b then out @ [cph_id p] else out))) [] phases) (\<lambda>ready.
      if length ready < 2 then Ok ready
      else bind_o (try_fold (\<lambda>out i. bind_o (ready_key spec obs authored i) (\<lambda>k. Ok (out @ [k]))) [] ready) (\<lambda>keys.
        Ok (map (\<lambda>(pending, order, i). i) (sort keys)))))"

section \<open>Explanations\<close>

datatype decision_kind = KindGrounding | KindAtomicity | KindReadiness | KindBlocker | KindCompletion
  | KindInvalidation | KindPromise | KindImpossibility

record explanation =
  xp_kind :: decision_kind
  xp_summary :: string
  xp_path :: "plan_key list"

text \<open>The \<open>Debug\<close> text of a blocker is a parameter.\<close>

definition blocker_explanation ::
  "(blocker \<Rightarrow> string) \<Rightarrow> blocker \<Rightarrow> plan_key list \<Rightarrow> nat \<Rightarrow> explanation" where
  "blocker_explanation debug b path maximum =
     \<lparr>xp_kind = KindBlocker, xp_summary = debug b, xp_path = take maximum path\<rparr>"

end
