(* ===== verification/Plan_Facts.thy ===== *)
theory Plan_Facts
  imports Plan_Model
begin

text \<open>
  Lemmas about \<open>sim-roadmap-plan\<close>: what aggregate completion and readiness mean over the tree, the
  order in which phases are compiled, and what a compiled phase records.
\<close>

section \<open>Aggregate completion\<close>

text \<open>A phase that keeps every phase above it from being complete.\<close>

definition unfinished :: "('s, 'c) roadmap_spec \<Rightarrow> observations \<Rightarrow> phase_id \<Rightarrow> bool" where
  "unfinished spec obs l \<longleftrightarrow>
     (case bt_get (sp_phases spec) l of
        None \<Rightarrow> True
      | Some phase \<Rightarrow> (\<exists>cps. ph_body phase = Leaf cps) \<and> l |\<notin>| ob_completed_phases obs)"

lemma all_o_True: "all_o f xs = Ok True \<longleftrightarrow> (\<forall>x \<in> set xs. f x = Ok True)"
  by (induction xs) (auto simp: bind_o_Ok split: if_splits)

lemma all_o_False: "all_o f xs = Ok False \<Longrightarrow> \<exists>x \<in> set xs. f x = Ok False"
  by (induction xs) (auto simp: bind_o_Ok split: if_splits)

lemma all_o_witness:
  "all_o f xs = Diverge \<Longrightarrow> \<exists>x \<in> set xs. f x = Diverge"
  "all_o f xs = Panic \<Longrightarrow> \<exists>x \<in> set xs. f x = Panic"
  "all_o f xs = Err e \<Longrightarrow> \<exists>x \<in> set xs. f x = Err e"
  by (induction xs) (auto simp: bind_o_Diverge bind_o_Panic bind_o_Err split: if_splits)

lemma any_o_Ok:
  "(\<And>x. x \<in> set xs \<Longrightarrow> \<exists>b. f x = Ok b) \<Longrightarrow> any_o f xs = Ok (\<exists>x \<in> set xs. f x = Ok True)"
proof (induction xs)
  case (Cons x xs)
  then obtain b where "f x = Ok b" by auto
  with Cons show ?case by (cases b) auto
qed simp

lemma reach_step:
  "(lists_child spec)\<^sup>*\<^sup>* i l \<longleftrightarrow> l = i \<or> (\<exists>c. lists_child spec i c \<and> (lists_child spec)\<^sup>*\<^sup>* c l)"
  by (metis converse_rtranclpE converse_rtranclp_into_rtranclp rtranclp.rtrancl_refl)

lemma aggregate_fuel_Ok:
  "aggregate_fuel n spec obs i = Ok b \<Longrightarrow>
     b \<longleftrightarrow> (\<forall>l. (lists_child spec)\<^sup>*\<^sup>* i l \<longrightarrow> \<not> unfinished spec obs l)"
proof (induction n arbitrary: i b)
  case (Suc n)
  show ?case
  proof (cases "bt_get (sp_phases spec) i")
    case None
    with Suc.prems show ?thesis by (auto simp: unfinished_def intro!: exI [of _ i])
  next
    case (Some phase)
    show ?thesis
    proof (cases "ph_body phase")
      case (Leaf cps)
      then have "\<not> lists_child spec i c" for c using Some by (simp add: lists_child_def)
      then have "(lists_child spec)\<^sup>*\<^sup>* i l \<longleftrightarrow> l = i" for l using reach_step by metis
      with Suc.prems Some Leaf show ?thesis by (simp add: unfinished_def)
    next
      case (Composite cs)
      then have kid: "lists_child spec i c \<longleftrightarrow> c \<in> set cs" for c using Some by (simp add: lists_child_def)
      have here: "\<not> unfinished spec obs i" using Some Composite by (simp add: unfinished_def)
      have run: "all_o (aggregate_fuel n spec obs) cs = Ok b" using Suc.prems Some Composite by simp
      have "b \<longleftrightarrow> (\<forall>c \<in> set cs. \<forall>l. (lists_child spec)\<^sup>*\<^sup>* c l \<longrightarrow> \<not> unfinished spec obs l)"
      proof (cases b)
        case True
        then show ?thesis using run Suc.IH by (auto simp: all_o_True)
      next
        case False
        with run all_o_False obtain c where "c \<in> set cs" "aggregate_fuel n spec obs c = Ok False" by metis
        with Suc.IH [of c False] False show ?thesis by blast
      qed
      then show ?thesis using here by (subst reach_step) (auto simp: kid)
    qed
  qed
qed simp

lemma aggregate_fuel_no_Err: "aggregate_fuel n spec obs i \<noteq> Err e"
  by (induction n arbitrary: i e) (auto split: option.splits phase_body.splits dest!: all_o_witness)

lemma aggregate_fuel_no_Panic: "aggregate_fuel n spec obs i \<noteq> Panic"
  by (induction n arbitrary: i) (auto split: option.splits phase_body.splits dest!: all_o_witness)

lemma tree_path_length:
  assumes "tree_validate spec = Ok t" "bt_get (tr_paths t) i = Some p"
  shows "length p \<le> bt_len (sp_phases spec)"
proof -
  have p: "tree_path spec p i" "bt_contains (sp_phases spec) i"
    using tree_validate_paths(1) [OF assms(1)] assms(2) by (auto simp: paths_ok_def)
  have "set p \<subseteq> dom (bt_get (sp_phases spec))"
    using tree_path_keys [OF p(1)] tree_validate_is_tree [OF assms(1)] by (auto simp: bt_contains_def is_tree_def)
  then have "card (set p) \<le> bt_len (sp_phases spec)"
    unfolding bt_len_card by (rule card_mono [rotated]) (simp flip: set_bt_keys)
  then show ?thesis using p(1) by (simp add: tree_path_def distinct_card)
qed

lemma aggregate_fuel_no_Diverge:
  assumes t: "tree_validate spec = Ok t"
  shows "bt_get (tr_paths t) i = Some p \<Longrightarrow> bt_len (sp_phases spec) < n + length p \<Longrightarrow>
     aggregate_fuel n spec obs i \<noteq> Diverge"
proof (induction n arbitrary: i p)
  case 0
  then show ?case using tree_path_length [OF t] by fastforce
next
  case (Suc n)
  have "aggregate_fuel n spec obs c \<noteq> Diverge" if "lists_child spec i c" for c
  proof (rule Suc.IH)
    show "bt_get (tr_paths t) c = Some (p @ [c])" by (rule tree_validate_child_path [OF t Suc.prems(1) that])
    show "bt_len (sp_phases spec) < n + length (p @ [c])" using Suc.prems(2) by simp
  qed
  then show ?case
    by (auto simp: lists_child_def split: option.splits phase_body.splits dest!: all_o_witness)
qed

lemma aggregate_returns:
  assumes t: "tree_validate spec = Ok t"
  shows "aggregate_complete spec obs i =
     Ok (\<forall>l. (lists_child spec)\<^sup>*\<^sup>* i l \<longrightarrow> \<not> unfinished spec obs l)"
proof -
  have "aggregate_complete spec obs i \<noteq> Diverge"
  proof (cases "bt_contains (sp_phases spec) i")
    case True
    then obtain p where "bt_get (tr_paths t) i = Some p" using tree_validate_path [OF t] by blast
    then show ?thesis
      unfolding aggregate_complete_def by (rule aggregate_fuel_no_Diverge [OF t]) simp
  qed (simp add: aggregate_complete_def bt_contains_def)
  then obtain b where "aggregate_complete spec obs i = Ok b"
    unfolding aggregate_complete_def using aggregate_fuel_no_Err aggregate_fuel_no_Panic by (metis outcome.exhaust)
  moreover from this have "b \<longleftrightarrow> (\<forall>l. (lists_child spec)\<^sup>*\<^sup>* i l \<longrightarrow> \<not> unfinished spec obs l)"
    unfolding aggregate_complete_def by (rule aggregate_fuel_Ok)
  ultimately show ?thesis by simp
qed

section \<open>Blockers\<close>

text \<open>What a dependency needs of the observations.\<close>

definition satisfied :: "('s, 'c) roadmap_spec \<Rightarrow> observations \<Rightarrow> 'c phase_dependency \<Rightarrow> bool" where
  "satisfied spec obs dep \<longleftrightarrow>
     (case dep of
        Requires (LocalRef y) \<Rightarrow> (\<forall>l. (lists_child spec)\<^sup>*\<^sup>* y l \<longrightarrow> \<not> unfinished spec obs l)
      | Requires (ImportedRef _ _ _) \<Rightarrow> False
      | Consumes out \<Rightarrow>
          (case or_phase out of LocalRef p \<Rightarrow> bt_contains (ob_outputs obs) (p, or_output out) | ImportedRef _ _ _ \<Rightarrow> False)
      | PrefersAfter _ \<Rightarrow> True)"

definition unblocked :: "('s, 'c) roadmap_spec \<Rightarrow> observations \<Rightarrow> phase_id \<Rightarrow> bool" where
  "unblocked spec obs i \<longleftrightarrow> (\<exists>phase. bt_get (sp_phases spec) i = Some phase
     \<and> (\<forall>dep \<in> set (ph_dependencies phase). satisfied spec obs dep)
     \<and> (\<forall>p \<in> set (g_promises (ph_guide phase)). (i, promise_id_of p) |\<in>| ob_promises obs)
     \<and> (\<forall>ob. bt_contains (ac_statements (ph_acceptance phase)) ob \<longrightarrow> (i, ob) |\<in>| ob_acceptance obs))"

lemma dependency_blockers_Ok:
  assumes "tree_validate spec = Ok t"
  shows "\<exists>bs. dependency_blockers spec obs dep = Ok bs \<and> (bs = [] \<longleftrightarrow> satisfied spec obs dep)"
  by (cases dep)
     (auto simp: dependency_blockers_def satisfied_def aggregate_returns [OF assms] split: phase_ref.splits)

text \<open>A loop that appends the result of every element.\<close>

lemma collect_Ok:
  assumes "\<And>x. x \<in> set xs \<Longrightarrow> f x = Ok (g x)"
  shows "try_fold (\<lambda>out x. bind_o (f x) (\<lambda>b. Ok (out @ h b x))) acc xs = Ok (acc @ concat (map (\<lambda>x. h (g x) x) xs))"
  using assms by (induction xs arbitrary: acc) auto

lemma blockers_Ok:
  assumes t: "tree_validate spec = Ok t"
  shows "\<exists>bs. blockers spec obs i = Ok bs \<and> (bs = [] \<longleftrightarrow> unblocked spec obs i)"
proof (cases "bt_get (sp_phases spec) i")
  case None
  then show ?thesis by (simp add: blockers_def unblocked_def)
next
  case (Some phase)
  from dependency_blockers_Ok [OF t, of obs] obtain g where
    g: "\<And>dep. dependency_blockers spec obs dep = Ok (g dep)" "\<And>dep. g dep = [] \<longleftrightarrow> satisfied spec obs dep" by metis
  have "try_fold (\<lambda>out d. bind_o (dependency_blockers spec obs d) (\<lambda>b. Ok (out @ b))) [] (ph_dependencies phase)
      = Ok (concat (map g (ph_dependencies phase)))"
    using collect_Ok [where h = "\<lambda>b _. b" and f = "dependency_blockers spec obs" and g = g and acc = "[]"] g(1) by simp
  then show ?thesis
    using Some g(2) by (auto simp: blockers_def unblocked_def filter_empty_conv in_bt_keys_iff)
qed

lemma is_ready_Ok:
  assumes "tree_validate spec = Ok t"
  shows "is_ready spec obs p = Ok (cph_atomic p \<and> unblocked spec obs (cph_id p))"
  using blockers_Ok [OF assms, of obs "cph_id p"] by (auto simp: is_ready_def)

section \<open>The ready set\<close>

definition preference_pending :: "('s, 'c) roadmap_spec \<Rightarrow> observations \<Rightarrow> phase_id \<Rightarrow> bool" where
  "preference_pending spec obs i \<longleftrightarrow> (\<exists>phase y. bt_get (sp_phases spec) i = Some phase
     \<and> PrefersAfter (LocalRef y) \<in> set (ph_dependencies phase)
     \<and> (\<exists>l. (lists_child spec)\<^sup>*\<^sup>* y l \<and> unfinished spec obs l))"

lemma ready_key_Ok:
  assumes t: "tree_validate spec = Ok t" and i: "bt_contains (sp_phases spec) i"
    and o: "bt_get authored i = Some n"
  shows "ready_key spec obs authored i = Ok (preference_pending spec obs i, n, i)"
proof -
  from i obtain phase where phase: "bt_get (sp_phases spec) i = Some phase" by (auto simp: bt_contains_def)
  have one: "pending_preference spec obs d =
      Ok (\<exists>y. d = PrefersAfter (LocalRef y) \<and> (\<exists>l. (lists_child spec)\<^sup>*\<^sup>* y l \<and> unfinished spec obs l))" for d
    by (auto simp: pending_preference_def aggregate_returns [OF t] split: phase_dependency.splits phase_ref.splits)
  then have "any_o (pending_preference spec obs) (ph_dependencies phase) = Ok (preference_pending spec obs i)"
    using any_o_Ok [of "ph_dependencies phase" "pending_preference spec obs"] phase
    by (auto simp: preference_pending_def)
  then show ?thesis using phase o by (simp add: ready_key_def)
qed

lemma map_insort_key: "map f (insort_key f x xs) = insort (f x) (map f xs)"
  by (induction xs) auto

lemma map_sort_key: "map f (sort_key f xs) = sort (map f xs)"
  by (induction xs) (simp_all add: map_insort_key)

text \<open>The key the ready set is sorted by, over compiled phases.\<close>

definition phase_key :: "('s, 'c) roadmap_spec \<Rightarrow> observations \<Rightarrow> 'c compiled_phase \<Rightarrow> bool \<times> nat \<times> phase_id" where
  "phase_key spec obs p = (preference_pending spec obs (cph_id p), cph_authored_order p, cph_id p)"

lemma ready_set_Ok:
  assumes t: "tree_validate spec = Ok t" and dist: "distinct (map cph_id phases)"
  shows "ready_set spec phases obs = Ok (map cph_id (sort_key (phase_key spec obs)
     (filter (\<lambda>p. cph_atomic p \<and> unblocked spec obs (cph_id p)) phases)))"
proof -
  let ?P = "\<lambda>p. cph_atomic p \<and> unblocked spec obs (cph_id p)"
  let ?A = "bt_of_list (map (\<lambda>p. (cph_id p, cph_authored_order p)) phases)"
  have ready: "try_fold (\<lambda>out p. bind_o (is_ready spec obs p) (\<lambda>b. Ok (if b then out @ [cph_id p] else out))) acc ps
      = Ok (acc @ map cph_id (filter ?P ps))" for acc ps
    by (induction ps arbitrary: acc) (auto simp: is_ready_Ok [OF t])
  have order: "bt_get ?A (cph_id p) = Some (cph_authored_order p)" if "p \<in> set phases" for p
    unfolding bt_get_of_list
    by (rule map_of_is_SomeI) (use dist that in \<open>auto simp: comp_def simp flip: rev_map\<close>)
  have key: "ready_key spec obs ?A i = Ok (phase_key spec obs p)" if "p \<in> set (filter ?P phases)" "i = cph_id p" for p i
    using that ready_key_Ok [OF t _ order, of p obs]
    by (auto simp: phase_key_def unblocked_def bt_contains_def)
  have keys: "try_fold (\<lambda>out i. bind_o (ready_key spec obs ?A i) (\<lambda>k. Ok (out @ [k]))) acc (map cph_id ps)
      = Ok (acc @ map (phase_key spec obs) ps)" if "set ps \<subseteq> set (filter ?P phases)" for acc ps
    using that key by (induction ps arbitrary: acc) auto
  have third: "map (\<lambda>(pending, order, i). i) (map (phase_key spec obs) ps) = map cph_id ps" for ps
    by (simp add: phase_key_def)
  show ?thesis
  proof (cases "length (filter ?P phases) < 2")
    case True
    then have "sort_key (phase_key spec obs) (filter ?P phases) = filter ?P phases"
      by (cases "filter ?P phases"; cases "tl (filter ?P phases)") auto
    with True show ?thesis by (simp add: ready_set_def ready)
  next
    case False
    then show ?thesis
      by (simp only: ready_set_def Let_def ready keys [OF subset_refl] append_Nil bind_o.simps length_map if_False
          flip: map_sort_key) (simp only: third)
  qed
qed

section \<open>The order of compilation\<close>

text \<open>Every phase of the order but the first comes after a phase that lists it.\<close>

definition parents_first :: "('s, 'c) roadmap_spec \<Rightarrow> phase_id list \<Rightarrow> bool" where
  "parents_first spec out \<longleftrightarrow>
     (\<forall>xs c ys. out = xs @ c # ys \<longrightarrow> xs \<noteq> [] \<longrightarrow> (\<exists>p \<in> set xs. lists_child spec p c))"

definition visited :: "('s, 'c) roadmap_spec \<Rightarrow> visit_state \<Rightarrow> bool" where
  "visited spec st \<longleftrightarrow> fset (fst st) = set (snd st) \<and> distinct (snd st) \<and> parents_first spec (snd st)
     \<and> set (snd st) \<subseteq> dom (bt_get (sp_phases spec))"

definition enters :: "('s, 'c) roadmap_spec \<Rightarrow> visit_state \<Rightarrow> phase_id \<Rightarrow> bool" where
  "enters spec st i \<longleftrightarrow> snd st = [] \<or> (\<exists>p \<in> set (snd st). lists_child spec p i)"

lemma parents_first_snoc:
  assumes "parents_first spec out" "out = [] \<or> (\<exists>p \<in> set out. lists_child spec p i)"
  shows "parents_first spec (out @ [i])"
  unfolding parents_first_def
proof (intro allI impI)
  fix xs c ys assume eq: "out @ [i] = xs @ c # ys" and "xs \<noteq> []"
  show "\<exists>p \<in> set xs. lists_child spec p c"
  proof (cases ys rule: rev_cases)
    case Nil
    then show ?thesis using eq assms(2) \<open>xs \<noteq> []\<close> by auto
  next
    case (snoc zs z)
    then have "out = xs @ c # zs" using eq by simp
    then show ?thesis using assms(1) \<open>xs \<noteq> []\<close> by (auto simp: parents_first_def)
  qed
qed

lemma visit_Suc:
  "visit (Suc n) spec st i =
     (if i |\<in>| fst st then Ok st
      else case bt_get (sp_phases spec) i of
             None \<Rightarrow> Panic
           | Some phase \<Rightarrow> try_fold (visit n spec) (finsert i (fst st), snd st @ [i]) (kids phase))"
  by (auto simp: kids_def split: option.splits phase_body.splits)

declare visit.simps(2) [simp del]

text \<open>
  One call adds phases at the end, keeps the state well formed, and leaves no added phase with an
  unseen child.
\<close>

definition visit_spec :: "('s, 'c) roadmap_spec \<Rightarrow> visit_state \<Rightarrow> visit_state \<Rightarrow> bool" where
  "visit_spec spec st st' \<longleftrightarrow> visited spec st' \<and> set (snd st) \<subseteq> set (snd st') \<and> prefix (snd st) (snd st')
     \<and> (\<forall>x \<in> set (snd st') - set (snd st). \<forall>c. lists_child spec x c \<longrightarrow> c \<in> set (snd st'))"

lemma visit_spec_trans:
  assumes a: "visit_spec spec st st1" and b: "visit_spec spec st1 st2"
  shows "visit_spec spec st st2"
proof -
  have "c \<in> set (snd st2)" if "x \<in> set (snd st2) - set (snd st)" "lists_child spec x c" for x c
  proof (cases "x \<in> set (snd st1)")
    case True
    then have "c \<in> set (snd st1)" using a that by (auto simp: visit_spec_def)
    then show ?thesis using b by (auto simp: visit_spec_def)
  next
    case False
    then show ?thesis using b that by (auto simp: visit_spec_def)
  qed
  moreover have "prefix (snd st) (snd st2)" using prefix_order.trans [of "snd st" "snd st1" "snd st2"] a b by (simp add: visit_spec_def)
  moreover have "visited spec st2" "set (snd st) \<subseteq> set (snd st2)" using a b by (auto simp: visit_spec_def)
  ultimately show ?thesis unfolding visit_spec_def by blast
qed

lemma visit_children_spec:
  assumes step: "\<And>st st' c. c \<in> set cs \<Longrightarrow> visited spec st \<Longrightarrow> enters spec st c \<Longrightarrow> f st c = Ok st' \<Longrightarrow>
      visit_spec spec st st' \<and> c \<in> set (snd st')"
    and "try_fold f st cs = Ok st'" "visited spec st" "\<And>c. c \<in> set cs \<Longrightarrow> \<exists>p \<in> set (snd st). lists_child spec p c"
  shows "visit_spec spec st st' \<and> set cs \<subseteq> set (snd st')"
  using assms
proof (induction cs arbitrary: st)
  case Nil
  then show ?case by (simp add: visit_spec_def)
next
  case (Cons c cs)
  from Cons.prems(2) obtain st1 where one: "f st c = Ok st1" and rest: "try_fold f st1 cs = Ok st'"
    by (auto simp: bind_o_Ok)
  have s1: "visit_spec spec st st1" "c \<in> set (snd st1)"
    using Cons.prems(1) [of c st st1] Cons.prems(3,4) one by (auto simp: enters_def)
  have next_: "visited spec st1" using s1(1) by (simp add: visit_spec_def)
  have listed: "\<exists>p \<in> set (snd st1). lists_child spec p d" if "d \<in> set cs" for d
    using Cons.prems(4) [of d] that s1(1) by (auto simp: visit_spec_def)
  have s2: "visit_spec spec st1 st' \<and> set cs \<subseteq> set (snd st')"
    by (rule Cons.IH [OF _ rest next_ listed]) (rule Cons.prems(1), simp_all)
  have "visit_spec spec st st'"
    by (rule visit_spec_trans [OF s1(1) conjunct1 [OF s2]])
  moreover have "set (snd st1) \<subseteq> set (snd st')" using s2 by (simp add: visit_spec_def)
  ultimately show ?case using s1(2) s2 by auto
qed

lemma visit_Ok:
  "visit n spec st i = Ok st' \<Longrightarrow> visited spec st \<Longrightarrow> enters spec st i \<Longrightarrow>
     visit_spec spec st st' \<and> i \<in> set (snd st')"
proof (induction n arbitrary: st i st')
  case (Suc n)
  show ?case
  proof (cases "i |\<in>| fst st")
    case True
    with Suc.prems show ?thesis by (auto simp: visit_spec_def visited_def visit_Suc)
  next
    case False
    with Suc.prems(1) obtain phase where phase: "bt_get (sp_phases spec) i = Some phase"
      by (auto simp: visit_Suc split: option.splits)
    let ?st = "(finsert i (fst st), snd st @ [i])"
    have now: "visited spec ?st"
      using Suc.prems(2,3) False phase parents_first_snoc [of spec "snd st" i] by (auto simp: visited_def enters_def)
    have run: "try_fold (visit n spec) ?st (kids phase) = Ok st'"
      using Suc.prems(1) False phase by (simp add: visit_Suc)
    have kid: "lists_child spec i c \<longleftrightarrow> c \<in> set (kids phase)" for c
      using phase by (auto simp: lists_child_kids)
    have "visit_spec spec ?st st' \<and> set (kids phase) \<subseteq> set (snd st')"
      by (rule visit_children_spec [OF _ run now]) (use Suc.IH kid in auto)
    then show ?thesis using kid by (auto simp: visit_spec_def dest: append_prefixD)
  qed
qed simp

lemma visit_grows: "visit n spec st i = Ok st' \<Longrightarrow> fset (fst st) \<subseteq> fset (fst st')"
proof (induction n arbitrary: st i st')
  case (Suc n)
  have kids: "try_fold (visit n spec) st1 cs = Ok st2 \<Longrightarrow> fset (fst st1) \<subseteq> fset (fst st2)" for st1 cs st2
    by (rule try_fold_invariant [where I = "\<lambda>s. fset (fst st1) \<subseteq> fset (fst s)"]) (use Suc.IH in blast)+
  from Suc.prems show ?case
    by (auto simp: visit_Suc split: if_splits option.splits dest!: kids)
qed simp

lemma visit_no_Diverge:
  "card (dom (bt_get (sp_phases spec)) - fset (fst st)) < n \<Longrightarrow> visit n spec st i \<noteq> Diverge"
proof (induction n arbitrary: st i)
  case (Suc n)
  let ?D = "dom (bt_get (sp_phases spec))" and ?s = "finsert i (fst st)"
  have fin: "finite ?D" by (simp flip: set_bt_keys)
  show ?case
  proof (cases "i |\<in>| fst st \<or> bt_get (sp_phases spec) i = None")
    case False
    then have "?D - fset ?s \<subset> ?D - fset (fst st)" by auto
    then have "card (?D - fset ?s) < card (?D - fset (fst st))" using fin by (intro psubset_card_mono) auto
    then have less: "card (?D - fset ?s) < n" using Suc.prems by linarith
    have "try_fold (visit n spec) (?s, out) cs \<noteq> Diverge" for out cs
    proof (rule try_fold_no_Diverge_inv [where I = "\<lambda>s. card (?D - fset (fst s)) < n"])
      fix s c s' assume s: "card (?D - fset (fst s)) < n" "visit n spec s c = Ok s'"
      from visit_grows [OF s(2)] have "card (?D - fset (fst s')) \<le> card (?D - fset (fst s))"
        using fin by (intro card_mono) auto
      with s(1) show "card (?D - fset (fst s')) < n" by linarith
    qed (use Suc.IH less in auto)
    with False show ?thesis by (auto simp: visit_Suc)
  qed (auto simp: visit_Suc split: option.splits)
qed simp

lemma visit_no_Panic:
  assumes kids: "\<And>a c. lists_child spec a c \<Longrightarrow> bt_contains (sp_phases spec) c"
  shows "bt_contains (sp_phases spec) i \<Longrightarrow> visit n spec st i \<noteq> Panic"
proof (induction n arbitrary: st i)
  case (Suc n)
  have "try_fold (visit n spec) st' (kids phase) \<noteq> Panic"
    if "bt_get (sp_phases spec) i = Some phase" for phase st'
  proof (rule try_fold_never_Panic)
    fix s c assume "c \<in> set (kids phase)"
    then have "lists_child spec i c" using that by (auto simp: lists_child_kids)
    then show "visit n spec s c \<noteq> Panic" using Suc.IH kids by blast
  qed
  with Suc.prems show ?case by (auto simp: bt_contains_def visit_Suc)
qed simp

lemma visit_no_Err: "visit n spec st i \<noteq> Err e"
proof (induction n arbitrary: st i)
  case (Suc n)
  have "try_fold (visit n spec) st' cs \<noteq> Err e" for st' cs
    using Suc.IH by (induction cs arbitrary: st') (auto simp: bind_o_Err)
  then show ?case by (auto simp: visit_Suc split: option.splits)
qed simp

lemma visit_prefix: "visit n spec st i = Ok st' \<Longrightarrow> prefix (snd st) (snd st')"
proof (induction n arbitrary: st i st')
  case (Suc n)
  have kids: "try_fold (visit n spec) st1 cs = Ok st2 \<Longrightarrow> prefix (snd st1) (snd st2)" for st1 cs st2
    by (rule try_fold_invariant [where I = "\<lambda>s. prefix (snd st1) (snd s)"])
       (use Suc.IH prefix_order.trans in blast)+
  from Suc.prems show ?case
    by (auto simp: visit_Suc split: if_splits option.splits dest!: kids dest: append_prefixD)
qed simp

lemma visit_first:
  assumes "visit (Suc n) spec ({||}, []) i = Ok st"
  shows "hd (snd st) = i"
proof -
  have "prefix [i] (snd st)"
    if "try_fold (visit n spec) ({|i|}, [i]) cs = Ok st" for cs
    by (rule try_fold_invariant [OF that, where I = "\<lambda>s. prefix [i] (snd s)"])
       (use visit_prefix prefix_order.trans in \<open>auto, blast\<close>)
  then show ?thesis using assms by (fastforce simp: visit_Suc prefix_def split: option.splits)
qed

lemma reachable_from_root:
  assumes "tree_path spec p k"
  shows "(lists_child spec)\<^sup>*\<^sup>* (sp_root spec) k"
proof -
  have "successively R xs \<Longrightarrow> xs \<noteq> [] \<Longrightarrow> R\<^sup>*\<^sup>* (hd xs) (last xs)" for R :: "phase_id \<Rightarrow> phase_id \<Rightarrow> bool" and xs
  proof (induction xs)
    case (Cons x xs)
    then show ?case by (cases xs) (auto intro: converse_rtranclp_into_rtranclp)
  qed simp
  then show ?thesis using assms by (metis tree_path_def)
qed

lemma authored_order_Ok:
  assumes t: "tree_validate (rv_spec revision) = Ok t"
  shows "\<exists>out. authored_order revision = Ok out \<and> distinct out \<and> parents_first (rv_spec revision) out
     \<and> set out = dom (bt_get (sp_phases (rv_spec revision))) \<and> out \<noteq> [] \<and> hd out = sp_root (rv_spec revision)"
proof -
  let ?s = "rv_spec revision"
  let ?n = "Suc (bt_len (sp_phases ?s))"
  note tree = tree_validate_is_tree [OF t]
  have "visit ?n ?s ({||}, []) (sp_root ?s) \<noteq> Diverge"
    by (rule visit_no_Diverge) (simp add: bt_len_card)
  moreover have "visit ?n ?s ({||}, []) (sp_root ?s) \<noteq> Panic"
    by (rule visit_no_Panic) (use tree in \<open>auto simp: is_tree_def\<close>)
  ultimately obtain st where run: "visit ?n ?s ({||}, []) (sp_root ?s) = Ok st"
    using visit_no_Err by (metis outcome.exhaust)
  have init: "visited ?s ({||}, [])" by (simp add: visited_def parents_first_def)
  have post: "visit_spec ?s ({||}, []) st" "sp_root ?s \<in> set (snd st)"
    using visit_Ok [OF run init] by (auto simp: enters_def)
  then have st: "visited ?s st" "\<And>x c. x \<in> set (snd st) \<Longrightarrow> lists_child ?s x c \<Longrightarrow> c \<in> set (snd st)"
    by (auto simp: visit_spec_def)
  have reach: "k \<in> set (snd st)" if "(lists_child ?s)\<^sup>*\<^sup>* (sp_root ?s) k" for k
    using that post(2) st(2) by (induction rule: rtranclp_induct) auto
  have "dom (bt_get (sp_phases ?s)) \<subseteq> set (snd st)"
  proof
    fix k assume "k \<in> dom (bt_get (sp_phases ?s))"
    then have "bt_contains (sp_phases ?s) k" by (auto simp: bt_contains_def)
    then show "k \<in> set (snd st)" using tree_validate_path [OF t] reachable_from_root reach by metis
  qed
  moreover have "hd (snd st) = sp_root ?s"
    using visit_first [OF run] by simp
  ultimately show ?thesis using run st(1) post(2) by (auto simp: authored_order_def visited_def)
qed

section \<open>What a compiled phase records\<close>

text \<open>One row of evidence per query of the guide, from the deck, of an owner the phase names.\<close>

definition evidence_for :: "('s, 'c) phase_spec \<Rightarrow> 'c source_deck \<Rightarrow> 'c grounded_evidence \<Rightarrow> source_query \<Rightarrow> bool" where
  "evidence_for phase deck row query \<longleftrightarrow> row \<in> set (sd_evidence deck) \<and> matches_query row query
     \<and> evidence_owner row |\<in>| oe_mutable (ph_owners phase) |\<union>| oe_read_only (ph_owners phase)"

lemma ground_query_Ok:
  "ground_query phase deck ev q = Ok ev' \<Longrightarrow> \<exists>row. ev' = ev @ [row] \<and> evidence_for phase deck row q"
  by (auto simp: ground_query_def bind_o_Ok evidence_for_def find_Some_iff split: if_splits)

lemma ground_queries_Ok:
  "try_fold (ground_query phase deck) ev qs = Ok ev' \<Longrightarrow>
     \<exists>rows. ev' = ev @ rows \<and> list_all2 (evidence_for phase deck) rows qs"
proof (induction qs arbitrary: ev)
  case (Cons q qs)
  then obtain ev1 where "ground_query phase deck ev q = Ok ev1"
    "try_fold (ground_query phase deck) ev1 qs = Ok ev'" by (auto simp: bind_o_Ok)
  with Cons.IH [OF this(2)] ground_query_Ok [OF this(1)] show ?case by fastforce
qed simp

lemma ground_phase_Ok:
  assumes "ground_phase K phase deck = Ok g"
  shows "list_all2 (evidence_for phase deck) (pg_evidence g) (g_uses (ph_guide phase))
     \<and> gr_resolved (pg_grounding g) = g_uses (ph_guide phase) \<and> pg_limitations g = sd_limitations deck"
  using assms ground_queries_Ok [of phase deck "[]"]
  by (fastforce simp: ground_phase_def grounding_new_def bind_o_Ok)

lemma ground_phase_no_Panic:
  assumes "\<And>d. datum_content_id K d \<noteq> Panic"
  shows "ground_phase K phase deck \<noteq> Panic"
proof -
  have "try_fold (ground_query phase deck) ev qs \<noteq> Panic" for ev qs
    by (rule try_fold_never_Panic) (auto simp: ground_query_def bind_o_Panic split: if_splits)
  then show ?thesis using assms by (auto simp: ground_phase_def grounding_new_def bind_o_Panic)
qed

lemma record_promise_Ok:
  "try_fold (record_promise i deck verifier) m ps = Ok m' \<Longrightarrow>
     (\<forall>p \<in> set ps. check_promise i p deck verifier \<noteq> PromiseCollides)
     \<and> dom (bt_get m') = dom (bt_get m) \<union> promise_id_of ` set ps"
proof (induction ps arbitrary: m)
  case (Cons p ps)
  then obtain m1 where "record_promise i deck verifier m p = Ok m1"
    "try_fold (record_promise i deck verifier) m1 ps = Ok m'" by (auto simp: bind_o_Ok)
  with Cons.IH [OF this(2)] show ?case by (auto simp: record_promise_def Let_def split: if_splits)
qed simp

definition compiled_ok ::
  "('s, 'c) roadmap_spec \<Rightarrow> ('s, 'c) admitted_roadmap \<Rightarrow> 'c source_deck \<Rightarrow> tractability_policy \<Rightarrow> promise_verifier
     \<Rightarrow> 'c compiled_phase \<Rightarrow> bool" where
  "compiled_ok spec admitted deck policy verifier p \<longleftrightarrow> (\<exists>phase entry.
     bt_get (sp_phases spec) (cph_id p) = Some phase \<and> bt_get (adm_phases admitted) (cph_id p) = Some entry
     \<and> list_all2 (evidence_for phase deck) (pg_evidence (cph_grounding p)) (g_uses (ph_guide phase))
     \<and> gr_resolved (pg_grounding (cph_grounding p)) = g_uses (ph_guide phase)
     \<and> cph_profile p = derive_profile phase entry (pg_grounding (cph_grounding p))
     \<and> cph_atomicity p = compute_atomicity phase entry (pg_grounding (cph_grounding p)) policy
     \<and> (cph_atomic p \<longleftrightarrow> cph_atomicity p = Atomic (cph_profile p))
     \<and> (\<forall>pr \<in> set (g_promises (ph_guide phase)). check_promise (cph_id p) pr deck verifier \<noteq> PromiseCollides)
     \<and> dom (bt_get (cph_promises p)) = promise_id_of ` set (g_promises (ph_guide phase)))"

lemma atomic_case:
  "(case compute_atomicity phase entry g policy of Atomic _ \<Rightarrow> True | _ \<Rightarrow> False) \<longleftrightarrow>
     compute_atomicity phase entry g policy = Atomic (derive_profile phase entry g)"
  by (auto simp: compute_atomicity_def Let_def)

lemma compile_one_Ok:
  assumes "compile_one K revision deck policy verifier admitted ps i = Ok ps'"
  shows "\<exists>p. ps' = ps @ [p] \<and> cph_id p = i \<and> cph_authored_order p = length ps
     \<and> compiled_ok (rv_spec revision) admitted deck policy verifier p"
proof -
  from assms obtain phase g entry m where
    f: "bt_get (sp_phases (rv_spec revision)) i = Some phase" "ground_phase K phase deck = Ok g"
    "bt_get (adm_phases admitted) i = Some entry"
    "try_fold (record_promise i deck verifier) bt_empty (g_promises (ph_guide phase)) = Ok m"
    and ps': "ps' = ps @ [\<lparr>cph_id = i, cph_authored_order = length ps, cph_grounding = g,
        cph_profile = derive_profile phase entry (pg_grounding g),
        cph_atomicity = compute_atomicity phase entry (pg_grounding g) policy,
        cph_atomic = (case compute_atomicity phase entry (pg_grounding g) policy of Atomic _ \<Rightarrow> True | _ \<Rightarrow> False),
        cph_promises = m\<rparr>]"
    by (auto simp: compile_one_def bind_o_Ok Let_def)
  with ground_phase_Ok [OF f(2)] record_promise_Ok [OF f(4)] show ?thesis
    by (auto simp: compiled_ok_def atomic_case)
qed

lemma compile_phases_Ok:
  assumes "try_fold (compile_one K revision deck policy verifier admitted) [] order = Ok ps"
  shows "map cph_id ps = order \<and> map cph_authored_order ps = [0..<length ps]
     \<and> (\<forall>p \<in> set ps. compiled_ok (rv_spec revision) admitted deck policy verifier p)"
  using assms
proof (induction order arbitrary: ps rule: rev_induct)
  case (snoc i order)
  then obtain qs where qs: "try_fold (compile_one K revision deck policy verifier admitted) [] order = Ok qs"
    "compile_one K revision deck policy verifier admitted qs i = Ok ps" by (auto simp: try_fold_append bind_o_Ok)
  from snoc.IH [OF qs(1)] compile_one_Ok [OF qs(2)] show ?case by auto
qed simp

section \<open>Compilation of a valid revision returns\<close>

lemma validate_outputs_no_Panic:
  assumes "\<And>phase dep. phase \<in> ran (bt_get (sp_phases (rv_spec revision))) \<Longrightarrow> dep \<in> set (ph_dependencies phase)
    \<Longrightarrow> ref_resolves (rv_spec revision) (phase_ref_of dep)"
  shows "validate_outputs revision \<noteq> Panic"
  unfolding validate_outputs_def
proof (rule for_each_no_Panic)
  fix e assume e: "e \<in> set (bt_entries (sp_phases (rv_spec revision)))"
  obtain i phase where ip: "e = (i, phase)" by (cases e)
  have ran_phase: "phase \<in> ran (bt_get (sp_phases (rv_spec revision)))"
    using e ip by (force simp: ran_entries)
  have "validate_output (rv_spec revision) i dep \<noteq> Panic" if "dep \<in> set (ph_dependencies phase)" for dep
    using assms [of phase dep, OF ran_phase that]
    by (auto simp: validate_output_def ref_resolves_def phase_ref_of_def bind_o_Panic bt_contains_def
        split: phase_dependency.splits phase_ref.splits)
  then show "(case e of (i, phase) \<Rightarrow> for_each (validate_output (rv_spec revision) i) (ph_dependencies phase)) \<noteq> Panic"
    by (auto simp: ip intro!: for_each_no_Panic)
qed

lemma compile_one_no_Panic:
  assumes "\<And>d. datum_content_id K d \<noteq> Panic"
    "bt_contains (sp_phases (rv_spec revision)) i" "bt_contains (adm_phases admitted) i"
  shows "compile_one K revision deck policy verifier admitted ps i \<noteq> Panic"
proof -
  have "try_fold (record_promise i deck verifier) m qs \<noteq> Panic" for m qs
    by (rule try_fold_never_Panic) (simp add: record_promise_def Let_def)
  then show ?thesis
    using assms ground_phase_no_Panic [OF assms(1)]
    by (auto simp: compile_one_def bind_o_Panic Let_def bt_contains_def)
qed

end
