(* ===== verification/Plan_Theorems.thy ===== *)
theory Plan_Theorems
  imports Plan_Facts Refine_Theorems Deck_Theorems
begin

text \<open>
  The properties of \<open>sim-roadmap-plan\<close>. The samples are the roadmap of \<open>Roadmap_Samples\<close> and
  variations of it, compiled against the deck of \<open>Deck_Theorems\<close>.
\<close>

definition sample_deck :: "byte list source_deck" where
  "sample_deck = (case build sample_kernel sample_debug (sample_input ''r'' ''v'') of Ok d \<Rightarrow> d
     | _ \<Rightarrow> \<lparr>sd_id = SourceDeckId [], sd_repositories = [], sd_fragments = [], sd_files = [], sd_evidence = [],
            sd_limitations = []\<rparr>)"

lemma sample_deck_built: "build sample_kernel sample_debug (sample_input ''r'' ''v'') = Ok sample_deck"
  using sample_build by (auto simp: sample_deck_def)

definition sample_verifier :: promise_verifier where
  "sample_verifier = \<lparr>public_declaration_exists = (\<lambda>_ _. False), source_path_is_current = (\<lambda>_ _. True),
     specimen_exists = (\<lambda>_ _. True)\<rparr>"

definition plan_policy :: tractability_policy where
  "plan_policy = \<lparr>tp_revision = ''v'', tp_maximum = \<lparr>wp_unknowns = 0, wp_mutable_owners = 1, wp_packages = 1,
     wp_change_targets = 1, wp_promises = 1, wp_acceptance_groups = 1, wp_checkpoints = 1\<rparr>,
     tp_maximum_children = 4\<rparr>"

definition no_observations :: observations where
  "no_observations = \<lparr>ob_completed_phases = {||}, ob_outputs = bt_empty, ob_promises = {||}, ob_acceptance = {||}\<rparr>"

text \<open>A root with the leaves \<open>b\<close>, which uses an anchor of the deck, and \<open>c\<close>, which requires \<open>b\<close>.\<close>

definition plan_spec :: sspec where
  "plan_spec = sample_roadmap ''a''
     [(''a'', (sample_phase ''a'' None (Composite [''c'', ''b'']) [] {||})
              \<lparr>ph_owners := \<lparr>oe_mutable = {||}, oe_read_only = {|''o''|}\<rparr>\<rparr>),
      (''b'', (sample_phase ''b'' (Some ''a'') (Leaf []) [] {||})
              \<lparr>ph_owners := \<lparr>oe_mutable = {||}, oe_read_only = {|''o''|}\<rparr>,
               ph_guide := no_guide\<lparr>g_uses := [QAnchor ''a1'']\<rparr>\<rparr>),
      (''c'', sample_phase ''c'' (Some ''a'') (Leaf []) [Requires (LocalRef ''b'')] {||})]"

definition plan_revision :: "(string list, byte list) roadmap_revision" where
  "plan_revision = \<lparr>rv_id = RoadmapRevisionId [1], rv_parent = None, rv_spec = plan_spec,
     rv_change = \<lparr>rc_id = ''x'', rc_rationale = ''y''\<rparr>\<rparr>"

lemma plan_revision_new:
  "revision_new sample_kernel None plan_spec \<lparr>rc_id = ''x'', rc_rationale = ''y''\<rparr> = Ok plan_revision"
  by code_simp

lemma plan_compiled:
  "\<exists>plan. compile_plan sample_kernel plan_revision sample_deck plan_policy sample_verifier = Ok plan
     \<and> map cph_id (pl_phases plan) = [''a'', ''c'', ''b'']"
  by (rule Ok_cases_intro) code_simp

section \<open>Shared facts\<close>

lemma revision_tree:
  assumes "revision_new K p s ch = Ok rv"
  obtains t adm where "rv_spec rv = s" "coherent s" "compile s = Ok adm" "tree_validate s = Ok t"
    "\<forall>phase \<in> ran (bt_get (sp_phases s)). phase_ok phase s"
proof -
  from revision_new_fields [OF assms] have wf: "well_formed K s" "rv_spec rv = s" by (auto simp: validate_spec_iff)
  then obtain adm where adm: "compile s = Ok adm" by (auto simp: well_formed_def admit_def)
  then obtain t where "tree_validate s = Ok t" by (elim compile_Ok_elim)
  with that wf adm show thesis by (auto simp: well_formed_def)
qed

lemma reachable_exists:
  assumes "tree_validate s = Ok t" "bt_contains (sp_phases s) i" "(lists_child s)\<^sup>*\<^sup>* i l"
  shows "bt_contains (sp_phases s) l"
  using assms(3,2) tree_validate_is_tree [OF assms(1)]
  by (induction rule: rtranclp_induct) (auto simp: is_tree_def)

lemma compile_plan_Ok:
  assumes "compile_plan K rv deck policy verifier = Ok plan" "compile (rv_spec rv) = Ok adm"
    "tree_validate (rv_spec rv) = Ok t"
  shows "distinct (map cph_id (pl_phases plan)) \<and> parents_first (rv_spec rv) (map cph_id (pl_phases plan))
     \<and> set (map cph_id (pl_phases plan)) = dom (bt_get (sp_phases (rv_spec rv)))
     \<and> map cph_authored_order (pl_phases plan) = [0..<length (pl_phases plan)]
     \<and> (\<forall>p \<in> set (pl_phases plan). compiled_ok (rv_spec rv) adm deck policy verifier p)"
proof -
  from authored_order_Ok [OF assms(3)] obtain out where out: "authored_order rv = Ok out" "distinct out"
    "parents_first (rv_spec rv) out" "set out = dom (bt_get (sp_phases (rv_spec rv)))" by blast
  with assms(1,2) have "try_fold (compile_one K rv deck policy verifier adm) [] out = Ok (pl_phases plan)"
    by (auto simp: compile_plan_def bind_o_Ok admit_def split: if_splits)
  from compile_phases_Ok [OF this] out show ?thesis by simp
qed

section \<open>Properties\<close>

text \<open>
  C22: Aggregate completion means what it says. On the specification of a valid revision it returns
  for every phase, and it is true exactly when every leaf at or below the phase has been observed
  complete; observing a composite phase itself complete has no effect.
\<close>
theorem aggregate_complete_exact:
  assumes "revision_new K p s ch = Ok rv" "bt_contains (sp_phases s) i"
  shows "aggregate_complete s obs i =
     Ok (\<forall>l phase cps. (lists_child s)\<^sup>*\<^sup>* i l \<longrightarrow> bt_get (sp_phases s) l = Some phase \<longrightarrow>
           ph_body phase = Leaf cps \<longrightarrow> l |\<in>| ob_completed_phases obs)"
proof -
  from revision_tree [OF assms(1)] obtain t where t: "tree_validate s = Ok t" by blast
  have "unfinished s obs l \<longleftrightarrow> (\<exists>phase cps. bt_get (sp_phases s) l = Some phase
      \<and> ph_body phase = Leaf cps \<and> l |\<notin>| ob_completed_phases obs)" if "(lists_child s)\<^sup>*\<^sup>* i l" for l
    using reachable_exists [OF t assms(2) that] by (auto simp: unfinished_def bt_contains_def)
  then show ?thesis unfolding aggregate_returns [OF t] by auto
qed

theorem aggregate_complete_exact_witness:
  "aggregate_complete plan_spec (no_observations\<lparr>ob_completed_phases := {|''a'', ''b''|}\<rparr>) ''a'' = Ok False
     \<and> (\<exists>l. (lists_child plan_spec)\<^sup>*\<^sup>* ''a'' l \<and> l |\<notin>| {|''a'', ''b''|})"
proof -
  let ?obs = "no_observations\<lparr>ob_completed_phases := {|''a'', ''b''|}\<rparr>"
  have run: "aggregate_complete plan_spec ?obs ''a'' = Ok False" by code_simp
  have "bt_contains (sp_phases plan_spec) ''a''" by code_simp
  with aggregate_complete_exact [OF plan_revision_new this, of ?obs] run show ?thesis by auto
qed

text \<open>
  C23: Compilation of a valid revision returns a plan or an error, without panicking, for a kernel
  that does not panic. A plan compiles every phase of the roadmap exactly once, in an order that
  starts at the root and puts every other phase after the phase that lists it; the recorded order
  is the position in the plan.
\<close>
theorem plan_covers_roadmap:
  assumes "revision_new K p s ch = Ok rv" "\<And>d. datum_content_id K d \<noteq> Panic"
  shows "compile_plan K rv deck policy verifier \<noteq> Panic
     \<and> (\<forall>plan. compile_plan K rv deck policy verifier = Ok plan \<longrightarrow>
          distinct (map cph_id (pl_phases plan))
          \<and> set (map cph_id (pl_phases plan)) = dom (bt_get (sp_phases s))
          \<and> map cph_authored_order (pl_phases plan) = [0..<length (pl_phases plan)]
          \<and> parents_first s (map cph_id (pl_phases plan)))"
proof -
  from revision_tree [OF assms(1)] obtain t adm where s: "rv_spec rv = s" "compile s = Ok adm" "tree_validate s = Ok t"
    "\<forall>phase \<in> ran (bt_get (sp_phases s)). phase_ok phase s" by blast
  from authored_order_Ok [OF s(3) [folded s(1)]] obtain out where out: "authored_order rv = Ok out"
    "set out = dom (bt_get (sp_phases s))" unfolding s(1) by blast
  have "compile_one K rv deck policy verifier adm ps i \<noteq> Panic" if "i \<in> set out" for ps i
    using compile_one_no_Panic [OF assms(2)] compile_entries(1) [OF s(2,3)] that out(2) s(1)
    by (auto simp: bt_contains_def)
  then have "try_fold (compile_one K rv deck policy verifier adm) [] out \<noteq> Panic"
    by (rule try_fold_never_Panic)
  moreover have "validate_outputs rv \<noteq> Panic"
    by (rule validate_outputs_no_Panic) (use s(1,4) in \<open>auto simp: phase_ok_def\<close>)
  ultimately have "compile_plan K rv deck policy verifier \<noteq> Panic"
    using s(1,2) out(1) by (auto simp: compile_plan_def bind_o_Panic admit_def)
  then show ?thesis using compile_plan_Ok [of K rv deck policy verifier _ adm t] s by auto
qed

theorem plan_covers_roadmap_witness:
  "\<exists>plan. compile_plan sample_kernel plan_revision sample_deck plan_policy sample_verifier = Ok plan
     \<and> set (map cph_id (pl_phases plan)) = dom (bt_get (sp_phases plan_spec))"
proof -
  from plan_compiled obtain plan where
    plan: "compile_plan sample_kernel plan_revision sample_deck plan_policy sample_verifier = Ok plan" by blast
  have "datum_content_id sample_kernel d \<noteq> Panic" for d by (simp add: sample_kernel_def)
  with plan_covers_roadmap [OF plan_revision_new this] plan show ?thesis by blast
qed

text \<open>
  C24: A plan is grounded. When a valid revision compiles against a built deck, every phase has one
  row of evidence per query of its guide, in order; the row answers that query, belongs to an owner
  the phase names, and rests on the verified inputs of the deck. No public declaration that a phase
  promises exists already. The phase is marked atomic exactly when its profile is within the
  policy, so a compiled phase is never reported as ungrounded.
\<close>
theorem plan_grounded:
  assumes "revision_new K p s ch = Ok rv" "build K D inp = Ok deck"
    "compile_plan K rv deck policy verifier = Ok plan" "cp \<in> set (pl_phases plan)"
  shows "\<exists>phase. bt_get (sp_phases s) (cph_id cp) = Some phase
     \<and> list_all2 (\<lambda>row query. matches_query row query
          \<and> evidence_owner row |\<in>| oe_mutable (ph_owners phase) |\<union>| oe_read_only (ph_owners phase)
          \<and> (\<exists>q \<in> set (di_queries inp). grounded_for K inp q row))
        (pg_evidence (cph_grounding cp)) (g_uses (ph_guide phase))
     \<and> (\<forall>i owner anchor. PublicDeclaration i owner anchor \<in> set (g_promises (ph_guide phase)) \<longrightarrow>
          \<not> public_declaration_exists verifier owner anchor)
     \<and> (cph_atomic cp \<longleftrightarrow> (\<forall>c. component_value (cph_profile cp) c \<le> component_value (tp_maximum policy) c))
     \<and> (\<forall>qs. cph_atomicity cp \<noteq> Ungrounded qs)"
proof -
  from revision_tree [OF assms(1)] obtain t adm where s: "rv_spec rv = s" "compile s = Ok adm" "tree_validate s = Ok t"
    by blast
  have "compiled_ok s adm deck policy verifier cp"
    using compile_plan_Ok [OF assms(3)] s assms(4) by auto
  then obtain phase entry where f: "bt_get (sp_phases s) (cph_id cp) = Some phase"
    "list_all2 (evidence_for phase deck) (pg_evidence (cph_grounding cp)) (g_uses (ph_guide phase))"
    "gr_resolved (pg_grounding (cph_grounding cp)) = g_uses (ph_guide phase)"
    "cph_profile cp = derive_profile phase entry (pg_grounding (cph_grounding cp))"
    "cph_atomicity cp = compute_atomicity phase entry (pg_grounding (cph_grounding cp)) policy"
    "cph_atomic cp \<longleftrightarrow> cph_atomicity cp = Atomic (cph_profile cp)"
    "\<forall>pr \<in> set (g_promises (ph_guide phase)). check_promise (cph_id cp) pr deck verifier \<noteq> PromiseCollides"
    unfolding compiled_ok_def by blast
  have rows: "\<exists>q \<in> set (di_queries inp). grounded_for K inp q row" if "row \<in> set (sd_evidence deck)" for row
    using build_sound [OF assms(2)] that
    by (auto simp: list_all2_conv_all_nth in_set_conv_nth) (metis nth_mem)
  have resolved: "unresolved phase (pg_grounding (cph_grounding cp)) = []"
    by (simp add: unresolved_def f(3) filter_empty_conv)
  have "\<not> public_declaration_exists verifier owner anchor"
    if "PublicDeclaration i owner anchor \<in> set (g_promises (ph_guide phase))" for i owner anchor
    using f(7) that by fastforce
  moreover have "list_all2 (\<lambda>row query. matches_query row query
          \<and> evidence_owner row |\<in>| oe_mutable (ph_owners phase) |\<union>| oe_read_only (ph_owners phase)
          \<and> (\<exists>q \<in> set (di_queries inp). grounded_for K inp q row))
        (pg_evidence (cph_grounding cp)) (g_uses (ph_guide phase))"
    using f(2) by (rule list_all2_mono) (use rows in \<open>auto simp: evidence_for_def\<close>)
  moreover have "cph_atomic cp \<longleftrightarrow> (\<forall>c. component_value (cph_profile cp) c \<le> component_value (tp_maximum policy) c)"
    "\<forall>qs. cph_atomicity cp \<noteq> Ungrounded qs"
    using resolved unfolding f(4,5,6) by (auto simp: compute_atomicity_def Let_def breaches_Nil)
  ultimately show ?thesis using f(1) by blast
qed

theorem plan_grounded_witness:
  "\<exists>plan cp. compile_plan sample_kernel plan_revision sample_deck plan_policy sample_verifier = Ok plan
     \<and> cp \<in> set (pl_phases plan) \<and> cph_id cp = ''b''
     \<and> (\<exists>row. pg_evidence (cph_grounding cp) = [row] \<and> matches_query row (QAnchor ''a1''))"
proof -
  from plan_compiled obtain plan where
    plan: "compile_plan sample_kernel plan_revision sample_deck plan_policy sample_verifier = Ok plan"
    "map cph_id (pl_phases plan) = [''a'', ''c'', ''b'']" by (elim exE conjE)
  have "''b'' \<in> set (map cph_id (pl_phases plan))" unfolding plan(2) by simp
  then obtain cp where cp: "cp \<in> set (pl_phases plan)" "cph_id cp = ''b''" by auto
  from plan_grounded [OF plan_revision_new sample_deck_built plan(1) cp(1)] obtain phase where
    phase: "bt_get (sp_phases plan_spec) ''b'' = Some phase"
    "list_all2 (\<lambda>row query. matches_query row query
          \<and> evidence_owner row |\<in>| oe_mutable (ph_owners phase) |\<union>| oe_read_only (ph_owners phase)
          \<and> (\<exists>q \<in> set (di_queries (sample_input ''r'' ''v'')). grounded_for sample_kernel (sample_input ''r'' ''v'') q row))
        (pg_evidence (cph_grounding cp)) (g_uses (ph_guide phase))" unfolding cp(2) by blast
  have "map_option (\<lambda>ph. g_uses (ph_guide ph)) (bt_get (sp_phases plan_spec) ''b'') = Some [QAnchor ''a1'']" by code_simp
  with phase(1) have "g_uses (ph_guide phase) = [QAnchor ''a1'']" by simp
  with phase(2) have "\<exists>row. pg_evidence (cph_grounding cp) = [row] \<and> matches_query row (QAnchor ''a1'')"
    by (auto simp: list_all2_Cons2)
  with plan cp show ?thesis by blast
qed

lemma phase_key_le:
  "phase_key s obs a \<le> phase_key s obs b \<Longrightarrow>
     (preference_pending s obs (cph_id a), cph_authored_order a) \<le> (preference_pending s obs (cph_id b), cph_authored_order b)"
  by (auto simp: phase_key_def)

text \<open>
  C25: The ready set is complete and deterministic. For a plan of a valid revision it is computed for
  all observations, it lists exactly the phases marked atomic whose dependencies, promises and
  acceptance obligations are all observed (a required phase through all the leaves below it), each
  once, first those without a pending preference, and within each group in authored order.
\<close>
theorem ready_set_exact:
  assumes "revision_new K p s ch = Ok rv" "compile_plan K rv deck policy verifier = Ok plan"
  shows "\<exists>cps. ready_set s (pl_phases plan) obs = Ok (map cph_id cps)
     \<and> distinct (map cph_id cps)
     \<and> (\<forall>cp. cp \<in> set cps \<longleftrightarrow> cp \<in> set (pl_phases plan) \<and> cph_atomic cp \<and> unblocked s obs (cph_id cp))
     \<and> sorted (map (\<lambda>cp. (preference_pending s obs (cph_id cp), cph_authored_order cp)) cps)"
proof -
  from revision_tree [OF assms(1)] obtain t adm where s: "rv_spec rv = s" "compile s = Ok adm" "tree_validate s = Ok t"
    by blast
  have dist: "distinct (map cph_id (pl_phases plan))" using compile_plan_Ok [OF assms(2)] s by auto
  let ?cps = "sort_key (phase_key s obs) (filter (\<lambda>p. cph_atomic p \<and> unblocked s obs (cph_id p)) (pl_phases plan))"
  have "sorted (map (phase_key s obs) ?cps)" by simp
  then have "sorted (map (\<lambda>cp. (preference_pending s obs (cph_id cp), cph_authored_order cp)) ?cps)"
    unfolding sorted_map by (rule sorted_wrt_mono_rel [rotated]) (rule phase_key_le)
  moreover have "distinct (map cph_id ?cps)"
    using dist by (metis (no_types, lifting) distinct_filter distinct_map distinct_sort inj_on_subset set_filter set_sort mem_Collect_eq subsetI)
  ultimately show ?thesis using ready_set_Ok [OF s(3) dist, of obs] by (intro exI [of _ ?cps]) auto
qed

theorem ready_set_exact_witness:
  "\<exists>plan (cps :: byte list compiled_phase list).
     compile_plan sample_kernel plan_revision sample_deck plan_policy sample_verifier = Ok plan
     \<and> ready_set plan_spec (pl_phases plan) no_observations = Ok (map cph_id cps) \<and> distinct (map cph_id cps)"
proof -
  from plan_compiled obtain plan where
    plan: "compile_plan sample_kernel plan_revision sample_deck plan_policy sample_verifier = Ok plan" by blast
  from ready_set_exact [OF plan_revision_new plan, of no_observations] plan show ?thesis by blast
qed

text \<open>What one set of observations establishes, another one does too.\<close>

definition established_in :: "observations \<Rightarrow> observations \<Rightarrow> bool" where
  "established_in obs obs' \<longleftrightarrow> ob_completed_phases obs |\<subseteq>| ob_completed_phases obs'
     \<and> dom (bt_get (ob_outputs obs)) \<subseteq> dom (bt_get (ob_outputs obs'))
     \<and> ob_promises obs |\<subseteq>| ob_promises obs' \<and> ob_acceptance obs |\<subseteq>| ob_acceptance obs'"

lemma satisfied_mono: "established_in obs obs' \<Longrightarrow> satisfied s obs dep \<Longrightarrow> satisfied s obs' dep"
  by (auto simp: satisfied_def established_in_def unfinished_def bt_contains_def subset_iff dom_def
      split: phase_dependency.splits phase_ref.splits option.splits)

lemma unblocked_mono: "established_in obs obs' \<Longrightarrow> unblocked s obs i \<Longrightarrow> unblocked s obs' i"
  using satisfied_mono [of obs obs' s] unfolding unblocked_def established_in_def by (meson fsubsetD)

text \<open>
  Progress is monotone. Observing more never takes a phase out of the ready set of a plan of a
  valid revision; in particular a phase that has been completed stays in it.
\<close>
theorem ready_set_monotone:
  assumes "revision_new K p s ch = Ok rv" "compile_plan K rv deck policy verifier = Ok plan"
    "established_in obs obs'" "ready_set s (pl_phases plan) obs = Ok ready"
    "ready_set s (pl_phases plan) obs' = Ok ready'"
  shows "set ready \<subseteq> set ready'"
proof -
  from revision_tree [OF assms(1)] obtain t adm where s: "rv_spec rv = s" "compile s = Ok adm" "tree_validate s = Ok t"
    by blast
  have dist: "distinct (map cph_id (pl_phases plan))" using compile_plan_Ok [OF assms(2)] s by auto
  show ?thesis
    using assms(4,5) unblocked_mono [OF assms(3), of s] unfolding ready_set_Ok [OF s(3) dist] by (auto intro: imageI)
qed

definition all_done :: observations where
  "all_done = no_observations\<lparr>ob_completed_phases := {|''b'', ''c''|}\<rparr>"

text \<open>
  The ready set of the sample plan with every leaf completed: the completed leaves and the composite
  root are all listed as ready.
\<close>

theorem completed_and_composite_stay_ready:
  "\<exists>plan. compile_plan sample_kernel plan_revision sample_deck plan_policy sample_verifier = Ok plan
     \<and> ready_set plan_spec (pl_phases plan) no_observations = Ok [''a'', ''b'']
     \<and> ready_set plan_spec (pl_phases plan) all_done = Ok [''a'', ''c'', ''b'']"
  by (rule Ok_cases_intro) code_simp

theorem ready_set_monotone_witness:
  "\<exists>plan ready ready'. compile_plan sample_kernel plan_revision sample_deck plan_policy sample_verifier = Ok plan
     \<and> ready_set plan_spec (pl_phases plan) no_observations = Ok ready
     \<and> ready_set plan_spec (pl_phases plan) all_done = Ok ready' \<and> set ready \<subseteq> set ready'"
proof -
  from completed_and_composite_stay_ready obtain plan where
    plan: "compile_plan sample_kernel plan_revision sample_deck plan_policy sample_verifier = Ok plan"
    "ready_set plan_spec (pl_phases plan) no_observations = Ok [''a'', ''b'']"
    "ready_set plan_spec (pl_phases plan) all_done = Ok [''a'', ''c'', ''b'']" by blast
  have "established_in no_observations all_done"
    by (simp add: established_in_def all_done_def no_observations_def)
  from ready_set_monotone [OF plan_revision_new plan(1) this plan(2,3)] plan show ?thesis by blast
qed

text \<open>
  A phase that states no owners of its own inherits those of its parent on admission, but cannot be
  grounded: every query is rejected, whatever the deck.
\<close>

theorem inherited_owners_do_not_ground:
  assumes "ph_owners phase = \<lparr>oe_mutable = {||}, oe_read_only = {||}\<rparr>" "g_uses (ph_guide phase) = q # qs"
  shows "ground_phase K phase deck = Err (GroundUnresolved q) \<or> ground_phase K phase deck = Err (OutOfOwner q)"
  using assms by (auto simp: ground_phase_def ground_query_def ok_or_def split: option.splits)

section \<open>Dependency cycles\<close>

definition reports_cycle :: "(compile_failure, 'a) outcome \<Rightarrow> bool" where
  "reports_cycle r \<longleftrightarrow> (\<exists>c. r = Err (DependencyCycle c) \<or> r = Err (OutputCycle c))"

lemma reports_cycle_simps [simp]:
  "\<not> reports_cycle (Ok x)" "\<not> reports_cycle Panic" "\<not> reports_cycle Diverge"
  "reports_cycle (Err e) \<longleftrightarrow> (\<exists>c. e = DependencyCycle c \<or> e = OutputCycle c)"
  by (auto simp: reports_cycle_def)

lemma reports_cycle_bind: "\<not> reports_cycle r \<Longrightarrow> (\<And>x. \<not> reports_cycle (f x)) \<Longrightarrow> \<not> reports_cycle (bind_o r f)"
  by (cases r) auto

lemma reports_cycle_map_err: "(\<And>e. \<not> reports_cycle (Err (g e) :: (compile_failure, 'a) outcome)) \<Longrightarrow>
    \<not> reports_cycle (map_err g r :: (compile_failure, 'a) outcome)"
  by (cases r) auto

lemma reports_cycle_for_each: "(\<And>x. \<not> reports_cycle (f x)) \<Longrightarrow> \<not> reports_cycle (for_each f xs)"
  by (induction xs) (simp_all add: reports_cycle_bind)

lemma compile_plan_no_cycle_report: "\<not> reports_cycle (compile_plan K rv deck policy verifier)"
proof -
  have promises: "\<not> reports_cycle (try_fold (record_promise i deck verifier) m ps)" for i m ps
    by (rule try_fold_excludes [where I = "\<lambda>_. True"]) (auto simp: record_promise_def Let_def)
  have one: "\<not> reports_cycle (compile_one K rv deck policy verifier adm ps i)" for adm ps i
    unfolding compile_one_def Let_def
    by (intro reports_cycle_bind reports_cycle_map_err promises) (auto simp: expect_def split: option.splits)
  have dependency: "\<not> reports_cycle (validate_output s i dep)" for s i dep
    by (auto simp: validate_output_def expect_def split: phase_dependency.splits phase_ref.splits option.splits)
  have outputs: "\<not> reports_cycle (validate_outputs rv)"
    unfolding validate_outputs_def by (rule reports_cycle_for_each) (simp add: split_beta reports_cycle_for_each [OF dependency])
  have order: "\<not> reports_cycle (authored_order rv)"
    by (simp add: reports_cycle_def authored_order_def bind_o_Err visit_no_Err)
  have loop: "\<not> reports_cycle (try_fold (compile_one K rv deck policy verifier adm) ps order)" for adm ps order
    by (rule try_fold_excludes [where I = "\<lambda>_. True"]) (use one in auto)
  show ?thesis
    unfolding compile_plan_def
    by (intro reports_cycle_bind reports_cycle_map_err)
       (simp_all add: reports_cycle_bind outputs order loop)
qed

text \<open>
  C26: Cyclic requirements deadlock a plan and are never reported. Compilation returns neither a
  \<open>DependencyCycle\<close> nor an \<open>OutputCycle\<close> on any input. Take any set of leaves of a valid revision in
  which every phase requires some phase at or above a member of the set (two leaves that require
  each other, or one leaf that requires its own ancestor): as long as none of them is observed
  complete, none of them is ever ready, whatever else is observed.
\<close>
theorem dependency_cycle_deadlocks:
  assumes "revision_new K p s ch = Ok rv" "compile_plan K rv deck policy verifier = Ok plan"
    and cycle: "\<forall>x \<in> S. \<exists>phase y z leaf cps. bt_get (sp_phases s) x = Some phase
        \<and> Requires (LocalRef y) \<in> set (ph_dependencies phase) \<and> (lists_child s)\<^sup>*\<^sup>* y z
        \<and> z \<in> S \<and> bt_get (sp_phases s) z = Some leaf \<and> ph_body leaf = Leaf cps"
    and "\<forall>x \<in> S. x |\<notin>| ob_completed_phases obs"
    and "ready_set s (pl_phases plan) obs = Ok ready"
  shows "set ready \<inter> S = {}
     \<and> (\<forall>K' rv' deck' policy' verifier' c.
          compile_plan (K' :: ('s, 'c) kernel) rv' deck' policy' verifier' \<noteq> Err (DependencyCycle c)
          \<and> compile_plan K' rv' deck' policy' verifier' \<noteq> Err (OutputCycle c))"
proof
  from revision_tree [OF assms(1)] obtain t adm where s: "rv_spec rv = s" "compile s = Ok adm" "tree_validate s = Ok t"
    by blast
  have dist: "distinct (map cph_id (pl_phases plan))" using compile_plan_Ok [OF assms(2)] s by auto
  have "\<not> unblocked s obs x" if x: "x \<in> S" for x
  proof -
    from cycle x obtain phase y z leaf cps where f: "bt_get (sp_phases s) x = Some phase"
      "Requires (LocalRef y) \<in> set (ph_dependencies phase)" "(lists_child s)\<^sup>*\<^sup>* y z" "z \<in> S"
      "bt_get (sp_phases s) z = Some leaf" "ph_body leaf = Leaf cps" by blast
    have "unfinished s obs z" using f(4-6) assms(4) by (simp add: unfinished_def)
    then have "\<not> satisfied s obs (Requires (LocalRef y))" using f(3) by (auto simp: satisfied_def)
    with f(1,2) show ?thesis by (auto simp: unblocked_def)
  qed
  then show "set ready \<inter> S = {}" using assms(5) unfolding ready_set_Ok [OF s(3) dist] by auto
  show "\<forall>K' rv' deck' policy' verifier' c.
      compile_plan (K' :: ('s, 'c) kernel) rv' deck' policy' verifier' \<noteq> Err (DependencyCycle c)
      \<and> compile_plan K' rv' deck' policy' verifier' \<noteq> Err (OutputCycle c)"
    using compile_plan_no_cycle_report by (metis reports_cycle_def)
qed

definition cyclic_spec :: sspec where
  "cyclic_spec = sample_roadmap ''a''
     [(''a'', sample_phase ''a'' None (Composite [''b'', ''c'']) [] {||}),
      (''b'', sample_phase ''b'' (Some ''a'') (Leaf []) [Requires (LocalRef ''c'')] {||}),
      (''c'', sample_phase ''c'' (Some ''a'') (Leaf []) [Requires (LocalRef ''a'')] {||})]"

definition cyclic_revision :: "(string list, byte list) roadmap_revision" where
  "cyclic_revision = \<lparr>rv_id = RoadmapRevisionId [1], rv_parent = None, rv_spec = cyclic_spec,
     rv_change = \<lparr>rc_id = ''x'', rc_rationale = ''y''\<rparr>\<rparr>"

lemma cyclic_compiles:
  "revision_new sample_kernel None cyclic_spec \<lparr>rc_id = ''x'', rc_rationale = ''y''\<rparr> = Ok cyclic_revision"
  "\<exists>plan. compile_plan sample_kernel cyclic_revision sample_deck plan_policy sample_verifier = Ok plan
     \<and> ready_set cyclic_spec (pl_phases plan) no_observations = Ok [''a'']"
  by (code_simp) (rule Ok_cases_intro, code_simp)

theorem dependency_cycle_deadlocks_witness:
  "\<exists>plan ready. compile_plan sample_kernel cyclic_revision sample_deck plan_policy sample_verifier = Ok plan
     \<and> ready_set cyclic_spec (pl_phases plan) no_observations = Ok ready
     \<and> set ready \<inter> {''b'', ''c''} = {}"
proof -
  from cyclic_compiles(2) obtain plan where
    plan: "compile_plan sample_kernel cyclic_revision sample_deck plan_policy sample_verifier = Ok plan"
    "ready_set cyclic_spec (pl_phases plan) no_observations = Ok [''a'']" by blast
  obtain b c where bc: "bt_get (sp_phases cyclic_spec) ''b'' = Some b" "bt_get (sp_phases cyclic_spec) ''c'' = Some c"
    "ph_dependencies b = [Requires (LocalRef ''c'')]" "ph_dependencies c = [Requires (LocalRef ''a'')]"
    "ph_body b = Leaf []" "ph_body c = Leaf []"
    by (simp add: cyclic_spec_def sample_defs tree_eval)
  have ab: "lists_child cyclic_spec ''a'' ''b''"
    by (auto simp: lists_child_def cyclic_spec_def sample_defs tree_eval)
  have "\<forall>x \<in> {''b'', ''c''}. \<exists>phase y z leaf cps. bt_get (sp_phases cyclic_spec) x = Some phase
        \<and> Requires (LocalRef y) \<in> set (ph_dependencies phase) \<and> (lists_child cyclic_spec)\<^sup>*\<^sup>* y z
        \<and> z \<in> {''b'', ''c''} \<and> bt_get (sp_phases cyclic_spec) z = Some leaf \<and> ph_body leaf = Leaf cps"
    using bc r_into_rtranclp [of "lists_child cyclic_spec", OF ab] by auto
  from dependency_cycle_deadlocks [OF cyclic_compiles(1) plan(1) this _ plan(2)] plan
  show ?thesis by (simp add: no_observations_def)
qed

end
