(* ===== verification/Kernel_Expr.thy ===== *)
theory Kernel_Expr
  imports Kernel
begin

text \<open>
  \<open>sim_kernel::Expr\<close>, the expressions journals and records carry: the constructors are those the
  exhaustive match of \<open>canonical_expr\<close> names. A quote mode is represented by its \<open>Debug\<close> text.
  \<open>symbol_ops\<close> extends the kernel with the two fields of \<open>Symbol\<close> the sources read.
\<close>

datatype 's expr =
    ENil
  | EBool bool
  | ENumber 's string
  | ESymbol 's
  | ELocal 's
  | EString string
  | EBytes "byte list"
  | EList "'s expr list"
  | EVector "'s expr list"
  | EMap "('s expr \<times> 's expr) list"
  | ESet "'s expr list"
  | ECall "'s expr" "'s expr list"
  | EInfix 's "'s expr" "'s expr"
  | EPrefix 's "'s expr"
  | EPostfix 's "'s expr"
  | EBlock "'s expr list"
  | EQuote string "'s expr"
  | EAnnotated "'s expr" "('s \<times> 's expr) list"
  | EExtension 's "'s expr"

record ('s, 'c) symbol_kernel = "('s, 'c) kernel" +
  sym_namespace :: "'s \<Rightarrow> string option"
  sym_name :: "'s \<Rightarrow> string"

text \<open>
  Documented behaviour: \<open>Symbol::new\<close> makes a symbol without a namespace, and a symbol is
  determined by its namespace and name.
\<close>

definition symbol_parts :: "('s, 'c) symbol_kernel \<Rightarrow> bool" where
  "symbol_parts K \<longleftrightarrow>
     (\<forall>n. sym_namespace K (sym_new K n) = None \<and> sym_name K (sym_new K n) = n)
     \<and> (\<forall>a n. sym_namespace K (sym_qualified K a n) = Some a \<and> sym_name K (sym_qualified K a n) = n)
     \<and> (\<forall>s t. sym_namespace K s = sym_namespace K t \<longrightarrow> sym_name K s = sym_name K t \<longrightarrow> s = t)"

section \<open>Unsigned integers as text and bytes\<close>

text \<open>\<open>u64::to_string\<close>, \<open>str::parse::<u64>\<close> and \<open>u64::to_be_bytes\<close>.\<close>

definition u64_text :: "64 word \<Rightarrow> string" where
  "u64_text w = digits10 (unat w)"

definition is_digit :: "char \<Rightarrow> bool" where
  "is_digit c \<longleftrightarrow> (48::nat) \<le> of_char c \<and> (of_char c :: nat) \<le> 57"

definition parse_u64 :: "string \<Rightarrow> 64 word option" where
  "parse_u64 s =
     (let ds = (case s of [] \<Rightarrow> [] | c # r \<Rightarrow> if c = CHR ''+'' then r else s) in
      if ds = [] \<or> \<not> list_all is_digit ds \<or> 18446744073709551616 \<le> int (undigits10 ds) then None
      else Some (word_of_int (int (undigits10 ds))))"

definition be_bytes :: "64 word \<Rightarrow> byte list" where
  "be_bytes w = map (\<lambda>i. ucast (drop_bit (8 * i) w)) [7, 6, 5, 4, 3, 2, 1, 0]"

definition str_bytes :: "string \<Rightarrow> byte list" where
  "str_bytes s = map (\<lambda>c. of_nat (of_char c)) s"

lemma is_digit_char_of: "(d::nat) < 10 \<Longrightarrow> is_digit (char_of (48 + d))"
  by (simp add: is_digit_def)

lemma digits10_digits: "list_all is_digit (digits10 n)"
proof (induction n rule: digits10.induct)
  case (1 n)
  show ?case
    by (subst digits10.simps) (use 1 in \<open>auto simp: is_digit_char_of [simplified]\<close>)
qed

lemma digits10_not_Nil [simp]: "digits10 n \<noteq> []"
  by (subst digits10.simps) simp

lemma parse_u64_text [simp]: "parse_u64 (u64_text w) = Some w"
proof -
  obtain c r where ds: "digits10 (unat w) = c # r" by (cases "digits10 (unat w)") auto
  have digits: "list_all is_digit (c # r)" using digits10_digits [of "unat w"] by (simp add: ds)
  then have "c \<noteq> CHR ''+''" by (auto simp: is_digit_def)
  moreover have "undigits10 (c # r) = unat w" by (simp flip: ds)
  moreover have "unat w < 18446744073709551616" using unsigned_less [of w, where ?'a = nat] by simp
  ultimately show ?thesis using digits by (simp add: parse_u64_def u64_text_def Let_def ds)
qed

lemma length_be_bytes [simp]: "length (be_bytes w) = 8"
  by (simp add: be_bytes_def)

lemma be_bytes_inj [simp]: "be_bytes a = be_bytes b \<longleftrightarrow> a = b"
proof
  assume eq: "be_bytes a = be_bytes b"
  show "a = b"
  proof (rule bit_word_eqI)
    fix n assume n: "n < LENGTH(64)"
    have "ucast (drop_bit (8 * i) a) = (ucast (drop_bit (8 * i) b) :: byte)" if "i < 8" for i
      using eq that unfolding be_bytes_def by (auto simp: less_Suc_eq numeral_eq_Suc)
    from this [of "n div 8"] n have "bit (ucast (drop_bit (8 * (n div 8)) a) :: byte) (n mod 8)
        = bit (ucast (drop_bit (8 * (n div 8)) b) :: byte) (n mod 8)" by simp
    then show "bit a n = bit b n"
      by (simp add: bit_ucast_iff bit_drop_bit_eq)
  qed
qed simp

lemma str_bytes_inj [simp]: "str_bytes a = str_bytes b \<longleftrightarrow> a = b"
proof -
  have small: "(of_char c :: nat) < 2 ^ LENGTH(8)" for c using nat_of_char_less_256 [of c] by simp
  have "(of_nat (of_char c) :: byte) = of_nat (of_char d) \<longleftrightarrow> c = d" for c d
    using small [of c] small [of d] by (metis of_char_eq_iff of_nat_inverse)
  then show ?thesis
    unfolding str_bytes_def by (metis inj_def inj_map_eq_map)
qed

end
