(* ===== verification/Conduct_Usage.thy ===== *)
theory Conduct_Usage
  imports Kernel_Expr
begin

text \<open>
  \<open>sim-lib-agent-conduct-core/src/usage.rs\<close>: quantities of an open set of units, pointwise budgets
  and accumulated usage. Amounts are 64-bit; \<open>checked_add\<close> and the plain \<open>+=\<close> of \<open>charge\<close> are kept
  apart. The latter panics on overflow where the build checks overflow (\<open>checks\<close>) and wraps
  where it does not.
\<close>

record 's usage_quantity =
  uq_unit :: 's
  uq_amount :: "64 word"

datatype 's usage_error =
    UsageDuplicate 's
  | UsageExceeded 's "64 word" "64 word" "64 word"
  | UsageMalformed string

definition usage_error_text :: "('s, 'c, 'x) kernel_scheme \<Rightarrow> 's usage_error \<Rightarrow> string" where
  "usage_error_text K e =
     (case e of
        UsageDuplicate u \<Rightarrow> ''duplicate usage dimension '' @ sym_to_string K u
      | UsageExceeded u used charge limit \<Rightarrow>
          ''usage '' @ sym_to_string K u @ '' would exceed '' @ u64_text limit @ '': '' @ u64_text used
            @ '' + '' @ u64_text charge
      | UsageMalformed m \<Rightarrow> m)"

record 's agent_usage_budget =
  ub_limits :: "'s usage_quantity list"

record 's agent_usage =
  us_quantities :: "'s usage_quantity list"

definition usage_unique ::
  "('s, 'c, 'x) kernel_scheme \<Rightarrow> 's usage_quantity list \<Rightarrow> ('s usage_error, unit) outcome" where
  "usage_unique K vals =
     bind_o (try_fold (\<lambda>seen v.
       if sym_to_string K (uq_unit v) |\<in>| seen then Err (UsageDuplicate (uq_unit v))
       else Ok (finsert (sym_to_string K (uq_unit v)) seen)) {||} vals) (\<lambda>_. Ok ())"

definition usage_map :: "('s::linorder) usage_quantity list \<Rightarrow> ('s, 64 word) btmap" where
  "usage_map vals = bt_of_list (map (\<lambda>q. (uq_unit q, uq_amount q)) vals)"

section \<open>Budgets\<close>

definition budget_new ::
  "('s, 'c, 'x) kernel_scheme \<Rightarrow> 's usage_quantity list \<Rightarrow> ('s usage_error, 's agent_usage_budget) outcome" where
  "budget_new K limits = bind_o (usage_unique K limits) (\<lambda>_. Ok \<lparr>ub_limits = limits\<rparr>)"

definition narrow_limit :: "('s::linorder, 64 word) btmap \<Rightarrow> 's \<times> 64 word \<Rightarrow> ('s, 64 word) btmap" where
  "narrow_limit m e =
     (case bt_get m (fst e) of
        Some old \<Rightarrow> bt_insert (fst e) (min old (snd e)) m
      | None \<Rightarrow> bt_insert (fst e) (snd e) m)"

definition narrow :: "('s::linorder) agent_usage_budget \<Rightarrow> 's agent_usage_budget \<Rightarrow> 's agent_usage_budget" where
  "narrow self later =
     \<lparr>ub_limits = map (\<lambda>(u, a). \<lparr>uq_unit = u, uq_amount = a\<rparr>)
        (bt_entries (foldl narrow_limit (usage_map (ub_limits self)) (bt_entries (usage_map (ub_limits later)))))\<rparr>"

definition checked_add64 :: "64 word \<Rightarrow> 64 word \<Rightarrow> 64 word option" where
  "checked_add64 a b = (if uint a + uint b < 18446744073709551616 then Some (a + b) else None)"

definition usage_amount :: "'s agent_usage \<Rightarrow> 's \<Rightarrow> 64 word" where
  "usage_amount usage unit =
     (case find (\<lambda>q. uq_unit q = unit) (us_quantities usage) of None \<Rightarrow> 0 | Some q \<Rightarrow> uq_amount q)"

definition usage_admit ::
  "'s agent_usage_budget \<Rightarrow> 's agent_usage \<Rightarrow> 's usage_quantity \<Rightarrow> ('s usage_error, unit) outcome" where
  "usage_admit budget usage charge =
     (case find (\<lambda>v. uq_unit v = uq_unit charge) (ub_limits budget) of
        None \<Rightarrow> Ok ()
      | Some limit \<Rightarrow>
          let used = usage_amount usage (uq_unit charge) in
          if (case checked_add64 used (uq_amount charge) of None \<Rightarrow> True | Some n \<Rightarrow> uq_amount limit < n)
          then Err (UsageExceeded (uq_unit charge) used (uq_amount charge) (uq_amount limit))
          else Ok ())"

section \<open>Usage\<close>

definition usage_new ::
  "('s, 'c, 'x) kernel_scheme \<Rightarrow> 's usage_quantity list \<Rightarrow> ('s usage_error, 's agent_usage) outcome" where
  "usage_new K quantities = bind_o (usage_unique K quantities) (\<lambda>_. Ok \<lparr>us_quantities = quantities\<rparr>)"

text \<open>\<open>iter_mut().find(..)\<close> followed by \<open>+=\<close>: the first quantity of the unit is increased.\<close>

fun add_to_first ::
  "bool \<Rightarrow> 's usage_quantity \<Rightarrow> 's usage_quantity list \<Rightarrow> ('s usage_error, 's usage_quantity list) outcome option" where
  "add_to_first checks charge [] = None"
| "add_to_first checks charge (q # qs) =
     (if uq_unit q = uq_unit charge
      then Some (if checks \<and> checked_add64 (uq_amount q) (uq_amount charge) = None then Panic
                 else Ok (q\<lparr>uq_amount := uq_amount q + uq_amount charge\<rparr> # qs))
      else map_option (\<lambda>r. bind_o r (\<lambda>qs'. Ok (q # qs'))) (add_to_first checks charge qs))"

definition usage_charge ::
  "('s, 'c, 'x) kernel_scheme \<Rightarrow> bool \<Rightarrow> 's agent_usage \<Rightarrow> 's agent_usage_budget \<Rightarrow> 's usage_quantity
     \<Rightarrow> ('s usage_error, 's agent_usage) outcome" where
  "usage_charge K checks usage budget charge =
     bind_o (usage_admit budget usage charge) (\<lambda>_.
     case add_to_first checks charge (us_quantities usage) of
       Some r \<Rightarrow> bind_o r (\<lambda>qs. Ok \<lparr>us_quantities = qs\<rparr>)
     | None \<Rightarrow> Ok \<lparr>us_quantities =
         sort_key (\<lambda>q. sym_to_string K (uq_unit q)) (us_quantities usage @ [charge])\<rparr>)"

section \<open>Encoding of quantities\<close>

definition int_expr :: "('s, 'c, 'x) kernel_scheme \<Rightarrow> 64 word \<Rightarrow> 's expr" where
  "int_expr K value = ENumber (sym_qualified K ''citizen'' ''int'') (u64_text value)"

definition quantity_encode :: "('s, 'c, 'x) kernel_scheme \<Rightarrow> 's usage_quantity list \<Rightarrow> 's expr" where
  "quantity_encode K vals = EList (map (\<lambda>q. EList [ESymbol (uq_unit q), int_expr K (uq_amount q)]) vals)"

definition decode_quantity ::
  "'s usage_quantity list \<Rightarrow> 's expr \<Rightarrow> (kernel_error, 's usage_quantity list) outcome" where
  "decode_quantity vals row =
     (case row of
        EList parts \<Rightarrow>
          (case parts of
             [ESymbol unit, ENumber _ canonical] \<Rightarrow>
               (case parse_u64 canonical of
                  None \<Rightarrow> Err (EvalError ''usage amount must be a non-negative u64 integer'')
                | Some amount \<Rightarrow> Ok (vals @ [\<lparr>uq_unit = unit, uq_amount = amount\<rparr>]))
           | _ \<Rightarrow> Err (EvalError ''usage quantity must contain a symbol and integer''))
      | _ \<Rightarrow> Err (EvalError ''usage quantity must be (unit amount)''))"

definition quantity_decode ::
  "('s, 'c, 'x) kernel_scheme \<Rightarrow> 's expr \<Rightarrow> (kernel_error, 's usage_quantity list) outcome" where
  "quantity_decode K e =
     (case e of
        EList rows \<Rightarrow>
          bind_o (try_fold decode_quantity [] rows) (\<lambda>vals.
          bind_o (map_err (\<lambda>err. EvalError (usage_error_text K err)) (usage_unique K vals)) (\<lambda>_.
          Ok (sort_key (\<lambda>q. sym_to_string K (uq_unit q)) vals)))
      | _ \<Rightarrow> Err (EvalError ''usage quantities must be a list''))"

section \<open>Facts\<close>

lemma usage_unique_Ok [simp]:
  "usage_unique K vals = Ok u \<longleftrightarrow> distinct (map (\<lambda>v. sym_to_string K (uq_unit v)) vals)"
  by (auto simp: usage_unique_def bind_o_Ok distinct_fold_Ok)

text \<open>The limit a budget sets for a unit, if it sets one.\<close>

definition limit_of :: "'s agent_usage_budget \<Rightarrow> 's \<Rightarrow> 64 word option" where
  "limit_of budget unit = map_option uq_amount (find (\<lambda>v. uq_unit v = unit) (ub_limits budget))"

definition units_distinct :: "'s usage_quantity list \<Rightarrow> bool" where
  "units_distinct vals \<longleftrightarrow> distinct (map uq_unit vals)"

lemma find_unit_map_of:
  "map_option uq_amount (find (\<lambda>v. uq_unit v = unit) vals) = map_of (map (\<lambda>q. (uq_unit q, uq_amount q)) vals) unit"
  by (induction vals) auto

lemma usage_map_get:
  assumes "units_distinct vals"
  shows "bt_get (usage_map vals) unit = map_option uq_amount (find (\<lambda>v. uq_unit v = unit) vals)"
proof -
  have "distinct (map fst (map (\<lambda>q. (uq_unit q, uq_amount q)) vals))"
    using assms by (simp add: units_distinct_def comp_def)
  then have "map_of (rev (map (\<lambda>q. (uq_unit q, uq_amount q)) vals)) = map_of (map (\<lambda>q. (uq_unit q, uq_amount q)) vals)"
    by (intro map_of_inject_set [THEN iffD2]) (simp_all add: rev_map [symmetric] comp_def)
  then show ?thesis by (simp add: usage_map_def bt_get_of_list find_unit_map_of)
qed

definition min_limit :: "64 word option \<Rightarrow> 64 word option \<Rightarrow> 64 word option" where
  "min_limit a b = (case a of None \<Rightarrow> b | Some x \<Rightarrow> (case b of None \<Rightarrow> Some x | Some y \<Rightarrow> Some (min x y)))"

lemma narrow_limit_get:
  "bt_get (narrow_limit m e) u = (if u = fst e then min_limit (bt_get m u) (Some (snd e)) else bt_get m u)"
  by (auto simp: narrow_limit_def min_limit_def split: option.splits)

lemma narrow_limits_get:
  "distinct (map fst es) \<Longrightarrow> bt_get (foldl narrow_limit m es) u = min_limit (bt_get m u) (map_of es u)"
proof (induction es arbitrary: m)
  case Nil
  then show ?case by (simp add: min_limit_def split: option.splits)
next
  case (Cons e es)
  then have "map_of es (fst e) = None" by (simp add: map_of_eq_None_iff)
  with Cons show ?case by (cases e) (auto simp: narrow_limit_get min_limit_def split: option.splits)
qed

lemma find_entries:
  "map_option uq_amount (find (\<lambda>v. uq_unit v = u) (map (\<lambda>(u, a). \<lparr>uq_unit = u, uq_amount = a\<rparr>) es)) = map_of es u"
  by (induction es) auto

lemma limit_of_narrow:
  assumes "units_distinct (ub_limits a)" "units_distinct (ub_limits b)"
  shows "limit_of (narrow a b) u = min_limit (limit_of a u) (limit_of b u)"
proof -
  have "limit_of (narrow a b) u = bt_get (foldl narrow_limit (usage_map (ub_limits a)) (bt_entries (usage_map (ub_limits b)))) u"
    by (simp add: limit_of_def narrow_def find_entries bt_get_entries)
  also have "\<dots> = min_limit (bt_get (usage_map (ub_limits a)) u) (bt_get (usage_map (ub_limits b)) u)"
    by (simp add: narrow_limits_get bt_entries_distinct flip: bt_get_entries)
  finally show ?thesis by (simp add: usage_map_get assms limit_of_def)
qed

lemma checked_add64_eq: "checked_add64 a b = (if unat a + unat b < 2 ^ 64 then Some (a + b) else None)"
proof -
  have "uint a + uint b = int (unat a + unat b)" by simp
  then show ?thesis unfolding checked_add64_def by (simp del: of_nat_add) 
qed

lemma unat_checked: "unat (a :: 64 word) + unat b < 2 ^ 64 \<Longrightarrow> unat (a + b) = unat a + unat b"
  by (simp add: unat_word_ariths)

lemma usage_admit_Ok:
  "usage_admit budget usage charge = Ok u \<longleftrightarrow>
     (\<forall>l. limit_of budget (uq_unit charge) = Some l \<longrightarrow>
        unat (usage_amount usage (uq_unit charge)) + unat (uq_amount charge) \<le> unat l)"
proof (cases "find (\<lambda>v. uq_unit v = uq_unit charge) (ub_limits budget)")
  case None
  then show ?thesis by (simp add: usage_admit_def limit_of_def)
next
  case (Some limit)
  let ?a = "usage_amount usage (uq_unit charge)" and ?c = "uq_amount charge" and ?l = "uq_amount limit"
  have "unat ?l < 2 ^ 64" using unsigned_less [of ?l, where ?'a = nat] by simp
  then have "(case checked_add64 ?a ?c of None \<Rightarrow> True | Some n \<Rightarrow> ?l < n) \<longleftrightarrow> unat ?l < unat ?a + unat ?c"
    by (auto simp: checked_add64_eq word_less_nat_alt unat_checked)
  then show ?thesis using Some by (auto simp: usage_admit_def limit_of_def Let_def not_less)
qed

text \<open>What a charge does to the amounts.\<close>

lemma find_filter: "find P xs = (case filter P xs of [] \<Rightarrow> None | x # _ \<Rightarrow> Some x)"
  by (induction xs) auto

lemma filter_unit_sort:
  "filter (\<lambda>q. uq_unit q = u) (sort_key (\<lambda>q. g (uq_unit q)) qs) = filter (\<lambda>q. uq_unit q = u) qs"
proof -
  have sub: "filter (\<lambda>q. uq_unit q = u) xs = filter (\<lambda>q. uq_unit q = u) (filter (\<lambda>q. g (uq_unit q) = g u) xs)" for xs
    by (simp only: filter_filter) (rule filter_cong, auto)
  show ?thesis by (simp only: sub [of "sort_key _ _"] sub [of qs] sort_key_stable)
qed

lemma add_to_first_None: "add_to_first checks charge qs = None \<longleftrightarrow> find (\<lambda>q. uq_unit q = uq_unit charge) qs = None"
  by (induction qs) auto

lemma add_to_first_find:
  "add_to_first checks charge qs = Some (Ok qs') \<Longrightarrow>
     map_option uq_amount (find (\<lambda>q. uq_unit q = u) qs') =
       (if u = uq_unit charge then map_option (\<lambda>q. uq_amount q + uq_amount charge) (find (\<lambda>q. uq_unit q = u) qs)
        else map_option uq_amount (find (\<lambda>q. uq_unit q = u) qs))"
  by (induction qs arbitrary: qs') (auto simp: bind_o_Ok split: if_splits)

lemma usage_amount_option:
  "usage_amount usage u = (case map_option uq_amount (find (\<lambda>q. uq_unit q = u) (us_quantities usage)) of None \<Rightarrow> 0 | Some a \<Rightarrow> a)"
  by (simp add: usage_amount_def split: option.splits)

lemma usage_charge_amount:
  assumes "usage_charge K checks usage budget charge = Ok usage'"
  shows "usage_amount usage' u =
    (if u = uq_unit charge then usage_amount usage u + uq_amount charge else usage_amount usage u)"
proof (cases "add_to_first checks charge (us_quantities usage)")
  case None
  let ?f = "\<lambda>q. sym_to_string K (uq_unit q)"
  have "us_quantities usage' = sort_key ?f (us_quantities usage @ [charge])"
    using assms None by (auto simp: usage_charge_def bind_o_Ok)
  then have "filter (\<lambda>q. uq_unit q = u) (us_quantities usage') = filter (\<lambda>q. uq_unit q = u) (us_quantities usage @ [charge])"
    by (simp only: filter_unit_sort)
  moreover have "filter (\<lambda>q. uq_unit q = uq_unit charge) (us_quantities usage) = []"
    using None by (simp add: add_to_first_None find_None_iff filter_empty_conv)
  ultimately show ?thesis by (auto simp: usage_amount_def find_filter split: list.splits)
next
  case (Some r)
  then obtain qs where qs: "r = Ok qs" "us_quantities usage' = qs"
    using assms by (auto simp: usage_charge_def bind_o_Ok)
  have "find (\<lambda>q. uq_unit q = uq_unit charge) (us_quantities usage) \<noteq> None"
    using Some by (auto simp flip: add_to_first_None [of checks])
  with add_to_first_find [OF Some [unfolded qs(1)], of u] show ?thesis
    by (auto simp: usage_amount_option qs(2))
qed

definition within_budget :: "'s agent_usage_budget \<Rightarrow> 's agent_usage \<Rightarrow> bool" where
  "within_budget budget usage \<longleftrightarrow> list_all (\<lambda>l. usage_amount usage (uq_unit l) \<le> uq_amount l) (ub_limits budget)"

lemma limit_of_Some:
  assumes "units_distinct (ub_limits budget)"
  shows "limit_of budget u = Some l \<longleftrightarrow> (\<exists>q \<in> set (ub_limits budget). uq_unit q = u \<and> uq_amount q = l)"
proof -
  have "limit_of budget u = map_of (map (\<lambda>q. (uq_unit q, uq_amount q)) (ub_limits budget)) u"
    by (simp add: limit_of_def find_unit_map_of)
  also have "\<dots> = Some l \<longleftrightarrow> (u, l) \<in> (\<lambda>q. (uq_unit q, uq_amount q)) ` set (ub_limits budget)"
    using assms by (subst map_of_eq_Some_iff) (simp_all add: units_distinct_def comp_def)
  finally show ?thesis by auto
qed

lemma within_budget_iff:
  "units_distinct (ub_limits budget) \<Longrightarrow>
     within_budget budget usage \<longleftrightarrow> (\<forall>u l. limit_of budget u = Some l \<longrightarrow> usage_amount usage u \<le> l)"
  by (auto simp: within_budget_def list_all_iff limit_of_Some)

lemma charge_within:
  assumes "units_distinct (ub_limits budget)" "within_budget budget usage"
    "usage_charge K checks usage budget charge = Ok usage'"
  shows "within_budget budget usage'"
  unfolding within_budget_iff [OF assms(1)]
proof (intro allI impI)
  fix u l assume l: "limit_of budget u = Some l"
  have old: "usage_amount usage u \<le> l" using assms(2) l by (simp add: within_budget_iff [OF assms(1)])
  have "usage_admit budget usage charge = Ok ()" using assms(3) by (auto simp: usage_charge_def bind_o_Ok)
  then have le: "unat (usage_amount usage u) + unat (uq_amount charge) \<le> unat l" if "u = uq_unit charge"
    using l that by (simp add: usage_admit_Ok)
  moreover have "unat l < 2 ^ 64" using unsigned_less [of l, where ?'a = nat] by simp
  ultimately show "usage_amount usage' u \<le> l"
    using old by (auto simp: usage_charge_amount [OF assms(3)] word_le_nat_alt unat_checked)
qed

lemma narrow_admits:
  assumes "units_distinct (ub_limits a)" "units_distinct (ub_limits b)"
  shows "usage_admit (narrow a b) usage charge = Ok () \<longleftrightarrow>
    usage_admit a usage charge = Ok () \<and> usage_admit b usage charge = Ok ()"
  by (auto simp: usage_admit_Ok limit_of_narrow [OF assms] min_limit_def min_def word_le_nat_alt split: option.splits if_splits)

end
