(* ===== verification/Conduct_Records.thy ===== *)
theory Conduct_Records
  imports Conduct_Usage
begin

text \<open>
  \<open>sim-lib-agent-conduct-core\<close>: \<open>symbols.rs\<close> and \<open>records.rs\<close>. The records of a run and the checked
  encodings of their fields. The derived \<open>Citizen\<close> encoding of a whole record is the external
  crate's; the journal takes it as a parameter.
\<close>

section \<open>Standard symbols\<close>

definition in_namespace :: "('s, 'c) symbol_kernel \<Rightarrow> 's \<Rightarrow> string \<Rightarrow> bool" where
  "in_namespace K value namespace \<longleftrightarrow> sym_namespace K value = Some namespace"

definition vocabularies :: "(string \<times> string list) list" where
  "vocabularies =
     [(''agent.step'', [''model-turn'', ''tool-batch'', ''review'', ''finish'', ''stop'']),
      (''agent.role'', [''runner'', ''tools'', ''judge'']),
      (''agent.outcome'', [''continue'', ''tool-calls'', ''final'', ''accept'', ''revise'', ''reject'', ''error'']),
      (''agent.event'', [''run-started'', ''step-completed'', ''effect-requested'', ''effect-committed'',
                         ''effect-aborted'', ''run-stopped'']),
      (''agent.usage'', [''model-turn'', ''tool-call'', ''delegation'', ''input-token'', ''output-token'']),
      (''agent.stop'', [''completed'', ''budget-exhausted'', ''uncertain-effect'', ''invalid-frame'', ''corrupt-journal''])]"

definition standard_symbols :: "('s, 'c) symbol_kernel \<Rightarrow> string \<Rightarrow> 's list" where
  "standard_symbols K namespace =
     (case map_of vocabularies namespace of None \<Rightarrow> [] | Some names \<Rightarrow> map (sym_qualified K namespace) names)"

definition ascii_upper :: "char \<Rightarrow> char" where
  "ascii_upper c = (if (97::nat) \<le> of_char c \<and> (of_char c :: nat) \<le> 122 then char_of ((of_char c :: nat) - 32) else c)"

definition currency_micro_units :: "('s, 'c) symbol_kernel \<Rightarrow> string \<Rightarrow> 's" where
  "currency_micro_units K currency =
     sym_qualified K ''agent.usage'' (''currency/'' @ map ascii_upper currency @ ''/micro-unit'')"

section \<open>Run state\<close>

type_synonym 's state_entry = "'s \<times> 's expr"

record 's agent_run_state =
  st_entries :: "'s state_entry list"

definition STANDARD :: "string list" where
  "STANDARD = [''history'', ''pending-tools'', ''plan'', ''phase'', ''candidate'']"

definition check_state_key ::
  "('s, 'c) symbol_kernel \<Rightarrow> string fset \<Rightarrow> 's state_entry \<Rightarrow> (kernel_error, string fset) outcome" where
  "check_state_key K seen entry =
     (let key = fst entry; text = sym_to_string K key in
      if text |\<in>| seen then Err (EvalError (''duplicate run-state entry '' @ text))
      else if sym_namespace K key = None \<and> sym_name K key \<notin> set STANDARD
      then Err (EvalError (''extension run-state key '' @ text @ '' must be namespaced''))
      else Ok (finsert text seen))"

definition require_standard ::
  "('s, 'c) symbol_kernel \<Rightarrow> 's state_entry list \<Rightarrow> string \<Rightarrow> (kernel_error, unit) outcome" where
  "require_standard K entries name =
     (if list_ex (\<lambda>e. sym_namespace K (fst e) = None \<and> sym_name K (fst e) = name) entries then Ok ()
      else Err (EvalError (''run state is missing standard entry '' @ name)))"

definition state_validate :: "('s, 'c) symbol_kernel \<Rightarrow> 's state_entry list \<Rightarrow> (kernel_error, unit) outcome" where
  "state_validate K entries =
     bind_o (try_fold (check_state_key K) {||} entries) (\<lambda>_. for_each (require_standard K entries) STANDARD)"

definition run_state_new ::
  "('s, 'c) symbol_kernel \<Rightarrow> 's state_entry list \<Rightarrow> (kernel_error, 's agent_run_state) outcome" where
  "run_state_new K entries = bind_o (state_validate K entries) (\<lambda>_. Ok \<lparr>st_entries = entries\<rparr>)"

definition run_state_standard :: "('s, 'c) symbol_kernel \<Rightarrow> 's agent_run_state" where
  "run_state_standard K =
     \<lparr>st_entries = [(sym_new K ''history'', EList []), (sym_new K ''pending-tools'', EList []),
                    (sym_new K ''plan'', ENil), (sym_new K ''phase'', ENil), (sym_new K ''candidate'', ENil)]\<rparr>"

definition upsert ::
  "('s, 'c) symbol_kernel \<Rightarrow> 's agent_run_state \<Rightarrow> 's \<Rightarrow> 's expr \<Rightarrow> (kernel_error, 's agent_run_state) outcome" where
  "upsert K state key value =
     (let entries = filter (\<lambda>e. fst e \<noteq> key) (st_entries state) @ [(key, value)] in
      bind_o (state_validate K entries) (\<lambda>_.
      Ok \<lparr>st_entries = sort_key (\<lambda>e. sym_to_string K (fst e)) entries\<rparr>))"

definition state_get :: "'s agent_run_state \<Rightarrow> 's \<Rightarrow> 's expr option" where
  "state_get state key = map_option snd (find (\<lambda>e. fst e = key) (st_entries state))"

section \<open>Frames, events and journal records\<close>

record 's agent_outcome =
  out_kind :: 's

definition outcome_default :: "('s, 'c) symbol_kernel \<Rightarrow> 's agent_outcome" where
  "outcome_default K = \<lparr>out_kind = sym_qualified K ''agent.outcome'' ''continue''\<rparr>"

record 's agent_stop =
  stop_code :: 's
  stop_detail :: "'s expr"

definition stop_default :: "('s, 'c) symbol_kernel \<Rightarrow> 's agent_stop" where
  "stop_default K = \<lparr>stop_code = sym_qualified K ''agent.stop'' ''completed'', stop_detail = ENil\<rparr>"

record agent_journal_head =
  jh_sequence :: "64 word"
  jh_hash :: "string option"

definition head_default :: agent_journal_head where
  "head_default = \<lparr>jh_sequence = 0, jh_hash = None\<rparr>"

record 's agent_run_frame =
  fr_run_id :: 's
  fr_input :: "'s expr"
  fr_working :: "'s expr"
  fr_outcome :: 's
  fr_state :: "'s agent_run_state"
  fr_usage :: "'s agent_usage"
  fr_journal :: agent_journal_head

definition frame_standard :: "('s, 'c) symbol_kernel \<Rightarrow> 's \<Rightarrow> 's expr \<Rightarrow> 's agent_run_frame" where
  "frame_standard K run_id input =
     \<lparr>fr_run_id = run_id, fr_input = input, fr_working = ENil,
      fr_outcome = sym_qualified K ''agent.outcome'' ''continue'', fr_state = run_state_standard K,
      fr_usage = \<lparr>us_quantities = []\<rparr>, fr_journal = head_default\<rparr>"

definition frame_default :: "('s, 'c) symbol_kernel \<Rightarrow> 's agent_run_frame" where
  "frame_default K = frame_standard K (sym_qualified K ''run'' ''example'') ENil"

record 's agent_event =
  ev_kind :: 's
  ev_redacted :: "'s expr"

definition agent_event_new :: "'s \<Rightarrow> 's expr \<Rightarrow> 's agent_event" where
  "agent_event_new kind redacted = \<lparr>ev_kind = kind, ev_redacted = redacted\<rparr>"

definition event_default :: "('s, 'c) symbol_kernel \<Rightarrow> 's agent_event" where
  "event_default K = agent_event_new (sym_qualified K ''agent.event'' ''step-completed'') ENil"

record 's agent_journal_record =
  jr_sequence :: "64 word"
  jr_prior_hash :: "string option"
  jr_graph_fingerprint :: string
  jr_binding_fingerprint :: string
  jr_event :: "'s expr"
  jr_frame :: "'s expr"
  jr_usage :: "'s expr"
  jr_effect_receipts :: "'s expr list"
  jr_continuation :: "'s expr"
  jr_hash :: string

definition journal_record_default :: "'s agent_journal_record" where
  "journal_record_default =
     \<lparr>jr_sequence = 0, jr_prior_hash = None, jr_graph_fingerprint = [], jr_binding_fingerprint = [],
      jr_event = ENil, jr_frame = ENil, jr_usage = ENil, jr_effect_receipts = [], jr_continuation = ENil,
      jr_hash = []\<rparr>"

text \<open>\<open>'k\<close> is the kernel's \<open>CapabilityName\<close>.\<close>

record ('s, 'k) agent_step_card =
  sc_step_id :: 's
  sc_version :: "64 word"
  sc_input_shape :: "'s expr"
  sc_output_shape :: "'s expr"
  sc_roles :: "'s list"
  sc_capabilities :: "'k list"
  sc_outcomes :: "'s list"
  sc_may_request_effect :: bool
  sc_usage_dimensions :: "'s list"
  sc_redaction :: 's
  sc_replay :: 's

definition step_card_default :: "('s, 'c) symbol_kernel \<Rightarrow> ('s, 'k) agent_step_card" where
  "step_card_default K =
     \<lparr>sc_step_id = sym_qualified K ''agent.step'' ''model-turn'', sc_version = 1,
      sc_input_shape = ESymbol (sym_qualified K ''agent'' ''RunFrame''),
      sc_output_shape = ESymbol (sym_qualified K ''agent'' ''RunFrame''),
      sc_roles = [sym_qualified K ''agent.role'' ''runner''], sc_capabilities = [],
      sc_outcomes = [sym_qualified K ''agent.outcome'' ''continue''], sc_may_request_effect = False,
      sc_usage_dimensions = [sym_qualified K ''agent.usage'' ''model-turn''],
      sc_redaction = sym_qualified K ''agent.redaction'' ''standard'',
      sc_replay = sym_qualified K ''agent.replay'' ''recorded''\<rparr>"

record 's agent_conduct_contract =
  co_profile :: 's
  co_graph_fingerprint :: string
  co_step_cards :: "'s expr list"
  co_frame_shape :: "'s expr"

definition contract_default :: "('s, 'c) symbol_kernel \<Rightarrow> 's agent_conduct_contract" where
  "contract_default K =
     \<lparr>co_profile = sym_qualified K ''agent.conduct'' ''example'', co_graph_fingerprint = ''sha256:example'',
      co_step_cards = [], co_frame_shape = ESymbol (sym_qualified K ''agent'' ''RunFrame'')\<rparr>"

section \<open>Field encodings\<close>

definition state_encode :: "'s state_entry list \<Rightarrow> 's expr" where
  "state_encode entries = EMap (map (\<lambda>(key, value). (ESymbol key, value)) entries)"

definition decode_state_row ::
  "'s state_entry list \<Rightarrow> 's expr \<times> 's expr \<Rightarrow> (kernel_error, 's state_entry list) outcome" where
  "decode_state_row out row =
     (case fst row of
        ESymbol key \<Rightarrow> Ok (out @ [(key, snd row)])
      | _ \<Rightarrow> Err (EvalError ''run state keys must be symbols''))"

definition state_decode :: "('s, 'c) symbol_kernel \<Rightarrow> 's expr \<Rightarrow> (kernel_error, 's state_entry list) outcome" where
  "state_decode K e =
     (case e of
        EMap rows \<Rightarrow>
          bind_o (try_fold decode_state_row [] rows) (\<lambda>out.
          bind_o (state_validate K out) (\<lambda>_. Ok out))
      | _ \<Rightarrow> Err (EvalError ''run state must be a map''))"

definition agent_state_encode :: "'s agent_run_state \<Rightarrow> 's expr" where
  "agent_state_encode state = state_encode (st_entries state)"

definition agent_state_decode :: "('s, 'c) symbol_kernel \<Rightarrow> 's expr \<Rightarrow> (kernel_error, 's agent_run_state) outcome" where
  "agent_state_decode K e = bind_o (state_decode K e) (run_state_new K)"

definition usage_encode :: "('s, 'c) symbol_kernel \<Rightarrow> 's agent_usage \<Rightarrow> 's expr" where
  "usage_encode K usage = EList (map (\<lambda>q. EList [ESymbol (uq_unit q), int_expr K (uq_amount q)]) (us_quantities usage))"

definition decode_usage_row ::
  "'s usage_quantity list \<Rightarrow> 's expr \<Rightarrow> (kernel_error, 's usage_quantity list) outcome" where
  "decode_usage_row out row =
     (case row of
        EList parts \<Rightarrow>
          (case parts of
             [ESymbol unit, ENumber _ canonical] \<Rightarrow>
               (case parse_u64 canonical of
                  None \<Rightarrow> Err (EvalError ''usage amount must be a non-negative u64'')
                | Some amount \<Rightarrow> Ok (out @ [\<lparr>uq_unit = unit, uq_amount = amount\<rparr>]))
           | _ \<Rightarrow> Err (EvalError ''usage row must be (unit amount)''))
      | _ \<Rightarrow> Err (EvalError ''usage row must be a list''))"

definition usage_decode :: "('s, 'c) symbol_kernel \<Rightarrow> 's expr \<Rightarrow> (kernel_error, 's agent_usage) outcome" where
  "usage_decode K e =
     (case e of
        EList rows \<Rightarrow>
          bind_o (try_fold decode_usage_row [] rows) (\<lambda>out.
          map_err (\<lambda>err. EvalError (usage_error_text K err)) (usage_new K out))
      | _ \<Rightarrow> Err (EvalError ''usage must be a list''))"

definition head_encode :: "('s, 'c) symbol_kernel \<Rightarrow> agent_journal_head \<Rightarrow> 's expr" where
  "head_encode K head =
     EList [int_expr K (jh_sequence head), case jh_hash head of None \<Rightarrow> ENil | Some v \<Rightarrow> EString v]"

definition hash_text_ok :: "string \<Rightarrow> bool" where
  "hash_text_ok value \<longleftrightarrow> prefix ''sha256:'' value \<and> length value = 71"

definition head_decode :: "'s expr \<Rightarrow> (kernel_error, agent_journal_head) outcome" where
  "head_decode e =
     (case e of
        EList parts \<Rightarrow>
          (case parts of
             [ENumber _ canonical, hash] \<Rightarrow>
               bind_o (ok_or (parse_u64 canonical) (EvalError ''journal sequence must be a u64'')) (\<lambda>sequence.
               bind_o (case hash of
                         ENil \<Rightarrow> Ok None
                       | EString value \<Rightarrow>
                           if hash_text_ok value then Ok (Some value)
                           else Err (EvalError ''journal hash must be canonical sha256'')
                       | _ \<Rightarrow> Err (EvalError ''journal hash must be string or nil'')) (\<lambda>h.
               Ok \<lparr>jh_sequence = sequence, jh_hash = h\<rparr>))
           | _ \<Rightarrow> Err (EvalError ''journal head must be (sequence hash)''))
      | _ \<Rightarrow> Err (EvalError ''journal head must be a list''))"

section \<open>Facts\<close>

text \<open>What a checked run state is: keys print differently, a key without a namespace is a standard
  one, and every standard key is present.\<close>

definition state_ok :: "('s, 'c) symbol_kernel \<Rightarrow> 's state_entry list \<Rightarrow> bool" where
  "state_ok K entries \<longleftrightarrow>
     distinct (map (\<lambda>e. sym_to_string K (fst e)) entries)
     \<and> (\<forall>e \<in> set entries. sym_namespace K (fst e) = None \<longrightarrow> sym_name K (fst e) \<in> set STANDARD)
     \<and> (\<forall>n \<in> set STANDARD. \<exists>e \<in> set entries. sym_namespace K (fst e) = None \<and> sym_name K (fst e) = n)"

lemma check_state_keys_Ok:
  "(\<exists>B. try_fold (check_state_key K) A entries = Ok B) \<longleftrightarrow>
     distinct (map (\<lambda>e. sym_to_string K (fst e)) entries)
     \<and> (\<forall>e \<in> set entries. sym_to_string K (fst e) |\<notin>| A
          \<and> (sym_namespace K (fst e) = None \<longrightarrow> sym_name K (fst e) \<in> set STANDARD))"
proof (induction entries arbitrary: A)
  case (Cons e es)
  have step: "check_state_key K A e = Ok B \<longleftrightarrow> sym_to_string K (fst e) |\<notin>| A
      \<and> (sym_namespace K (fst e) = None \<longrightarrow> sym_name K (fst e) \<in> set STANDARD)
      \<and> B = finsert (sym_to_string K (fst e)) A" for B
    by (auto simp: check_state_key_def Let_def)
  show ?case using Cons.IH [of "finsert (sym_to_string K (fst e)) A"] by (auto simp: bind_o_Ok step image_iff)
qed simp

lemma state_validate_Ok [simp]: "state_validate K entries = Ok u \<longleftrightarrow> state_ok K entries"
  using check_state_keys_Ok [of K "{||}" entries]
  by (auto simp: state_validate_def bind_o_Ok for_each_Ok require_standard_def state_ok_def list_ex_iff split: if_splits)

lemma decode_quantities:
  "try_fold decode_quantity vals (map (\<lambda>q. EList [ESymbol (uq_unit q), int_expr K (uq_amount q)]) qs) = Ok (vals @ qs)"
  by (induction qs arbitrary: vals) (auto simp: decode_quantity_def int_expr_def)

lemma decode_usage_rows:
  "try_fold decode_usage_row vals (map (\<lambda>q. EList [ESymbol (uq_unit q), int_expr K (uq_amount q)]) qs) = Ok (vals @ qs)"
  by (induction qs arbitrary: vals) (auto simp: decode_usage_row_def int_expr_def)

lemma decode_state_rows:
  "try_fold decode_state_row out (map (\<lambda>(key, value). (ESymbol key, value)) es) = Ok (out @ es)"
  by (induction es arbitrary: out) (auto simp: decode_state_row_def)

lemma run_state_roundtrip:
  "state_ok K (st_entries state) \<Longrightarrow> agent_state_decode K (agent_state_encode state) = Ok state"
  by (simp add: agent_state_decode_def agent_state_encode_def state_encode_def state_decode_def
      decode_state_rows run_state_new_def bind_o_Ok)

lemma usage_roundtrip:
  "distinct (map (\<lambda>q. sym_to_string K (uq_unit q)) (us_quantities usage)) \<Longrightarrow>
     usage_decode K (usage_encode K usage) = Ok usage"
  by (simp add: usage_encode_def usage_decode_def decode_usage_rows usage_new_def bind_o_Ok)

lemma head_roundtrip:
  "(\<forall>h. jh_hash head = Some h \<longrightarrow> hash_text_ok h) \<Longrightarrow> head_decode (head_encode K head) = Ok head"
  by (cases "jh_hash head") (auto simp: head_encode_def head_decode_def int_expr_def)

lemma quantity_roundtrip:
  "distinct (map (\<lambda>q. sym_to_string K (uq_unit q)) qs) \<Longrightarrow>
     quantity_decode K (quantity_encode K qs) = Ok (sort_key (\<lambda>q. sym_to_string K (uq_unit q)) qs)"
  by (simp add: quantity_encode_def quantity_decode_def decode_quantities bind_o_Ok)

text \<open>An update replaces one entry, keeps the others and keeps the state checked.\<close>

lemma find_key_sort:
  assumes "distinct (map f es)"
  shows "find (\<lambda>e. fst e = k) (sort_key f es) = find (\<lambda>e. fst e = k) es \<or> \<not> distinct (map fst es)"
proof (cases "distinct (map fst es)")
  case True
  have u: "find (\<lambda>e. fst e = k) xs = Some e \<longleftrightarrow> e \<in> set xs \<and> fst e = k" if "distinct (map fst xs)" for xs e
    using that by (induction xs) (auto simp: image_iff)
  have "distinct (map fst (sort_key f es))"
    using True by (metis distinct_map distinct_sort set_sort)
  with True u show ?thesis by (metis not_None_eq set_sort)
qed simp

lemma upsert_get:
  assumes "upsert K state key value = Ok state'"
  shows "state_ok K (st_entries state')"
    and "state_get state' k = (if k = key then Some value else state_get state k)"
proof -
  let ?es = "filter (\<lambda>e. fst e \<noteq> key) (st_entries state) @ [(key, value)]"
  let ?f = "\<lambda>e. sym_to_string K (fst e)"
  from assms have ok: "state_ok K ?es" and st: "st_entries state' = sort_key ?f ?es"
    by (auto simp: upsert_def Let_def bind_o_Ok)
  from ok have d: "distinct (map ?f ?es)" by (simp add: state_ok_def)
  then have "distinct (map fst ?es)"
    by (metis (mono_tags, lifting) distinct_map comp_apply inj_on_def)
  with find_key_sort [OF d, of k] have "find (\<lambda>e. fst e = k) (st_entries state') = find (\<lambda>e. fst e = k) ?es"
    by (simp add: st)
  moreover have "find (\<lambda>e. fst e = k) (filter (\<lambda>e. fst e \<noteq> key) es @ [(key, value)]) =
      (if k = key then Some (key, value) else find (\<lambda>e. fst e = k) es)" for es
    by (induction es) auto
  ultimately show "state_get state' k = (if k = key then Some value else state_get state k)"
    by (simp add: state_get_def)
  show "state_ok K (st_entries state')"
    using ok unfolding st state_ok_def by (simp add: distinct_map)
qed

end
