(* ===== verification/Conduct_Sha256.thy ===== *)
theory Conduct_Sha256
  imports Kernel_Expr
begin

text \<open>
  \<open>sim-lib-agent-conduct-core/src/sha256.rs\<close>: the digest behind the journal's hash chain, on 32-bit
  words with the wrapping additions, rotations and shifts of the source. The message schedule is
  the array \<open>w\<close>, filled from the front.
\<close>

unbundle bit_operations_syntax

text \<open>The constants \<open>K\<close>; the source writes them in hexadecimal.\<close>

definition sha_K :: "32 word list" where
  "sha_K =
     [1116352408, 1899447441, 3049323471, 3921009573, 961987163, 1508970993, 2453635748, 2870763221,
      3624381080, 310598401, 607225278, 1426881987, 1925078388, 2162078206, 2614888103, 3248222580,
      3835390401, 4022224774, 264347078, 604807628, 770255983, 1249150122, 1555081692, 1996064986,
      2554220882, 2821834349, 2952996808, 3210313671, 3336571891, 3584528711, 113926993, 338241895,
      666307205, 773529912, 1294757372, 1396182291, 1695183700, 1986661051, 2177026350, 2456956037,
      2730485921, 2820302411, 3259730800, 3345764771, 3516065817, 3600352804, 4094571909, 275423344,
      430227734, 506948616, 659060556, 883997877, 958139571, 1322822218, 1537002063, 1747873779,
      1955562222, 2024104815, 2227730452, 2361852424, 2428436474, 2756734187, 3204031479, 3329325298]"

section \<open>Compression\<close>

text \<open>\<open>u32::from_be_bytes\<close> and \<open>chunks_exact\<close>.\<close>

definition be_word :: "byte list \<Rightarrow> 32 word" where
  "be_word bs = foldl (\<lambda>a b. push_bit 8 a OR ucast b) 0 bs"

function chunks_exact :: "nat \<Rightarrow> 'a list \<Rightarrow> 'a list list" where
  "chunks_exact n xs = (if n = 0 \<or> length xs < n then [] else take n xs # chunks_exact n (drop n xs))"
  by pat_completeness auto
termination
  by (relation "measure (length \<circ> snd)") auto

declare chunks_exact.simps [simp del]

definition extend_schedule :: "32 word list \<Rightarrow> nat \<Rightarrow> 32 word list" where
  "extend_schedule w i =
     (let x = w ! (i - 15); y = w ! (i - 2);
          a = word_rotr 7 x XOR word_rotr 18 x XOR drop_bit 3 x;
          b = word_rotr 17 y XOR word_rotr 19 y XOR drop_bit 10 y in
      w @ [w ! (i - 16) + a + w ! (i - 7) + b])"

definition schedule :: "byte list \<Rightarrow> 32 word list" where
  "schedule chunk = foldl extend_schedule (map be_word (chunks_exact 4 chunk)) [16..<64]"

definition sha_round :: "32 word list \<Rightarrow> 32 word \<times> 32 word \<Rightarrow> 32 word list" where
  "sha_round v kw =
     (let s1 = word_rotr 6 (v ! 4) XOR word_rotr 11 (v ! 4) XOR word_rotr 25 (v ! 4);
          ch = (v ! 4 AND v ! 5) XOR (NOT (v ! 4) AND v ! 6);
          t1 = v ! 7 + s1 + ch + fst kw + snd kw;
          s0 = word_rotr 2 (v ! 0) XOR word_rotr 13 (v ! 0) XOR word_rotr 22 (v ! 0);
          maj = (v ! 0 AND v ! 1) XOR (v ! 0 AND v ! 2) XOR (v ! 1 AND v ! 2);
          t2 = s0 + maj in
      [t1 + t2, v ! 0, v ! 1, v ! 2, v ! 3 + t1, v ! 4, v ! 5, v ! 6])"

definition compress :: "32 word list \<Rightarrow> byte list \<Rightarrow> 32 word list" where
  "compress s chunk = map2 (+) s (foldl sha_round s (zip sha_K (schedule chunk)))"

section \<open>Digest\<close>

function pad_zeros :: "byte list \<Rightarrow> byte list" where
  "pad_zeros padded = (if length padded mod 64 \<noteq> 56 then pad_zeros (padded @ [0]) else padded)"
  by pat_completeness auto
termination
proof (relation "measure (\<lambda>xs. (120 - length xs mod 64) mod 64)")
  fix padded :: "byte list"
  define r where "r = length padded mod 64"
  assume "length padded mod 64 \<noteq> 56"
  moreover have "r < 64" by (simp add: r_def)
  ultimately consider "r < 56" | "56 < r" "r < 63" | "r = 63" unfolding r_def by linarith
  moreover have reduce: "x mod 64 = (if x < 64 then x else x - 64)" if "x < 128" for x :: nat
    using that by (simp add: le_mod_geq)
  moreover have "Suc (length padded) mod 64 = (if r = 63 then 0 else Suc r)" by (simp add: mod_Suc r_def)
  ultimately have "(120 - Suc (length padded) mod 64) mod 64 < (120 - r) mod 64" by cases (simp_all, linarith)
  then show "(padded @ [0], padded) \<in> measure (\<lambda>xs. (120 - length xs mod 64) mod 64)" by (simp add: r_def)
qed simp

declare pad_zeros.simps [simp del]

definition sha_pad :: "byte list \<Rightarrow> byte list" where
  "sha_pad input = pad_zeros (input @ [0x80]) @ be_bytes (of_nat (length input) * 8)"

definition sha_init :: "32 word list" where
  "sha_init = [0x6a09e667, 0xbb67ae85, 0x3c6ef372, 0xa54ff53a, 0x510e527f, 0x9b05688c, 0x1f83d9ab, 0x5be0cd19]"

text \<open>\<open>format!("{word:08x}")\<close>.\<close>

definition hex8 :: "32 word \<Rightarrow> string" where
  "hex8 w = map (\<lambda>i. hex_digit (unat (drop_bit (4 * i) w AND 15))) [7, 6, 5, 4, 3, 2, 1, 0]"

definition digest_hex :: "byte list \<Rightarrow> string" where
  "digest_hex input = concat (map hex8 (foldl compress sha_init (chunks_exact 64 (sha_pad input))))"

section \<open>Shape of the digest\<close>

lemma length_sha_round [simp]: "length (sha_round v kw) = 8"
  by (simp add: sha_round_def Let_def)

lemma length_sha_rounds: "length v = 8 \<Longrightarrow> length (foldl sha_round v kws) = 8"
  by (induction kws arbitrary: v) auto

lemma length_compress [simp]: "length s = 8 \<Longrightarrow> length (compress s chunk) = 8"
  by (simp add: compress_def length_sha_rounds)

lemma length_compress_all: "length s = 8 \<Longrightarrow> length (foldl compress s chunks) = 8"
  by (induction chunks arbitrary: s) auto

lemma length_hex8 [simp]: "length (hex8 w) = 8"
  by (simp add: hex8_def)

lemma length_digest_hex [simp]: "length (digest_hex input) = 64"
proof -
  have "length (concat (map hex8 ws)) = 8 * length ws" for ws by (induction ws) auto
  then show ?thesis by (simp add: digest_hex_def length_compress_all sha_init_def)
qed

text \<open>The padded message is a whole number of blocks, so no byte of it is left out.\<close>

lemma length_pad_zeros: "length (pad_zeros xs) mod 64 = 56"
  by (induction xs rule: pad_zeros.induct) (subst pad_zeros.simps, auto)

lemma length_sha_pad: "length (sha_pad input) mod 64 = 0"
  using length_pad_zeros [of "input @ [0x80]"] by (simp add: sha_pad_def mod_add_left_eq [symmetric])

lemma prefix_pad_zeros: "prefix xs (pad_zeros xs)"
  by (induction xs rule: pad_zeros.induct) (subst pad_zeros.simps, auto dest: append_prefixD)

lemma concat_chunks_exact:
  assumes "n \<noteq> 0" "length xs mod n = 0"
  shows "concat (chunks_exact n xs) = xs \<and> list_all (\<lambda>c. length c = n) (chunks_exact n xs)"
  using assms
proof (induction n xs rule: chunks_exact.induct)
  case (1 n xs)
  show ?case
  proof (cases "length xs < n")
    case True
    then have "xs = []" using "1.prems" by simp
    then show ?thesis using "1.prems" by (subst (1 2) chunks_exact.simps) simp
  next
    case False
    have "length (drop n xs) mod n = 0" using "1.prems" False by (simp add: le_mod_geq [symmetric])
    with 1 False show ?thesis by (subst (1 2) chunks_exact.simps) simp
  qed
qed

end
