(* ===== verification/Conduct_Journal.thy ===== *)
theory Conduct_Journal
  imports Conduct_Records Conduct_Sha256
begin

text \<open>
  \<open>sim-lib-agent-conduct-core/src/journal.rs\<close>: the hash chain. A record's hash is the SHA-256 of a
  length-prefixed encoding of its other fields. Methods that take \<open>&mut self\<close> return the new journal
  with their result; on an error the journal is unchanged.
\<close>

section \<open>Canonical text and hashes\<close>

definition bool_text :: "bool \<Rightarrow> string" where
  "bool_text b = (if b then ''true'' else ''false'')"

fun canonical_expr :: "('s, 'c) symbol_kernel \<Rightarrow> 's expr \<Rightarrow> string" where
  "canonical_expr K ENil = ''n''"
| "canonical_expr K (EBool v) = ''b'' @ bool_text v"
| "canonical_expr K (ENumber domain canonical) = ''d'' @ sym_to_string K domain @ '':'' @ canonical"
| "canonical_expr K (ESymbol v) = ''y'' @ sym_to_string K v"
| "canonical_expr K (ELocal v) = ''o'' @ sym_to_string K v"
| "canonical_expr K (EString v) = ''s'' @ digits10 (length v) @ '':'' @ v"
| "canonical_expr K (EBytes v) = ''x'' @ hex_bytes v"
| "canonical_expr K (EList v) = ''l'' @ digits10 (length v) @ '':'' @ concat (map (canonical_expr K) v)"
| "canonical_expr K (EVector v) = ''v'' @ digits10 (length v) @ '':'' @ concat (map (canonical_expr K) v)"
| "canonical_expr K (EMap v) =
     (let rows = sort (map (\<lambda>(k, e). canonical_expr K k @ ''='' @ canonical_expr K e) v) in
      ''m'' @ digits10 (length rows) @ '':'' @ concat rows)"
| "canonical_expr K (ESet v) =
     (let rows = sort (map (canonical_expr K) v) in
      ''e'' @ digits10 (length rows) @ '':'' @ concat rows)"
| "canonical_expr K (ECall operator args) =
     ''c'' @ canonical_expr K operator @ ''a'' @ digits10 (length args) @ '':'' @ concat (map (canonical_expr K) args)"
| "canonical_expr K (EInfix operator l r) =
     ''i'' @ sym_to_string K operator @ canonical_expr K l @ canonical_expr K r"
| "canonical_expr K (EPrefix operator arg) = ''p'' @ sym_to_string K operator @ canonical_expr K arg"
| "canonical_expr K (EPostfix operator arg) = ''f'' @ sym_to_string K operator @ canonical_expr K arg"
| "canonical_expr K (EBlock v) = ''k'' @ digits10 (length v) @ '':'' @ concat (map (canonical_expr K) v)"
| "canonical_expr K (EQuote mode e) = ''q'' @ mode @ canonical_expr K e"
| "canonical_expr K (EAnnotated e annotations) =
     (let rows = sort (map (\<lambda>(k, v). sym_to_string K k @ ''='' @ canonical_expr K v) annotations) in
      ''a'' @ canonical_expr K e @ concat rows)"
| "canonical_expr K (EExtension tag payload) = ''z'' @ sym_to_string K tag @ canonical_expr K payload"

definition field_bytes :: "string \<Rightarrow> byte list" where
  "field_bytes value = be_bytes (of_nat (length value)) @ str_bytes value"

definition expr_bytes :: "('s, 'c) symbol_kernel \<Rightarrow> 's expr \<Rightarrow> byte list" where
  "expr_bytes K value = field_bytes (canonical_expr K value)"

definition record_bytes :: "('s, 'c) symbol_kernel \<Rightarrow> 's agent_journal_record \<Rightarrow> byte list" where
  "record_bytes K r =
     field_bytes (case jr_prior_hash r of None \<Rightarrow> [] | Some h \<Rightarrow> h) @ be_bytes (jr_sequence r)
     @ field_bytes (jr_graph_fingerprint r) @ field_bytes (jr_binding_fingerprint r)
     @ expr_bytes K (jr_event r) @ expr_bytes K (jr_frame r) @ expr_bytes K (jr_usage r)
     @ be_bytes (of_nat (length (jr_effect_receipts r))) @ concat (map (expr_bytes K) (jr_effect_receipts r))
     @ expr_bytes K (jr_continuation r)"

definition record_hash :: "('s, 'c) symbol_kernel \<Rightarrow> 's agent_journal_record \<Rightarrow> string" where
  "record_hash K r = ''sha256:'' @ digest_hex (record_bytes K r)"

section \<open>The journal\<close>

record 's agent_journal =
  jn_graph_fingerprint :: string
  jn_binding_fingerprint :: string
  jn_records :: "'s agent_journal_record list"

datatype journal_error =
    JFingerprint "64 word"
  | JSequence "64 word" "64 word"
  | JPriorHash "64 word"
  | JHash "64 word"
  | JDivergentDuplicate "64 word"
  | JEncode string

definition journal_error_text :: "journal_error \<Rightarrow> string" where
  "journal_error_text e =
     (case e of
        JFingerprint n \<Rightarrow> ''journal graph or binding fingerprint drift at '' @ u64_text n
      | JSequence expected actual \<Rightarrow>
          ''journal sequence gap: expected '' @ u64_text expected @ '', got '' @ u64_text actual
      | JPriorHash n \<Rightarrow> ''journal prior hash mismatch at '' @ u64_text n
      | JHash n \<Rightarrow> ''journal record hash mismatch at '' @ u64_text n
      | JDivergentDuplicate n \<Rightarrow> ''divergent duplicate journal record at '' @ u64_text n
      | JEncode m \<Rightarrow> ''journal encoding failed: '' @ m)"

definition journal_new :: "string \<Rightarrow> string \<Rightarrow> 's agent_journal" where
  "journal_new graph bindings =
     \<lparr>jn_graph_fingerprint = graph, jn_binding_fingerprint = bindings, jn_records = []\<rparr>"

definition last_hash :: "'s agent_journal_record list \<Rightarrow> string option" where
  "last_hash records = (if records = [] then None else Some (jr_hash (last records)))"

text \<open>\<open>u64::try_from(len)\<close>, on a length that may not fit.\<close>

definition u64_of_len :: "nat \<Rightarrow> 64 word option" where
  "u64_of_len n = (if int n < 18446744073709551616 then Some (word_of_int (int n)) else None)"

definition journal_insert ::
  "('s, 'c) symbol_kernel \<Rightarrow> 's agent_journal \<Rightarrow> 's agent_journal_record \<Rightarrow> (journal_error, 's agent_journal) outcome" where
  "journal_insert K journal r =
     (let records = jn_records journal; i = unat (jr_sequence r) in
      if i < length records
      then if records ! i = r then Ok journal else Err (JDivergentDuplicate (jr_sequence r))
      else let expected = (case u64_of_len (length records) of Some n \<Rightarrow> n | None \<Rightarrow> - 1) in
      if jr_sequence r \<noteq> expected then Err (JSequence expected (jr_sequence r))
      else if jr_prior_hash r \<noteq> last_hash records then Err (JPriorHash (jr_sequence r))
      else if jr_hash r \<noteq> record_hash K r then Err (JHash (jr_sequence r))
      else Ok (journal\<lparr>jn_records := records @ [r]\<rparr>))"

definition journal_load ::
  "('s, 'c) symbol_kernel \<Rightarrow> 's agent_journal \<Rightarrow> 's agent_journal_record \<Rightarrow> (journal_error, 's agent_journal) outcome" where
  "journal_load K journal r =
     (if jr_graph_fingerprint r \<noteq> jn_graph_fingerprint journal
         \<or> jr_binding_fingerprint r \<noteq> jn_binding_fingerprint journal
      then Err (JFingerprint (jr_sequence r))
      else journal_insert K journal r)"

definition journal_from_records ::
  "('s, 'c) symbol_kernel \<Rightarrow> string \<Rightarrow> string \<Rightarrow> 's agent_journal_record list \<Rightarrow> (journal_error, 's agent_journal) outcome" where
  "journal_from_records K graph bindings records =
     try_fold (journal_load K) (journal_new graph bindings) records"

definition journal_verify :: "('s, 'c) symbol_kernel \<Rightarrow> 's agent_journal \<Rightarrow> (journal_error, unit) outcome" where
  "journal_verify K journal =
     bind_o (try_fold (journal_insert K)
        (journal_new (jn_graph_fingerprint journal) (jn_binding_fingerprint journal)) (jn_records journal)) (\<lambda>_. Ok ())"

text \<open>The derived \<open>Citizen\<close> encodings of the three records a journal entry embeds.\<close>

record 's citizen_codec =
  as_expr_event :: "'s agent_event \<Rightarrow> (string, 's expr) outcome"
  as_expr_frame :: "'s agent_run_frame \<Rightarrow> (string, 's expr) outcome"
  as_expr_usage :: "'s agent_usage \<Rightarrow> (string, 's expr) outcome"

definition journal_append ::
  "('s, 'c) symbol_kernel \<Rightarrow> 's citizen_codec \<Rightarrow> 's agent_journal \<Rightarrow> 's agent_event \<Rightarrow> 's agent_run_frame
     \<Rightarrow> 's agent_usage \<Rightarrow> 's expr list \<Rightarrow> 's expr \<Rightarrow> (journal_error, 's agent_journal_record \<times> 's agent_journal) outcome" where
  "journal_append K C journal event frame usage receipts continuation =
     bind_o (ok_or (u64_of_len (length (jn_records journal))) (JSequence (- 1) (- 1))) (\<lambda>sequence.
     bind_o (map_err JEncode (as_expr_event C event)) (\<lambda>e.
     bind_o (map_err JEncode (as_expr_frame C frame)) (\<lambda>f.
     bind_o (map_err JEncode (as_expr_usage C usage)) (\<lambda>u.
     let r = \<lparr>jr_sequence = sequence, jr_prior_hash = last_hash (jn_records journal),
              jr_graph_fingerprint = jn_graph_fingerprint journal,
              jr_binding_fingerprint = jn_binding_fingerprint journal,
              jr_event = e, jr_frame = f, jr_usage = u, jr_effect_receipts = receipts,
              jr_continuation = continuation, jr_hash = []\<rparr>;
         r' = r\<lparr>jr_hash := record_hash K r\<rparr> in
     bind_o (journal_insert K journal r') (\<lambda>journal'.
     if jn_records journal' = [] then Panic else Ok (last (jn_records journal'), journal'))))))"

end
