(* ===== verification/Journal_Facts.thy ===== *)
theory Journal_Facts
  imports Conduct_Journal
begin

text \<open>
  Facts about the hash chain. \<open>link\<close> says what makes a record the next one of a history,
  \<open>chain\<close> that every record of a history is linked to those before it, and \<open>hash_chain\<close> adds
  the fingerprints of the journal. The operations of \<open>journal.rs\<close> accept exactly these histories.
\<close>

section \<open>Linked histories\<close>

definition link :: "('s, 'c) symbol_kernel \<Rightarrow> 's agent_journal_record list \<Rightarrow> 's agent_journal_record \<Rightarrow> bool" where
  "link K prior r \<longleftrightarrow>
     unat (jr_sequence r) = length prior \<and> jr_prior_hash r = last_hash prior \<and> jr_hash r = record_hash K r"

definition chain :: "('s, 'c) symbol_kernel \<Rightarrow> 's agent_journal_record list \<Rightarrow> bool" where
  "chain K rs \<longleftrightarrow> list_all (\<lambda>i. link K (take i rs) (rs ! i)) [0..<length rs]"

definition fingerprinted :: "string \<Rightarrow> string \<Rightarrow> 's agent_journal_record \<Rightarrow> bool" where
  "fingerprinted graph bindings r \<longleftrightarrow>
     jr_graph_fingerprint r = graph \<and> jr_binding_fingerprint r = bindings"

definition hash_chain :: "('s, 'c) symbol_kernel \<Rightarrow> string \<Rightarrow> string \<Rightarrow> 's agent_journal_record list \<Rightarrow> bool" where
  "hash_chain K graph bindings rs \<longleftrightarrow> chain K rs \<and> list_all (fingerprinted graph bindings) rs"

lemma chain_Nil [simp]: "chain K []"
  by (simp add: chain_def)

lemma chain_snoc [simp]: "chain K (rs @ [r]) \<longleftrightarrow> chain K rs \<and> link K rs r"
  by (auto simp: chain_def list_all_iff nth_append)

lemma hash_chain_Nil [simp]: "hash_chain K g b []"
  by (simp add: hash_chain_def)

lemma hash_chain_snoc [simp]:
  "hash_chain K g b (rs @ [r]) \<longleftrightarrow> hash_chain K g b rs \<and> link K rs r \<and> fingerprinted g b r"
  by (auto simp: hash_chain_def)

lemma chain_nth:
  assumes "chain K rs" "i < length rs"
  shows "link K (take i rs) (rs ! i)"
  using assms by (auto simp: chain_def list_all_iff)

lemma chain_sequence: "chain K rs \<Longrightarrow> i < length rs \<Longrightarrow> unat (jr_sequence (rs ! i)) = i"
  using chain_nth [of K rs i] by (simp add: link_def)

lemma chain_take: "chain K rs \<Longrightarrow> chain K (take n rs)"
  by (auto simp: chain_def list_all_iff min_def)

lemma chain_distinct: "chain K rs \<Longrightarrow> distinct rs"
  by (metis chain_sequence distinct_conv_nth)

lemma chain_length: "chain K rs \<Longrightarrow> length rs \<le> 2 ^ 64"
proof (cases rs rule: rev_cases)
  case (snoc qs r)
  assume "chain K rs"
  with snoc have "unat (jr_sequence r) = length qs" by (simp add: link_def)
  then show ?thesis using snoc unsigned_less [of "jr_sequence r", where ?'a = nat] by simp
qed simp

lemma last_hash_simps [simp]:
  "last_hash [] = None" "last_hash (rs @ [r]) = Some (jr_hash r)"
  by (simp_all add: last_hash_def)

section \<open>Insertion and loading\<close>

lemma u64_of_len_eq: "u64_of_len n = (if n < 2 ^ 64 then Some (of_nat n) else None)"
proof -
  have "int n < 18446744073709551616 \<longleftrightarrow> n < 2 ^ 64" by simp
  then show ?thesis by (simp only: u64_of_len_def of_int_of_nat_eq)
qed

lemma u64_of_len_unat: "u64_of_len n = Some w \<longleftrightarrow> unat w = n"
proof
  assume "u64_of_len n = Some w"
  then have "n < 2 ^ 64" "w = of_nat n" by (auto simp: u64_of_len_eq split: if_splits)
  then show "unat w = n" by (simp add: of_nat_inverse)
next
  assume "unat w = n"
  moreover have "unat w < 2 ^ 64" using unsigned_less [of w, where ?'a = nat] by simp
  ultimately show "u64_of_len n = Some w" by (auto simp: u64_of_len_eq)
qed

text \<open>An insertion either meets the record it already holds or extends the chain by a linked one.\<close>

lemma journal_insert_Ok:
  "journal_insert K j r = Ok j' \<longleftrightarrow>
     (unat (jr_sequence r) < length (jn_records j) \<and> jn_records j ! unat (jr_sequence r) = r \<and> j' = j)
     \<or> (link K (jn_records j) r \<and> j' = j\<lparr>jn_records := jn_records j @ [r]\<rparr>)"
proof (cases "unat (jr_sequence r) < length (jn_records j)")
  case True
  then show ?thesis by (auto simp: journal_insert_def Let_def link_def)
next
  case False
  have "unat (jr_sequence r) < 2 ^ 64" using unsigned_less [of "jr_sequence r", where ?'a = nat] by simp
  with False obtain n where n: "u64_of_len (length (jn_records j)) = Some n"
    by (auto simp: u64_of_len_eq)
  then have "jr_sequence r = n \<longleftrightarrow> unat (jr_sequence r) = length (jn_records j)"
    by (auto simp: u64_of_len_unat word_unat_eq_iff)
  with False n show ?thesis by (auto simp: journal_insert_def Let_def link_def)
qed

lemma journal_insert_no_Panic [simp]:
  "journal_insert K j r \<noteq> Panic" "journal_insert K j r \<noteq> Diverge"
  by (simp_all add: journal_insert_def Let_def)

lemma journal_insert_link:
  "link K (jn_records j) r \<Longrightarrow> journal_insert K j r = Ok (j\<lparr>jn_records := jn_records j @ [r]\<rparr>)"
  by (simp add: journal_insert_Ok)

lemma journal_load_Ok:
  "journal_load K j r = Ok j' \<longleftrightarrow>
     fingerprinted (jn_graph_fingerprint j) (jn_binding_fingerprint j) r \<and> journal_insert K j r = Ok j'"
  by (auto simp: journal_load_def fingerprinted_def)

lemma journal_load_no_Panic [simp]: "journal_load K j r \<noteq> Panic" "journal_load K j r \<noteq> Diverge"
  by (simp_all add: journal_load_def)

lemma journal_from_records_no_Panic [simp]:
  "journal_from_records K g b rs \<noteq> Panic" "journal_from_records K g b rs \<noteq> Diverge"
  by (simp_all add: journal_from_records_def try_fold_never_Panic try_fold_no_Diverge)

lemma inserted_old: "rs ! n = r \<Longrightarrow> n < length rs \<Longrightarrow> r \<in> set rs"
  by auto

text \<open>The state a loading loop maintains.\<close>

definition loaded :: "('s, 'c) symbol_kernel \<Rightarrow> string \<Rightarrow> string \<Rightarrow> 's agent_journal \<Rightarrow> bool" where
  "loaded K g b j \<longleftrightarrow>
     jn_graph_fingerprint j = g \<and> jn_binding_fingerprint j = b \<and> hash_chain K g b (jn_records j)"

lemma loaded_new [simp]: "loaded K g b (journal_new g b)"
  by (simp add: loaded_def journal_new_def)

lemma loaded_step: "loaded K g b j \<Longrightarrow> journal_load K j r = Ok j' \<Longrightarrow> loaded K g b j'"
  by (auto simp: loaded_def journal_load_Ok journal_insert_Ok)

lemma from_records_loaded: "journal_from_records K g b rs = Ok j \<Longrightarrow> loaded K g b j"
  unfolding journal_from_records_def
  by (erule try_fold_invariant) (auto intro: loaded_step)

lemma load_all:
  assumes "hash_chain K g b (jn_records j @ rs)" "jn_graph_fingerprint j = g" "jn_binding_fingerprint j = b"
  shows "try_fold (journal_load K) j rs = Ok (j\<lparr>jn_records := jn_records j @ rs\<rparr>)"
  using assms
proof (induction rs arbitrary: j)
  case (Cons r rs)
  let ?j = "j\<lparr>jn_records := jn_records j @ [r]\<rparr>"
  have full: "chain K (jn_records j @ r # rs)" using Cons.prems(1) by (simp add: hash_chain_def)
  have "link K (jn_records j) r" using chain_nth [OF full, of "length (jn_records j)"] by simp
  moreover have "fingerprinted g b r" using Cons.prems(1) by (simp add: hash_chain_def)
  ultimately have "journal_load K j r = Ok ?j" using Cons.prems by (simp add: journal_load_Ok journal_insert_link)
  moreover have "try_fold (journal_load K) ?j rs = Ok (?j\<lparr>jn_records := jn_records ?j @ rs\<rparr>)"
    using Cons.prems by (intro Cons.IH) simp_all
  ultimately show ?case by simp
qed simp

lemma from_records_chain:
  "hash_chain K g b rs \<Longrightarrow> journal_from_records K g b rs = Ok \<lparr>jn_graph_fingerprint = g, jn_binding_fingerprint = b, jn_records = rs\<rparr>"
  using load_all [of K g b "journal_new g b" rs] by (simp add: journal_from_records_def journal_new_def)

text \<open>Loading skips exact duplicates only, so a duplicate-free input is kept as it is.\<close>

lemma load_step_records:
  "journal_load K j r = Ok j' \<Longrightarrow>
     jn_records j' = (if r \<in> set (jn_records j) then jn_records j else jn_records j @ [r])
     \<or> (r \<in> set (jn_records j) \<and> link K (jn_records j) r)"
  by (auto simp: journal_load_Ok journal_insert_Ok dest: inserted_old)

lemma linked_not_old: "chain K rs \<Longrightarrow> link K rs r \<Longrightarrow> r \<notin> set rs"
  using chain_distinct [of K "rs @ [r]"] by simp

lemma load_distinct:
  assumes "try_fold (journal_load K) j rs = Ok j'" "loaded K g b j" "distinct (jn_records j @ rs)"
  shows "jn_records j' = jn_records j @ rs"
  using assms
proof (induction rs arbitrary: j)
  case (Cons r rs)
  from Cons.prems(1) obtain j1 where j1: "journal_load K j r = Ok j1" and rest: "try_fold (journal_load K) j1 rs = Ok j'"
    by (auto simp: bind_o_Ok)
  have recs: "jn_records j1 = jn_records j @ [r]" using load_step_records [OF j1] Cons.prems(3) by auto
  have "loaded K g b j1" using loaded_step j1 Cons.prems(2) by blast
  then show ?case using Cons.IH [OF rest] Cons.prems(3) recs by simp
qed simp

lemma from_records_records:
  assumes "journal_from_records K g b rs = Ok j" "distinct rs"
  shows "jn_records j = rs"
  using assms load_distinct [of K "journal_new g b" rs j g b]
  by (simp add: journal_from_records_def) (simp add: journal_new_def)

lemma load_members:
  assumes "try_fold (journal_load K) j rs = Ok j'"
  shows "set (jn_records j') = set (jn_records j) \<union> set rs"
  using assms
proof (induction rs arbitrary: j)
  case (Cons r rs)
  from Cons.prems obtain j1 where j1: "journal_load K j r = Ok j1" and rest: "try_fold (journal_load K) j1 rs = Ok j'"
    by (auto simp: bind_o_Ok)
  have "set (jn_records j1) = insert r (set (jn_records j))"
    using j1 by (auto simp: journal_load_Ok journal_insert_Ok dest: inserted_old)
  with Cons.IH [OF rest] show ?case by simp
qed simp

lemma from_records_members: "journal_from_records K g b rs = Ok j \<Longrightarrow> set (jn_records j) = set rs"
  unfolding journal_from_records_def by (drule load_members) (simp add: journal_new_def)

section \<open>Appending\<close>

lemma record_hash_update [simp]: "record_hash K (r\<lparr>jr_hash := h\<rparr>) = record_hash K r"
  by (simp add: record_hash_def record_bytes_def)

text \<open>The record an append makes. It is always linked, so only encoding can refuse an append.\<close>

definition next_record ::
  "('s, 'c) symbol_kernel \<Rightarrow> 's agent_journal \<Rightarrow> 64 word \<Rightarrow> 's expr \<Rightarrow> 's expr \<Rightarrow> 's expr \<Rightarrow> 's expr list \<Rightarrow> 's expr
     \<Rightarrow> 's agent_journal_record" where
  "next_record K j n e f u receipts continuation =
     (let r = \<lparr>jr_sequence = n, jr_prior_hash = last_hash (jn_records j),
              jr_graph_fingerprint = jn_graph_fingerprint j, jr_binding_fingerprint = jn_binding_fingerprint j,
              jr_event = e, jr_frame = f, jr_usage = u, jr_effect_receipts = receipts,
              jr_continuation = continuation, jr_hash = []\<rparr> in
      r\<lparr>jr_hash := record_hash K r\<rparr>)"

lemma next_record_hash [simp]:
  "jr_hash (next_record K j n e f u receipts continuation) = record_hash K (next_record K j n e f u receipts continuation)"
  unfolding next_record_def Let_def record_hash_update by simp

lemma next_record_simps [simp]:
  "jr_sequence (next_record K j n e f u receipts continuation) = n"
  "jr_prior_hash (next_record K j n e f u receipts continuation) = last_hash (jn_records j)"
  "jr_graph_fingerprint (next_record K j n e f u receipts continuation) = jn_graph_fingerprint j"
  "jr_binding_fingerprint (next_record K j n e f u receipts continuation) = jn_binding_fingerprint j"
  "jr_event (next_record K j n e f u receipts continuation) = e"
  "jr_frame (next_record K j n e f u receipts continuation) = f"
  "jr_usage (next_record K j n e f u receipts continuation) = u"
  "jr_effect_receipts (next_record K j n e f u receipts continuation) = receipts"
  "jr_continuation (next_record K j n e f u receipts continuation) = continuation"
  by (simp_all add: next_record_def Let_def)

lemma link_next_record:
  "unat n = length (jn_records j) \<Longrightarrow> link K (jn_records j) (next_record K j n e f u receipts continuation)"
  by (simp add: link_def)

lemma journal_append_next:
  fixes K :: "('s, 'c) symbol_kernel" and receipts :: "'s expr list" and continuation :: "'s expr"
  assumes "u64_of_len (length (jn_records j)) = Some n" "as_expr_event C event = Ok e"
    "as_expr_frame C frame = Ok f" "as_expr_usage C usage = Ok u"
  defines "r \<equiv> next_record K j n e f u receipts continuation"
  shows "journal_append K C j event frame usage receipts continuation = Ok (r, j\<lparr>jn_records := jn_records j @ [r]\<rparr>)"
proof -
  have "link K (jn_records j) r" using assms(1) by (simp add: r_def link_next_record u64_of_len_unat)
  then have "journal_insert K j r = Ok (j\<lparr>jn_records := jn_records j @ [r]\<rparr>)" by (rule journal_insert_link)
  then show ?thesis
    unfolding journal_append_def assms(1-4) ok_or_eval map_err.simps bind_o.simps Let_def
      next_record_def [unfolded Let_def, symmetric] r_def [symmetric] by simp
qed

lemma journal_append_Ok:
  assumes "journal_append K C j event frame usage receipts continuation = Ok (r, j')"
  shows "j' = j\<lparr>jn_records := jn_records j @ [r]\<rparr>" "link K (jn_records j) r"
    "fingerprinted (jn_graph_fingerprint j) (jn_binding_fingerprint j) r"
    "jr_continuation r = continuation" "jr_effect_receipts r = receipts"
    "as_expr_event C event = Ok (jr_event r)" "as_expr_frame C frame = Ok (jr_frame r)"
    "as_expr_usage C usage = Ok (jr_usage r)"
proof -
  from assms obtain n e f u where n: "u64_of_len (length (jn_records j)) = Some n"
    and parts: "as_expr_event C event = Ok e" "as_expr_frame C frame = Ok f" "as_expr_usage C usage = Ok u"
    by (auto simp: journal_append_def bind_o_Ok Let_def)
  let ?q = "next_record K j n e f u receipts continuation"
  have r: "r = ?q" and j': "j' = j\<lparr>jn_records := jn_records j @ [?q]\<rparr>"
    using assms journal_append_next [OF n parts, where K = K and receipts = receipts and continuation = continuation] by auto
  have "link K (jn_records j) ?q" using n by (simp add: link_next_record u64_of_len_unat)
  then show "j' = j\<lparr>jn_records := jn_records j @ [r]\<rparr>" "link K (jn_records j) r" using r j' by simp_all
  show "fingerprinted (jn_graph_fingerprint j) (jn_binding_fingerprint j) r"
    "jr_continuation r = continuation" "jr_effect_receipts r = receipts"
    "as_expr_event C event = Ok (jr_event r)" "as_expr_frame C frame = Ok (jr_frame r)"
    "as_expr_usage C usage = Ok (jr_usage r)"
    by (simp_all add: r fingerprinted_def parts)
qed

lemma journal_append_loaded:
  "loaded K g b j \<Longrightarrow> journal_append K C j event frame usage receipts continuation = Ok (r, j') \<Longrightarrow> loaded K g b j'"
  using journal_append_Ok [of K C j event frame usage receipts continuation r j'] by (auto simp: loaded_def)

section \<open>Verification\<close>

lemma insert_all:
  "chain K (jn_records j @ rs) \<Longrightarrow>
     try_fold (journal_insert K) j rs = Ok (j\<lparr>jn_records := jn_records j @ rs\<rparr>)"
proof (induction rs arbitrary: j)
  case (Cons r rs)
  let ?j = "j\<lparr>jn_records := jn_records j @ [r]\<rparr>"
  have "link K (jn_records j) r" using chain_nth [OF Cons.prems, of "length (jn_records j)"] by simp
  then have "journal_insert K j r = Ok ?j" by (rule journal_insert_link)
  with Cons.IH [of ?j] Cons.prems show ?case by simp
qed simp

lemma insert_all_chain:
  "try_fold (journal_insert K) j rs = Ok j' \<Longrightarrow> chain K (jn_records j) \<Longrightarrow> chain K (jn_records j')
     \<and> set (jn_records j') = set (jn_records j) \<union> set rs"
proof (induction rs arbitrary: j)
  case (Cons r rs)
  from Cons.prems(1) obtain j1 where j1: "journal_insert K j r = Ok j1" and rest: "try_fold (journal_insert K) j1 rs = Ok j'"
    by (auto simp: bind_o_Ok)
  have "chain K (jn_records j1)" "set (jn_records j1) = insert r (set (jn_records j))"
    using j1 Cons.prems(2) by (auto simp: journal_insert_Ok dest: inserted_old)
  with Cons.IH [OF rest] show ?case by auto
qed simp

lemma journal_verify_chain: "chain K (jn_records j) \<Longrightarrow> journal_verify K j = Ok ()"
  using insert_all [of K "journal_new (jn_graph_fingerprint j) (jn_binding_fingerprint j)" "jn_records j"]
  by (simp add: journal_verify_def journal_new_def)

section \<open>Hashes\<close>

lemma length_record_hash [simp]: "length (record_hash K r) = 71"
  by (simp add: record_hash_def)

lemma field_bytes_length: "length (field_bytes s) = 8 + length s"
  by (simp add: field_bytes_def str_bytes_def)

text \<open>A length-prefixed field can be read back from the front of a byte string.\<close>

lemma field_bytes_front:
  assumes "field_bytes a @ x = field_bytes b @ y" "length a < 2 ^ 64" "length b < 2 ^ 64"
  shows "a = b \<and> x = y"
proof -
  have len: "length (str_bytes s) = length s" for s by (simp add: str_bytes_def)
  from assms(1) have "be_bytes (of_nat (length a)) = be_bytes (of_nat (length b))"
    and rest: "str_bytes a @ x = str_bytes b @ y"
    unfolding field_bytes_def append_assoc by (simp_all add: append_eq_append_conv del: be_bytes_inj)
  then have "length a = length b"
    using assms(2,3) u64_of_len_unat by (metis be_bytes_inj u64_of_len_eq)
  with rest len show ?thesis by (simp add: append_eq_append_conv)
qed

lemma record_bytes_front:
  assumes "record_bytes K r = record_bytes K r'"
    and "length (case jr_prior_hash r of None \<Rightarrow> [] | Some h \<Rightarrow> h) < 2 ^ 64"
    and "length (case jr_prior_hash r' of None \<Rightarrow> [] | Some h \<Rightarrow> h) < 2 ^ 64"
  shows "(case jr_prior_hash r of None \<Rightarrow> [] | Some h \<Rightarrow> h) = (case jr_prior_hash r' of None \<Rightarrow> [] | Some h \<Rightarrow> h)"
    and "jr_sequence r = jr_sequence r'"
proof -
  from field_bytes_front [OF assms(1) [unfolded record_bytes_def] assms(2,3)]
  show "(case jr_prior_hash r of None \<Rightarrow> [] | Some h \<Rightarrow> h) = (case jr_prior_hash r' of None \<Rightarrow> [] | Some h \<Rightarrow> h)"
    and "jr_sequence r = jr_sequence r'" by (simp_all add: append_eq_append_conv)
qed

lemma chain_last_hash: "chain K rs \<Longrightarrow> last_hash rs = Some h \<Longrightarrow> length h = 71"
  by (cases rs rule: rev_cases) (auto simp: link_def)

lemma last_hash_length: "chain K rs \<Longrightarrow> length (case last_hash rs of None \<Rightarrow> [] | Some h \<Rightarrow> h) < 2 ^ 64"
  using chain_last_hash [of K rs] by (cases "last_hash rs") auto

text \<open>Equal heads pin equal histories, byte for byte, where SHA-256 has no collision among them.\<close>

lemma chain_pinned:
  assumes "chain K rs" "chain K qs" "last_hash rs = last_hash qs"
    and "\<And>r q. r \<in> set rs \<Longrightarrow> q \<in> set qs \<Longrightarrow> record_hash K r = record_hash K q \<Longrightarrow> record_bytes K r = record_bytes K q"
  shows "map (record_bytes K) rs = map (record_bytes K) qs"
  using assms
proof (induction rs arbitrary: qs rule: rev_induct)
  case Nil
  then show ?case by (cases qs rule: rev_cases) auto
next
  case (snoc r rs)
  obtain q qs' where qs: "qs = qs' @ [q]" using snoc.prems(3) by (cases qs rule: rev_cases) auto
  have lr: "link K rs r" "chain K rs" and lq: "link K qs' q" "chain K qs'"
    using snoc.prems(1,2) by (simp_all add: qs)
  have "record_hash K r = record_hash K q" using snoc.prems(3) lr lq by (simp add: qs link_def)
  then have bytes: "record_bytes K r = record_bytes K q" using snoc.prems(4) by (simp add: qs)
  have front: "(case last_hash rs of None \<Rightarrow> [] | Some h \<Rightarrow> h) = (case last_hash qs' of None \<Rightarrow> [] | Some h \<Rightarrow> h)"
    using record_bytes_front(1) [OF bytes] last_hash_length lr lq by (metis link_def)
  then have "last_hash rs = last_hash qs'"
    using chain_last_hash [OF lr(2)] chain_last_hash [OF lq(2)]
    by (cases "last_hash rs"; cases "last_hash qs'") auto
  then have "map (record_bytes K) rs = map (record_bytes K) qs'"
    using snoc.IH [of qs'] lr lq snoc.prems(4) by (simp add: qs)
  with bytes qs show ?case by simp
qed

end
