(* ===== verification/Conduct_Lifecycle.thy ===== *)
theory Conduct_Lifecycle
  imports Journal_Facts
begin

text \<open>
  \<open>sim-lib-agent-conduct-core/src/lifecycle.rs\<close>: durable runs over a journal store. The trait
  \<open>AgentJournalStore\<close> is the record \<open>store_ops\<close> of its two methods, the type parameter \<open>S\<close> is
  \<open>'st\<close>; \<open>memory_store\<close> is its in-memory implementation. A method that takes \<open>&mut self\<close> returns
  its result and the new run, also when the result is an error. \<open>checks\<close> says whether the build
  checks integer overflow; \<open>'k\<close> is the kernel's \<open>CapabilityName\<close>.
\<close>

section \<open>Data\<close>

datatype 's lifecycle_error =
    LJournal journal_error
  | LRunAlreadyExists 's
  | LEmptyJournal
  | LGraphDrift
  | LBindingDrift
  | LRunIdentityDrift
  | LStaleHandle
  | LUncertainEffect
  | LDivergentModelReplay string
  | LLiveEffectInReplay
  | LAuthorityWidening
  | LStore string

datatype suspend_reason = Checkpoint | Cancelled | UnavailableBinding | ExhaustedBudget | UncertainEffect

record 's durable_run_handle =
  dh_run_id :: 's
  dh_sequence :: "64 word"
  dh_journal_hash :: string
  dh_graph_fingerprint :: string
  dh_binding_fingerprint :: string

datatype 's effect_recovery = ECommitted "'s expr" | EAborted "'s expr" | ERequested

record 's model_exchange =
  mx_request_id :: string
  mx_response :: "'s expr"
  mx_usage :: "'s agent_usage"

record (overloaded) 's counterfactual =
  cf_forced_reviews :: "('s, 's) btmap"
  cf_replacement_replies :: "('s, 's expr) btmap"
  cf_disabled_edges :: "'s fset"

record 's mission_journal_row =
  mr_sequence :: "64 word"
  mr_role :: 's
  mr_step :: 's
  mr_outcome :: 's
  mr_usage :: "'s expr"
  mr_content :: "'s expr"

record 's parent_journal_ref =
  pj_run_id :: 's
  pj_sequence :: "64 word"
  pj_hash :: string

section \<open>Stores\<close>

record ('st, 's) store_ops =
  store_load :: "'st \<Rightarrow> 's \<Rightarrow> ('s lifecycle_error, 's agent_journal_record list) outcome"
  store_append :: "'st \<Rightarrow> 's \<Rightarrow> 's agent_journal_record \<Rightarrow> ('s lifecycle_error, unit) outcome \<times> 'st"

type_synonym 's memory = "('s, 's agent_journal_record list) btmap"

definition memory_load ::
  "'s::linorder memory \<Rightarrow> 's \<Rightarrow> ('s lifecycle_error, 's agent_journal_record list) outcome" where
  "memory_load runs run_id = Ok (case bt_get runs run_id of None \<Rightarrow> [] | Some rs \<Rightarrow> rs)"

text \<open>\<open>entry(run_id).or_default()\<close> leaves an empty history behind even when the append fails.\<close>

definition memory_append ::
  "('s, 'c) symbol_kernel \<Rightarrow> 's::linorder memory \<Rightarrow> 's \<Rightarrow> 's agent_journal_record
     \<Rightarrow> ('s lifecycle_error, unit) outcome \<times> 's memory" where
  "memory_append K runs run_id r =
     (let records = (case bt_get runs run_id of None \<Rightarrow> [] | Some rs \<Rightarrow> rs);
          runs' = bt_insert run_id records runs; i = unat (jr_sequence r) in
      if i < length records
      then (if records ! i = r then Ok () else Err (LJournal (JDivergentDuplicate (jr_sequence r))), runs')
      else case bind_o (journal_from_records K (jr_graph_fingerprint r) (jr_binding_fingerprint r) records)
                  (\<lambda>checked. journal_insert K checked r) of
             Ok _ \<Rightarrow> (Ok (), bt_insert run_id (records @ [r]) runs)
           | Err e \<Rightarrow> (Err (LJournal e), runs')
           | Panic \<Rightarrow> (Panic, runs')
           | Diverge \<Rightarrow> (Diverge, runs'))"

definition memory_store :: "('s, 'c) symbol_kernel \<Rightarrow> ('s::linorder memory, 's) store_ops" where
  "memory_store K = \<lparr>store_load = memory_load, store_append = memory_append K\<rparr>"

section \<open>Durable runs\<close>

record (overloaded) ('st, 's, 'k) durable_agent_run =
  dr_store :: 'st
  dr_journal :: "'s agent_journal"
  dr_frame :: "'s agent_run_frame"
  dr_continuation :: "'s expr"
  dr_authority :: "'k fset"
  dr_exchanges :: "(string, 's model_exchange) btmap"

text \<open>\<open>+ 1\<close> and \<open>- 1\<close> on \<open>u64\<close>.\<close>

definition succ64 :: "bool \<Rightarrow> 64 word \<Rightarrow> ('s lifecycle_error, 64 word) outcome" where
  "succ64 checks w = (if checks \<and> w = - 1 then Panic else Ok (w + 1))"

definition pred64 :: "bool \<Rightarrow> 64 word \<Rightarrow> ('s lifecycle_error, 64 word) outcome" where
  "pred64 checks w = (if checks \<and> w = 0 then Panic else Ok (w - 1))"

definition last_record :: "'s agent_journal \<Rightarrow> ('s lifecycle_error, 's agent_journal_record) outcome" where
  "last_record journal = (if jn_records journal = [] then Err LEmptyJournal else Ok (last (jn_records journal)))"

definition start ::
  "('st, 's) store_ops \<Rightarrow> 'st \<Rightarrow> 's agent_run_frame \<Rightarrow> string \<Rightarrow> string \<Rightarrow> 'k fset
     \<Rightarrow> ('s lifecycle_error, ('st, 's, 'k) durable_agent_run) outcome" where
  "start S store frame graph bindings authority =
     bind_o (store_load S store (fr_run_id frame)) (\<lambda>records.
     if records \<noteq> [] then Err (LRunAlreadyExists (fr_run_id frame))
     else Ok \<lparr>dr_store = store, dr_journal = journal_new graph bindings, dr_frame = frame,
              dr_continuation = ENil, dr_authority = authority, dr_exchanges = bt_empty\<rparr>)"

definition resume ::
  "('s, 'c) symbol_kernel \<Rightarrow> bool \<Rightarrow> ('st, 's) store_ops \<Rightarrow> 'st \<Rightarrow> 's durable_run_handle \<Rightarrow> string \<Rightarrow> string
     \<Rightarrow> 's agent_run_frame \<Rightarrow> 'k fset \<Rightarrow> ('s lifecycle_error, ('st, 's, 'k) durable_agent_run) outcome" where
  "resume K checks S store handle graph bindings frame authority =
     (if dh_graph_fingerprint handle \<noteq> graph then Err LGraphDrift
      else if dh_binding_fingerprint handle \<noteq> bindings then Err LBindingDrift
      else bind_o (store_load S store (dh_run_id handle)) (\<lambda>records.
      bind_o (map_err LJournal (journal_from_records K graph bindings records)) (\<lambda>journal.
      bind_o (last_record journal) (\<lambda>last.
      bind_o (succ64 checks (jr_sequence last)) (\<lambda>next.
      if dh_sequence handle \<noteq> next \<or> dh_journal_hash handle \<noteq> jr_hash last then Err LStaleHandle
      else if fr_run_id frame \<noteq> dh_run_id handle then Err LRunIdentityDrift
      else Ok \<lparr>dr_store = store, dr_journal = journal, dr_frame = frame,
               dr_continuation = jr_continuation last, dr_authority = authority, dr_exchanges = bt_empty\<rparr>)))))"

definition run_handle ::
  "bool \<Rightarrow> ('st, 's, 'k) durable_agent_run \<Rightarrow> ('s lifecycle_error, 's durable_run_handle) outcome" where
  "run_handle checks run =
     bind_o (last_record (dr_journal run)) (\<lambda>r.
     bind_o (succ64 checks (jr_sequence r)) (\<lambda>next.
     Ok \<lparr>dh_run_id = fr_run_id (dr_frame run), dh_sequence = next, dh_journal_hash = jr_hash r,
         dh_graph_fingerprint = jr_graph_fingerprint r, dh_binding_fingerprint = jr_binding_fingerprint r\<rparr>))"

text \<open>The new record enters the run's journal before the store is asked to keep it.\<close>

definition commit_step ::
  "('s, 'c) symbol_kernel \<Rightarrow> 's citizen_codec \<Rightarrow> bool \<Rightarrow> ('st, 's) store_ops \<Rightarrow> ('st, 's, 'k) durable_agent_run
     \<Rightarrow> 's agent_run_frame \<Rightarrow> 's agent_event \<Rightarrow> 's expr list \<Rightarrow> 's expr
     \<Rightarrow> ('s lifecycle_error, 's durable_run_handle) outcome \<times> ('st, 's, 'k) durable_agent_run" where
  "commit_step K C checks S run frame event receipts continuation =
     (if fr_run_id frame \<noteq> fr_run_id (dr_frame run) then (Err LRunIdentityDrift, run)
      else case journal_append K C (dr_journal run) event frame (fr_usage frame) receipts continuation of
             Err e \<Rightarrow> (Err (LJournal e), run)
           | Panic \<Rightarrow> (Panic, run)
           | Diverge \<Rightarrow> (Diverge, run)
           | Ok (r, journal) \<Rightarrow>
               let (result, store) = store_append S (dr_store run) (fr_run_id frame) r;
                   appended = run\<lparr>dr_journal := journal, dr_store := store\<rparr> in
               (case result of
                  Err e \<Rightarrow> (Err e, appended)
                | Panic \<Rightarrow> (Panic, appended)
                | Diverge \<Rightarrow> (Diverge, appended)
                | Ok _ \<Rightarrow>
                    let run' = appended\<lparr>dr_frame := frame, dr_continuation := continuation\<rparr> in
                    (run_handle checks run', run')))"

text \<open>\<open>production_step\<close> is the caller's closure.\<close>

definition advance ::
  "('s, 'c) symbol_kernel \<Rightarrow> 's citizen_codec \<Rightarrow> bool \<Rightarrow> ('st, 's) store_ops \<Rightarrow> ('st, 's, 'k) durable_agent_run
     \<Rightarrow> ('s agent_run_frame \<Rightarrow> 's expr option
          \<Rightarrow> ('s lifecycle_error, 's agent_run_frame \<times> 's agent_event \<times> 's expr list \<times> 's expr) outcome)
     \<Rightarrow> ('s lifecycle_error, 's durable_run_handle) outcome \<times> ('st, 's, 'k) durable_agent_run" where
  "advance K C checks S run production_step =
     (case production_step (dr_frame run)
             (if dr_continuation run = ENil then None else Some (dr_continuation run)) of
        Ok (frame, event, receipts, continuation) \<Rightarrow> commit_step K C checks S run frame event receipts continuation
      | Err e \<Rightarrow> (Err e, run)
      | Panic \<Rightarrow> (Panic, run)
      | Diverge \<Rightarrow> (Diverge, run))"

definition automatic_suspension ::
  "bool \<Rightarrow> bool \<Rightarrow> bool \<Rightarrow> bool \<Rightarrow> 's effect_recovery option \<Rightarrow> suspend_reason option" where
  "automatic_suspension explicit_checkpoint cancelled binding_available budget_available effect =
     (if explicit_checkpoint then Some Checkpoint
      else if cancelled then Some Cancelled
      else if \<not> binding_available then Some UnavailableBinding
      else if \<not> budget_available then Some ExhaustedBudget
      else case effect of Some ERequested \<Rightarrow> Some UncertainEffect | _ \<Rightarrow> None)"

definition suspend ::
  "bool \<Rightarrow> ('st, 's, 'k) durable_agent_run \<Rightarrow> suspend_reason \<Rightarrow> ('s lifecycle_error, 's durable_run_handle) outcome" where
  "suspend checks run reason = run_handle checks run"

definition reconcile_effect :: "'s effect_recovery \<Rightarrow> ('s lifecycle_error, 's expr) outcome" where
  "reconcile_effect recovery =
     (case recovery of
        ECommitted result \<Rightarrow> Ok result
      | EAborted result \<Rightarrow> Ok result
      | ERequested \<Rightarrow> Err LUncertainEffect)"

definition record_model_exchange ::
  "('st, 's, 'k) durable_agent_run \<Rightarrow> 's model_exchange
     \<Rightarrow> ('s lifecycle_error, 's expr) outcome \<times> ('st, 's, 'k) durable_agent_run" where
  "record_model_exchange run exchange =
     (case bt_get (dr_exchanges run) (mx_request_id exchange) of
        Some recorded \<Rightarrow>
          (if recorded = exchange then Ok (mx_response recorded)
           else Err (LDivergentModelReplay (mx_request_id exchange)), run)
      | None \<Rightarrow>
          (Ok (mx_response exchange),
           run\<lparr>dr_exchanges := bt_insert (mx_request_id exchange) exchange (dr_exchanges run)\<rparr>))"

definition receipt_replay ::
  "('s, 'c) symbol_kernel \<Rightarrow> ('st, 's) store_ops \<Rightarrow> 'st \<Rightarrow> 's durable_run_handle \<Rightarrow> string \<Rightarrow> 's expr
     \<Rightarrow> ('s lifecycle_error, 's expr) outcome" where
  "receipt_replay K S store handle report_graph recorded_result =
     (if report_graph \<noteq> dh_graph_fingerprint handle then Err LGraphDrift
      else bind_o (store_load S store (dh_run_id handle)) (\<lambda>records.
      bind_o (map_err LJournal (journal_from_records K (dh_graph_fingerprint handle) (dh_binding_fingerprint handle) records)) (\<lambda>journal.
      bind_o (last_record journal) (\<lambda>last.
      if jr_hash last \<noteq> dh_journal_hash handle then Err LStaleHandle else Ok recorded_result))))"

definition counterfactual_replay ::
  "'s::linorder counterfactual \<Rightarrow> bool \<Rightarrow> ('s lifecycle_error, 's counterfactual) outcome" where
  "counterfactual_replay counterfactual has_live_effect_target =
     (if has_live_effect_target then Err LLiveEffectInReplay else Ok counterfactual)"

text \<open>The child's graph and binding identities are arguments that \<open>fork\<close> drops.\<close>

definition fork ::
  "bool \<Rightarrow> ('st, 's, 'k) durable_agent_run \<Rightarrow> 's \<Rightarrow> 'k fset \<Rightarrow> bool
     \<Rightarrow> ('s lifecycle_error, 's parent_journal_ref \<times> 's agent_run_frame) outcome" where
  "fork checks run child_run_id child_authority caller_can_widen =
     (if \<not> child_authority |\<subseteq>| dr_authority run \<and> \<not> caller_can_widen then Err LAuthorityWidening
      else bind_o (run_handle checks run) (\<lambda>handle.
      bind_o (pred64 checks (dh_sequence handle)) (\<lambda>sequence.
      Ok (\<lparr>pj_run_id = dh_run_id handle, pj_sequence = sequence, pj_hash = dh_journal_hash handle\<rparr>,
          (dr_frame run)\<lparr>fr_run_id := child_run_id\<rparr>))))"

definition mission_rows ::
  "('st, 's, 'k) durable_agent_run \<Rightarrow> 's \<Rightarrow> 's \<Rightarrow> 's \<Rightarrow> ('s expr \<Rightarrow> 's expr) \<Rightarrow> 's mission_journal_row list" where
  "mission_rows run role step result redact =
     map (\<lambda>r. \<lparr>mr_sequence = jr_sequence r, mr_role = role, mr_step = step, mr_outcome = result,
               mr_usage = jr_usage r, mr_content = redact (jr_event r)\<rparr>) (jn_records (dr_journal run))"

section \<open>Runs in step with their store\<close>

text \<open>A run in step with its store: the store holds exactly the run's journal.\<close>

definition in_step ::
  "('st, 's) store_ops \<Rightarrow> ('st \<Rightarrow> bool) \<Rightarrow> ('s, 'c) symbol_kernel \<Rightarrow> ('st, 's, 'k) durable_agent_run \<Rightarrow> bool" where
  "in_step S valid K run \<longleftrightarrow>
     valid (dr_store run)
     \<and> store_load S (dr_store run) (fr_run_id (dr_frame run)) = Ok (jn_records (dr_journal run))
     \<and> loaded K (jn_graph_fingerprint (dr_journal run)) (jn_binding_fingerprint (dr_journal run)) (dr_journal run)
     \<and> dr_continuation run =
         (if jn_records (dr_journal run) = [] then ENil else jr_continuation (last (jn_records (dr_journal run))))"

text \<open>
  Everything that can happen to a run and to the store behind it: commits, refused or not, recorded
  exchanges, a resumption, and a new run on the same store. \<open>advance\<close> is a commit of what the
  caller's step returns.
\<close>

inductive run_step ::
  "('s, 'c) symbol_kernel \<Rightarrow> 's citizen_codec \<Rightarrow> bool \<Rightarrow> ('st, 's) store_ops
     \<Rightarrow> ('st, 's, 'k) durable_agent_run \<Rightarrow> ('st, 's, 'k) durable_agent_run \<Rightarrow> bool"
  for K C checks S where
  committed: "commit_step K C checks S run frame event receipts continuation = (Ok handle, run') \<Longrightarrow>
     run_step K C checks S run run'"
| refused: "commit_step K C checks S run frame event receipts continuation = (Err e, run') \<Longrightarrow>
     run_step K C checks S run run'"
| advanced: "advance K C checks S run production_step = (Ok handle, run') \<Longrightarrow> run_step K C checks S run run'"
| stalled: "advance K C checks S run production_step = (Err e, run') \<Longrightarrow> run_step K C checks S run run'"
| exchanged: "record_model_exchange run exchange = (result, run') \<Longrightarrow> run_step K C checks S run run'"
| resumed: "resume K checks S (dr_store run) handle graph bindings frame authority = Ok run' \<Longrightarrow>
     run_step K C checks S run run'"
| started: "start S (dr_store run) frame graph bindings authority = Ok run' \<Longrightarrow> run_step K C checks S run run'"

inductive reachable_run ::
  "('s, 'c) symbol_kernel \<Rightarrow> 's citizen_codec \<Rightarrow> bool \<Rightarrow> ('st, 's) store_ops \<Rightarrow> 'st
     \<Rightarrow> ('st, 's, 'k) durable_agent_run \<Rightarrow> bool"
  for K C checks S store where
  first: "start S store frame graph bindings authority = Ok run \<Longrightarrow> reachable_run K C checks S store run"
| later: "reachable_run K C checks S store run \<Longrightarrow> run_step K C checks S run run' \<Longrightarrow>
     reachable_run K C checks S store run'"

lemma advance_commits:
  "advance K C checks S run production_step = (result, run') \<Longrightarrow>
     run' = run \<or> (\<exists>frame event receipts continuation. commit_step K C checks S run frame event receipts continuation = (result, run'))"
  by (auto simp: advance_def split: outcome.splits)

section \<open>The contract of a store\<close>

text \<open>
  What \<open>AgentJournalStore\<close> promises: an append that succeeds leaves the run's history extended by
  the record, or unchanged when it is already there; one that fails leaves it as it was; other runs
  are not touched. \<open>valid\<close> is the store's own invariant.
\<close>

locale journal_store =
  fixes S :: "('st, 's) store_ops"
    and valid :: "'st \<Rightarrow> bool"
  assumes valid_append: "valid st \<Longrightarrow> valid (snd (store_append S st run r))"
    and load_distinct: "valid st \<Longrightarrow> store_load S st run = Ok rs \<Longrightarrow> distinct rs"
    and load_appended:
      "valid st \<Longrightarrow> store_load S st run = Ok rs \<Longrightarrow> store_append S st run r = (Ok (), st') \<Longrightarrow>
         store_load S st' run = Ok (if r \<in> set rs then rs else rs @ [r])"
    and load_refused: "valid st \<Longrightarrow> store_append S st run r = (Err e, st') \<Longrightarrow> store_load S st' run = store_load S st run"
    and load_other: "valid st \<Longrightarrow> run' \<noteq> run \<Longrightarrow> store_load S (snd (store_append S st run r)) run' = store_load S st run'"
begin

lemma start_in_step: "valid store \<Longrightarrow> start S store frame g b authority = Ok run \<Longrightarrow> in_step S valid K run"
  by (auto simp: start_def bind_o_Ok in_step_def journal_new_def loaded_def split: if_splits)

lemma resume_in_step:
  assumes "valid store" "resume K checks S store handle g b frame authority = Ok run"
  shows "in_step S valid K run"
proof -
  from assms(2) obtain rs where rs: "store_load S store (dh_run_id handle) = Ok rs"
    and j: "journal_from_records K g b rs = Ok (dr_journal run)"
    and l: "last_record (dr_journal run) = Ok (last (jn_records (dr_journal run)))"
    and parts: "dr_store run = store" "dr_frame run = frame" "fr_run_id frame = dh_run_id handle"
      "dr_continuation run = jr_continuation (last (jn_records (dr_journal run)))"
    by (auto simp: resume_def bind_o_Ok last_record_def split: if_splits)
  have "jn_records (dr_journal run) = rs"
    using from_records_records [OF j] load_distinct [OF assms(1) rs] by simp
  moreover have "loaded K g b (dr_journal run)" using j by (rule from_records_loaded)
  ultimately show ?thesis
    using assms(1) rs l parts by (auto simp: in_step_def last_record_def loaded_def split: if_splits)
qed

text \<open>What a successful commit does to the run and to the store.\<close>

lemma commit_step_Ok:
  assumes "in_step S valid K run"
    and "commit_step K C checks S run frame event receipts continuation = (Ok handle, run')"
  shows "in_step S valid K run'"
    and "\<exists>r. jn_records (dr_journal run') = jn_records (dr_journal run) @ [r]
           \<and> jr_effect_receipts r = receipts \<and> as_expr_event C event = Ok (jr_event r)"
    and "dr_continuation run' = continuation" "dr_frame run' = frame"
    and "fr_run_id frame = fr_run_id (dr_frame run)"
    and "run_handle checks run' = Ok handle"
    and "jn_graph_fingerprint (dr_journal run') = jn_graph_fingerprint (dr_journal run)"
    and "jn_binding_fingerprint (dr_journal run') = jn_binding_fingerprint (dr_journal run)"
proof -
  let ?j = "dr_journal run" and ?id = "fr_run_id frame"
  from assms(2) obtain r j st where id: "?id = fr_run_id (dr_frame run)"
    and app: "journal_append K C ?j event frame (fr_usage frame) receipts continuation = Ok (r, j)"
    and st: "store_append S (dr_store run) ?id r = (Ok (), st)"
    and run': "run' = run\<lparr>dr_journal := j, dr_store := st, dr_frame := frame, dr_continuation := continuation\<rparr>"
    and handle: "run_handle checks run' = Ok handle"
    by (auto simp: commit_step_def Let_def split: if_splits outcome.splits prod.splits)
  note a = journal_append_Ok [OF app]
  have v: "valid (dr_store run)" and load: "store_load S (dr_store run) ?id = Ok (jn_records ?j)"
    and l: "loaded K (jn_graph_fingerprint ?j) (jn_binding_fingerprint ?j) ?j"
    using assms(1) by (simp_all add: in_step_def id)
  have "r \<notin> set (jn_records ?j)" using linked_not_old a(2) l by (auto simp: loaded_def hash_chain_def)
  then have "store_load S st ?id = Ok (jn_records ?j @ [r])" using load_appended [OF v load st] by simp
  moreover have "valid st" using valid_append [OF v, of ?id r] by (simp add: st)
  ultimately show "in_step S valid K run'"
    using journal_append_loaded [OF l app] a by (simp add: in_step_def run')
  show "\<exists>r. jn_records (dr_journal run') = jn_records ?j @ [r]
           \<and> jr_effect_receipts r = receipts \<and> as_expr_event C event = Ok (jr_event r)"
    using a by (auto simp: run')
  show "dr_continuation run' = continuation" "dr_frame run' = frame" "run_handle checks run' = Ok handle"
    "fr_run_id frame = fr_run_id (dr_frame run)"
    "jn_graph_fingerprint (dr_journal run') = jn_graph_fingerprint ?j"
    "jn_binding_fingerprint (dr_journal run') = jn_binding_fingerprint ?j"
    using id handle a(1) by (simp_all add: run')
qed

text \<open>The handle of a run in step resumes to that run.\<close>

lemma handle_resumes:
  assumes "in_step S valid K run" "run_handle checks run = Ok handle" "fr_run_id frame = dh_run_id handle"
  shows "resume K checks S (dr_store run) handle (jn_graph_fingerprint (dr_journal run))
           (jn_binding_fingerprint (dr_journal run)) frame authority
         = Ok (run\<lparr>dr_frame := frame, dr_authority := authority, dr_exchanges := bt_empty\<rparr>)"
proof -
  let ?j = "dr_journal run"
  from assms(2) obtain rs r n where rs: "jn_records ?j = rs @ [r]" and n: "succ64 checks (jr_sequence r) = (Ok n :: ('s lifecycle_error, _) outcome)"
    and handle: "handle = \<lparr>dh_run_id = fr_run_id (dr_frame run), dh_sequence = n, dh_journal_hash = jr_hash r,
         dh_graph_fingerprint = jr_graph_fingerprint r, dh_binding_fingerprint = jr_binding_fingerprint r\<rparr>"
    by (cases "jn_records ?j" rule: rev_cases) (auto simp: run_handle_def last_record_def bind_o_Ok)
  have chain: "hash_chain K (jn_graph_fingerprint ?j) (jn_binding_fingerprint ?j) (jn_records ?j)"
    and load: "store_load S (dr_store run) (fr_run_id (dr_frame run)) = Ok (jn_records ?j)"
    and cont: "dr_continuation run = jr_continuation r"
    using assms(1) by (simp_all add: in_step_def loaded_def rs)
  have fp: "jr_graph_fingerprint r = jn_graph_fingerprint ?j" "jr_binding_fingerprint r = jn_binding_fingerprint ?j"
    using chain by (simp_all add: rs fingerprinted_def)
  have "journal_from_records K (jn_graph_fingerprint ?j) (jn_binding_fingerprint ?j) (jn_records ?j) = Ok ?j"
    using from_records_chain [OF chain] by simp
  then show ?thesis
    using assms(3) by (simp add: resume_def handle fp load last_record_def rs n cont)
qed

lemma handle_replays:
  assumes "in_step S valid K run" "run_handle checks run = Ok handle"
  shows "receipt_replay K S (dr_store run) handle (jn_graph_fingerprint (dr_journal run)) result = Ok result"
proof -
  let ?j = "dr_journal run"
  have chain: "hash_chain K (jn_graph_fingerprint ?j) (jn_binding_fingerprint ?j) (jn_records ?j)"
    and load: "store_load S (dr_store run) (fr_run_id (dr_frame run)) = Ok (jn_records ?j)"
    using assms(1) by (simp_all add: in_step_def loaded_def)
  obtain rs r where rs: "jn_records ?j = rs @ [r]"
    using assms(2) by (cases "jn_records ?j" rule: rev_cases) (auto simp: run_handle_def last_record_def)
  then have handle: "dh_run_id handle = fr_run_id (dr_frame run)" "dh_journal_hash handle = jr_hash r"
    "dh_graph_fingerprint handle = jn_graph_fingerprint ?j" "dh_binding_fingerprint handle = jn_binding_fingerprint ?j"
    using assms(2) chain by (auto simp: run_handle_def last_record_def bind_o_Ok fingerprinted_def)
  show ?thesis
    using from_records_chain [OF chain] load by (simp add: receipt_replay_def handle last_record_def rs)
qed

text \<open>No history is ever rewritten: an append only extends one.\<close>

lemma append_prefix:
  assumes "valid st" "store_load S st other = Ok rs" "store_append S st run r = (result, st')"
    "result \<noteq> Panic" "result \<noteq> Diverge"
  shows "\<exists>rs'. store_load S st' other = Ok rs' \<and> prefix rs rs'"
proof (cases "other = run")
  case True
  show ?thesis
  proof (cases result)
    case (Ok u)
    then show ?thesis using load_appended [OF assms(1), of run rs r st'] assms True by auto
  next
    case (Err e)
    then show ?thesis using load_refused [OF assms(1), of run r e st'] assms True by auto
  qed (use assms in auto)
next
  case False
  then show ?thesis using load_other [OF assms(1) False, of r] assms by auto
qed

lemma commit_prefix:
  assumes "valid (dr_store run)" "store_load S (dr_store run) other = Ok rs"
    "commit_step K C checks S run frame event receipts continuation = (result, run')"
    "result \<noteq> Panic" "result \<noteq> Diverge"
  shows "\<exists>rs'. store_load S (dr_store run') other = Ok rs' \<and> prefix rs rs'"
proof -
  from assms(3-5) consider "run' = run"
    | r res where "store_append S (dr_store run) (fr_run_id frame) r = (res, dr_store run')"
        "res \<noteq> Panic" "res \<noteq> Diverge"
    by (auto simp: commit_step_def Let_def split: if_splits outcome.splits prod.splits)
  then show ?thesis using assms(1,2) append_prefix by cases auto
qed

lemma advance_prefix:
  assumes "valid (dr_store run)" "store_load S (dr_store run) other = Ok rs"
    "advance K C checks S run production_step = (result, run')" "result \<noteq> Panic" "result \<noteq> Diverge"
  shows "\<exists>rs'. store_load S (dr_store run') other = Ok rs' \<and> prefix rs rs'"
  using advance_commits [OF assms(3)]
proof (elim disjE exE)
  fix frame event receipts continuation
  assume "commit_step K C checks S run frame event receipts continuation = (result, run')"
  then show ?thesis using assms(4,5) by (rule commit_prefix [OF assms(1,2)])
qed (use assms(2) in simp)

lemma run_step_prefix:
  assumes "valid (dr_store run)" "store_load S (dr_store run) other = Ok rs" "run_step K C checks S run run'"
  shows "\<exists>rs'. store_load S (dr_store run') other = Ok rs' \<and> prefix rs rs'"
  using assms(3)
proof (cases rule: run_step.cases)
  case (committed frame event receipts continuation handle)
  then show ?thesis using commit_prefix assms by blast
next
  case (refused frame event receipts continuation e)
  then show ?thesis using commit_prefix assms by blast
next
  case (advanced production_step handle)
  then show ?thesis using advance_prefix assms by blast
next
  case (stalled production_step e)
  then show ?thesis using advance_prefix assms by blast
next
  case (exchanged exchange result)
  then have "dr_store run' = dr_store run" by (auto simp: record_model_exchange_def split: option.splits)
  then show ?thesis using assms(2) by simp
next
  case (resumed handle graph bindings frame authority)
  then have "dr_store run' = dr_store run" by (auto simp: resume_def bind_o_Ok split: if_splits)
  then show ?thesis using assms(2) by simp
next
  case (started frame graph bindings authority)
  then have "dr_store run' = dr_store run" by (auto simp: start_def bind_o_Ok split: if_splits)
  then show ?thesis using assms(2) by simp
qed

text \<open>When the backend refuses a record, the run's journal is ahead of the store, and the handle it
  gives from then on names a head the store does not have.\<close>

lemma refused_append:
  assumes "in_step S valid K run" "fr_run_id frame = fr_run_id (dr_frame run)"
    and "journal_append K C (dr_journal run) event frame (fr_usage frame) receipts continuation = Ok (r, journal)"
    and "store_append S (dr_store run) (fr_run_id frame) r = (Err e, store)"
  defines "run' \<equiv> run\<lparr>dr_journal := journal, dr_store := store\<rparr>"
  shows "commit_step K C checks S run frame event receipts continuation = (Err e, run')"
    and "store_load S store (fr_run_id frame) = Ok (jn_records (dr_journal run))"
    and "jn_records (dr_journal run') = jn_records (dr_journal run) @ [r]"
    and "run_handle checks run' = Ok handle \<Longrightarrow>
      resume K checks S store handle (jn_graph_fingerprint journal) (jn_binding_fingerprint journal) frame authority
        = Err (if jn_records (dr_journal run) = [] then LEmptyJournal else LStaleHandle)"
proof -
  let ?j = "dr_journal run"
  note a = journal_append_Ok [OF assms(3)]
  have v: "valid (dr_store run)" and load: "store_load S (dr_store run) (fr_run_id frame) = Ok (jn_records ?j)"
    and l: "hash_chain K (jn_graph_fingerprint ?j) (jn_binding_fingerprint ?j) (jn_records ?j)"
    using assms(1,2) by (simp_all add: in_step_def loaded_def)
  show "commit_step K C checks S run frame event receipts continuation = (Err e, run')"
    using assms(2-4) by (simp add: commit_step_def run'_def)
  show store: "store_load S store (fr_run_id frame) = Ok (jn_records ?j)"
    using load_refused [OF v assms(4)] load by simp
  show recs: "jn_records (dr_journal run') = jn_records ?j @ [r]" using a(1) by (simp add: run'_def)
  assume h: "run_handle checks run' = Ok handle"
  then have handle: "dh_run_id handle = fr_run_id frame" "dh_sequence handle = jr_sequence r + 1"
    "dh_graph_fingerprint handle = jn_graph_fingerprint ?j" "dh_binding_fingerprint handle = jn_binding_fingerprint ?j"
    using a(1,3) assms(2) by (auto simp: run_handle_def run'_def last_record_def bind_o_Ok succ64_def fingerprinted_def split: if_splits)
  have loads: "journal_from_records K (jn_graph_fingerprint journal) (jn_binding_fingerprint journal) (jn_records ?j) = Ok ?j"
    using from_records_chain [OF l] a(1) by simp
  show "resume K checks S store handle (jn_graph_fingerprint journal) (jn_binding_fingerprint journal) frame authority
        = Err (if jn_records ?j = [] then LEmptyJournal else LStaleHandle)"
  proof (cases "jn_records ?j" rule: rev_cases)
    case Nil
    with loads handle store a(1) show ?thesis by (simp add: resume_def last_record_def)
  next
    case (snoc rs q)
    have q: "unat (jr_sequence q) = length rs" "unat (jr_sequence r) = Suc (length rs)"
      using l a(2) by (simp_all add: snoc link_def)
    then have "jr_sequence q \<noteq> - 1" "jr_sequence r \<noteq> jr_sequence q"
      using unsigned_less [of "jr_sequence r", where ?'a = nat] by (auto simp: unsigned_minus_1_eq_mask mask_eq_exp_minus_1)
    with loads handle store a(1) show ?thesis by (simp add: resume_def last_record_def snoc succ64_def)
  qed
qed

text \<open>A handle given before the refusal still names the head of the store.\<close>

lemma refused_append_resumes:
  assumes "in_step S valid K run" "fr_run_id frame = fr_run_id (dr_frame run)"
    and "store_append S (dr_store run) (fr_run_id frame) r = (Err e, store)"
    and "run_handle checks run = Ok handle"
  shows "resume K checks S store handle (jn_graph_fingerprint (dr_journal run))
           (jn_binding_fingerprint (dr_journal run)) frame authority
         = Ok (run\<lparr>dr_store := store, dr_frame := frame, dr_authority := authority, dr_exchanges := bt_empty\<rparr>)"
proof -
  have v: "valid (dr_store run)" using assms(1) by (simp add: in_step_def)
  have "in_step S valid K (run\<lparr>dr_store := store\<rparr>)"
    using assms(1,2) load_refused [OF v assms(3)] valid_append [OF v, of "fr_run_id frame" r] assms(3)
    by (simp add: in_step_def)
  moreover have "run_handle checks (run\<lparr>dr_store := store\<rparr>) = Ok handle" using assms(4) by (simp add: run_handle_def)
  moreover have "fr_run_id frame = dh_run_id handle" using assms(2,4) by (auto simp: run_handle_def bind_o_Ok)
  ultimately show ?thesis using handle_resumes [of K "run\<lparr>dr_store := store\<rparr>"] by simp
qed

end

text \<open>A store that also accepts every record extending a hash chain.\<close>

locale complete_store = journal_store S valid
  for S :: "('st, 's) store_ops" and valid :: "'st \<Rightarrow> bool" +
  fixes K :: "('s, 'c) symbol_kernel"
  assumes accepts:
    "valid st \<Longrightarrow> store_load S st run = Ok rs \<Longrightarrow> hash_chain K g b (rs @ [r]) \<Longrightarrow>
       \<exists>st'. store_append S st run r = (Ok (), st')"
begin

text \<open>Then a commit that is refused leaves the run as it was, and only an alien frame, a failed
  encoding or a full journal refuses one.\<close>

lemma commit_step_total:
  assumes "in_step S valid K run" "fr_run_id frame = fr_run_id (dr_frame run)"
    and "journal_append K C (dr_journal run) event frame (fr_usage frame) receipts continuation = Ok (r, j)"
    and "unat (jr_sequence r) < 2 ^ 64 - 1"
  shows "\<exists>handle run'. commit_step K C checks S run frame event receipts continuation = (Ok handle, run')"
proof -
  let ?j = "dr_journal run"
  note a = journal_append_Ok [OF assms(3)]
  have chain: "hash_chain K (jn_graph_fingerprint ?j) (jn_binding_fingerprint ?j) (jn_records ?j @ [r])"
    using assms(1) a by (simp add: in_step_def loaded_def)
  obtain st where st: "store_append S (dr_store run) (fr_run_id frame) r = (Ok (), st)"
    using accepts [OF _ _ chain] assms(1,2) by (auto simp: in_step_def)
  have "jr_sequence r \<noteq> - 1" using assms(4) by (auto simp: unsigned_minus_1_eq_mask mask_eq_exp_minus_1)
  then show ?thesis
    using assms(2,3) st a(1) by (simp add: commit_step_def run_handle_def last_record_def succ64_def)
qed

lemma commit_step_refused:
  assumes "in_step S valid K run" "commit_step K C checks S run frame event receipts continuation = (Err e, run')"
  shows "run' = run"
proof -
  let ?j = "dr_journal run"
  have False if app: "journal_append K C ?j event frame (fr_usage frame) receipts continuation = Ok (r, j)"
    and id: "fr_run_id frame = fr_run_id (dr_frame run)" for r j
  proof -
    note a = journal_append_Ok [OF app]
    have chain: "hash_chain K (jn_graph_fingerprint ?j) (jn_binding_fingerprint ?j) (jn_records ?j @ [r])"
      using assms(1) a by (simp add: in_step_def loaded_def)
    obtain st where st: "store_append S (dr_store run) (fr_run_id frame) r = (Ok (), st)"
      using accepts [OF _ _ chain] assms(1) id by (auto simp: in_step_def)
    then show False
      using assms(2) app id a(1) by (auto simp: commit_step_def run_handle_def last_record_def succ64_def Let_def split: if_splits)
  qed
  then show ?thesis
    using assms(2) by (auto simp: commit_step_def split: if_splits outcome.splits)
qed

lemma record_model_exchange_in_step:
  "in_step S valid K run \<Longrightarrow> record_model_exchange run exchange = (result, run') \<Longrightarrow> in_step S valid K run'"
  by (auto simp: record_model_exchange_def in_step_def split: option.splits)

lemma run_step_in_step:
  assumes "in_step S valid K run" "run_step K C checks S run run'"
  shows "in_step S valid K run'"
  using assms(2)
proof (cases rule: run_step.cases)
  case (committed frame event receipts continuation handle)
  with assms(1) show ?thesis by (rule commit_step_Ok(1))
next
  case (refused frame event receipts continuation e)
  with assms(1) show ?thesis using commit_step_refused by metis
next
  case (exchanged exchange result)
  with assms(1) show ?thesis by (rule record_model_exchange_in_step)
next
  case (advanced production_step handle)
  with assms(1) show ?thesis by (metis advance_commits commit_step_Ok(1))
next
  case (stalled production_step e)
  with assms(1) show ?thesis by (metis advance_commits commit_step_refused)
next
  case (resumed handle graph bindings frame authority)
  with assms(1) show ?thesis by (meson in_step_def resume_in_step)
next
  case (started frame graph bindings authority)
  with assms(1) show ?thesis by (meson in_step_def start_in_step)
qed

lemma reachable_in_step:
  "reachable_run K C checks S store run \<Longrightarrow> valid store \<Longrightarrow> in_step S valid K run"
  by (induction rule: reachable_run.induct) (auto intro: start_in_step run_step_in_step)

end

section \<open>The in-memory store keeps the contract\<close>

text \<open>Every history it holds is the hash chain of some journal.\<close>

definition memory_valid :: "('s, 'c) symbol_kernel \<Rightarrow> 's::linorder memory \<Rightarrow> bool" where
  "memory_valid K runs \<longleftrightarrow>
     list_all (\<lambda>rs. rs = [] \<or> hash_chain K (jr_graph_fingerprint (hd rs)) (jr_binding_fingerprint (hd rs)) rs) (bt_values runs)"

lemma memory_valid_iff:
  "memory_valid K runs \<longleftrightarrow> (\<forall>run rs. memory_load runs run = Ok rs \<longrightarrow> (\<exists>g b. hash_chain K g b rs))"
proof -
  have hd: "(rs = [] \<or> hash_chain K (jr_graph_fingerprint (hd rs)) (jr_binding_fingerprint (hd rs)) rs)
      \<longleftrightarrow> (\<exists>g b. hash_chain K g b rs)" for rs
    by (cases rs) (auto simp: hash_chain_def fingerprinted_def)
  have "(\<forall>rs \<in> ran (bt_get runs). \<exists>g b. hash_chain K g b rs) \<longleftrightarrow>
        (\<forall>run rs. memory_load runs run = Ok rs \<longrightarrow> (\<exists>g b. hash_chain K g b rs))"
    by (auto simp: memory_load_def ran_def split: option.splits)
  then show ?thesis unfolding memory_valid_def list_all_iff set_bt_values hd .
qed

lemma memory_load_insert [simp]:
  "memory_load (bt_insert run rs runs) run' = (if run' = run then Ok rs else memory_load runs run')"
  by (simp add: memory_load_def)

lemma from_records_idem:
  assumes "hash_chain K g b rs" "rs \<noteq> []" "journal_from_records K g' b' rs = Ok j"
  shows "g' = g \<and> b' = b"
proof -
  have "set (jn_records j) = set rs" using assms(3) by (rule from_records_members)
  moreover have "hash_chain K g' b' (jn_records j)" using from_records_loaded [OF assms(3)] by (simp add: loaded_def)
  ultimately show ?thesis using assms(1,2)
    by (cases rs) (auto simp: hash_chain_def fingerprinted_def list_all_iff)
qed

text \<open>The checks of an append past the end amount to extending the hash chain.\<close>

lemma checked_append:
  assumes "\<exists>g b. hash_chain K g b rs" "length rs \<le> unat (jr_sequence r)"
    and "bind_o (journal_from_records K (jr_graph_fingerprint r) (jr_binding_fingerprint r) rs) (\<lambda>j. journal_insert K j r) = Ok j'"
  shows "hash_chain K (jr_graph_fingerprint r) (jr_binding_fingerprint r) (rs @ [r])"
proof -
  let ?g = "jr_graph_fingerprint r" and ?b = "jr_binding_fingerprint r"
  obtain j where j: "journal_from_records K ?g ?b rs = Ok j" and ins: "journal_insert K j r = Ok j'"
    using assms(3) by (auto simp: bind_o_Ok)
  have "distinct rs" using assms(1) chain_distinct by (auto simp: hash_chain_def)
  then have recs: "jn_records j = rs" using from_records_records [OF j] by simp
  have "link K rs r" using ins assms(2) by (auto simp: journal_insert_Ok recs)
  moreover have "hash_chain K ?g ?b rs" using from_records_loaded [OF j] by (simp add: loaded_def recs)
  ultimately show ?thesis by (simp add: fingerprinted_def)
qed

lemma extension_checked:
  assumes "hash_chain K g b (rs @ [r])"
  shows "\<exists>j. bind_o (journal_from_records K (jr_graph_fingerprint r) (jr_binding_fingerprint r) rs) (\<lambda>j. journal_insert K j r) = Ok j"
  using assms from_records_chain [of K g b rs] by (auto simp: fingerprinted_def bind_o_Ok journal_insert_link)

text \<open>What an append to the in-memory store does, by its result.\<close>

lemma memory_append_cases:
  assumes "memory_load runs run = Ok rs" "\<exists>g b. hash_chain K g b rs"
  obtains (same) "r \<in> set rs" "memory_append K runs run r = (Ok (), bt_insert run rs runs)"
    | (extended) "r \<notin> set rs" "hash_chain K (jr_graph_fingerprint r) (jr_binding_fingerprint r) (rs @ [r])"
        "memory_append K runs run r = (Ok (), bt_insert run (rs @ [r]) runs)"
    | (refused) e where "\<not> (\<exists>g b. hash_chain K g b (rs @ [r]))" "memory_append K runs run r = (Err e, bt_insert run rs runs)"
proof -
  have rs: "(case bt_get runs run of None \<Rightarrow> [] | Some rs \<Rightarrow> rs) = rs" using assms(1) by (simp add: memory_load_def)
  show thesis
  proof (cases "unat (jr_sequence r) < length rs")
    case True
    then have "\<not> link K rs r" by (simp add: link_def)
    then have "\<not> (\<exists>g b. hash_chain K g b (rs @ [r]))" by simp
    with True show thesis
      using that(1) that(3) inserted_old [of rs "unat (jr_sequence r)" r]
      by (cases "rs ! unat (jr_sequence r) = r") (auto simp: memory_append_def rs simp del: hash_chain_snoc)
  next
    case False
    let ?check = "bind_o (journal_from_records K (jr_graph_fingerprint r) (jr_binding_fingerprint r) rs) (\<lambda>j. journal_insert K j r)"
    show thesis
    proof (cases ?check)
      case (Ok j)
      have "hash_chain K (jr_graph_fingerprint r) (jr_binding_fingerprint r) (rs @ [r])"
        using checked_append [OF assms(2) _ Ok] False by simp
      moreover from this have "r \<notin> set rs" using linked_not_old by (auto simp: hash_chain_def)
      ultimately show thesis using that(2) Ok False by (simp add: memory_append_def rs)
    next
      case (Err e)
      then have "\<not> (\<exists>g b. hash_chain K g b (rs @ [r]))" using extension_checked by fastforce
      then show thesis using that(3) Err False by (simp add: memory_append_def rs)
    qed (auto simp: bind_o_Panic bind_o_Diverge)
  qed
qed

lemma memory_append_valid: "memory_valid K runs \<Longrightarrow> memory_valid K (snd (memory_append K runs run r))"
proof -
  assume v: "memory_valid K runs"
  obtain rs where rs: "memory_load runs run = Ok rs" by (simp add: memory_load_def)
  with v have "\<exists>g b. hash_chain K g b rs" by (auto simp: memory_valid_iff)
  from memory_append_cases [OF rs this, of r] show ?thesis
    using v \<open>\<exists>g b. hash_chain K g b rs\<close> by cases (auto simp: memory_valid_iff simp del: hash_chain_snoc)
qed

lemma memory_store_simps [simp]:
  "store_load (memory_store K) = memory_load" "store_append (memory_store K) = memory_append K"
  by (simp_all add: memory_store_def)

lemma memory_contract: "journal_store (memory_store K) (memory_valid K)"
proof (unfold_locales, goal_cases)
  case (1 st run r)
  then show ?case by (simp add: memory_append_valid)
next
  case (2 st run rs)
  then show ?case using chain_distinct by (auto simp: memory_valid_iff hash_chain_def)
next
  case (3 st run rs r st')
  then have "memory_load st run = Ok rs" "\<exists>g b. hash_chain K g b rs" by (auto simp: memory_valid_iff)
  from memory_append_cases [OF this, of r] show ?case using 3(3) by cases auto
next
  case (4 st run r e st')
  obtain rs where rs: "memory_load st run = Ok rs" by (simp add: memory_load_def)
  with 4 have "\<exists>g b. hash_chain K g b rs" by (auto simp: memory_valid_iff)
  from memory_append_cases [OF rs this, of r] show ?case using 4(2) rs by cases auto
next
  case (5 st run' run r)
  obtain rs where rs: "memory_load st run = Ok rs" by (simp add: memory_load_def)
  with 5 have "\<exists>g b. hash_chain K g b rs" by (auto simp: memory_valid_iff)
  from memory_append_cases [OF rs this, of r] show ?case using 5(2) by cases auto
qed

lemma memory_complete: "complete_store (memory_store K) (memory_valid K) K"
proof (rule complete_store.intro [OF memory_contract], unfold_locales, goal_cases)
  case (1 st run rs g b r)
  then have "memory_load st run = Ok rs" "\<exists>g b. hash_chain K g b rs" by auto
  from memory_append_cases [OF this, of r] show ?case using 1(3) by cases auto
qed

interpretation mem: complete_store "memory_store K" "memory_valid K" K for K
  by (rule memory_complete)

end
