(* ===== verification/Kernel_Samples.thy ===== *)
theory Kernel_Samples
  imports Roadmap_Samples Kernel_Expr
begin

text \<open>
  The sample kernel with the parts of a symbol: a symbol is its list of name parts, the first of
  two or more is its namespace.
\<close>

definition sample_symbols :: "(string list, byte list) symbol_kernel" where
  "sample_symbols = kernel.extend sample_kernel
     (symbol_kernel.fields (\<lambda>s. if length s < 2 then None else Some (hd s)) last)"

end
