(* ===== verification/Conduct_Theorems.thy ===== *)
theory Conduct_Theorems
  imports Conduct_Lifecycle Kernel_Samples
begin

text \<open>
  The properties of \<open>sim-lib-agent-conduct-core\<close>. The samples instantiate the kernel by lists of
  name parts and the derived encodings by simple ones; no hash is evaluated in them.
\<close>

section \<open>Known answer\<close>

lemma sha256_abc: "digest_hex (str_bytes ''abc'') = ''ba7816bf8f01cfea414140de5dae2223b00361a396177a9cb410ff61f20015ad''"
  by code_simp

section \<open>Samples\<close>

definition sample_codec :: "string list citizen_codec" where
  "sample_codec = \<lparr>as_expr_event = (\<lambda>e. Ok (EList [ESymbol (ev_kind e), ev_redacted e])),
     as_expr_frame = (\<lambda>f. Ok (EList [ESymbol (fr_run_id f), fr_input f])),
     as_expr_usage = (\<lambda>u. Ok (usage_encode sample_symbols u))\<rparr>"

definition sample_frame :: "string list agent_run_frame" where
  "sample_frame = frame_standard sample_symbols [''run''] ENil"

definition sample_started :: "(string list memory, string list, string) durable_agent_run" where
  "sample_started = \<lparr>dr_store = bt_empty, dr_journal = journal_new ''g'' ''b'', dr_frame = sample_frame,
     dr_continuation = ENil, dr_authority = {||}, dr_exchanges = bt_empty\<rparr>"

definition sample_agent_event :: "string list agent_event" where
  "sample_agent_event = agent_event_new [''agent.event'', ''step-completed''] ENil"

abbreviation (input) sample_memory :: "(string list memory, string list) store_ops" where
  "sample_memory \<equiv> memory_store sample_symbols"

lemma sample_start: "start sample_memory bt_empty sample_frame ''g'' ''b'' {||} = Ok sample_started"
  by (simp add: start_def memory_load_def sample_started_def)

lemma sample_started_frame [simp]: "dr_frame sample_started = sample_frame"
  by (simp add: sample_started_def)

lemma sample_appends:
  "\<exists>r j. journal_append sample_symbols sample_codec (dr_journal sample_started) sample_agent_event sample_frame
     (fr_usage sample_frame) [] (EBool True) = Ok (r, j) \<and> jr_sequence r = 0"
proof -
  have "u64_of_len (length (jn_records (dr_journal sample_started))) = Some 0"
    by (simp add: u64_of_len_unat sample_started_def journal_new_def)
  then show ?thesis
    using journal_append_next [where j = "dr_journal sample_started" and C = sample_codec and K = sample_symbols]
    by (simp add: sample_codec_def)
qed

text \<open>A reachable run that has committed a step and can be suspended.\<close>

lemma sample_reachable:
  obtains run handle where "reachable_run sample_symbols sample_codec True sample_memory bt_empty run"
    "run_step sample_symbols sample_codec True sample_memory sample_started run"
    "suspend True run Checkpoint = Ok handle" "dh_run_id handle = [''run'']"
    "jn_records (dr_journal run) \<noteq> []" "jn_graph_fingerprint (dr_journal run) = ''g''"
    "length (jn_records (dr_journal run)) = 1" "fr_run_id (dr_frame run) = fr_run_id sample_frame"
proof -
  have first: "reachable_run sample_symbols sample_codec True sample_memory bt_empty sample_started"
    by (rule reachable_run.first [OF sample_start])
  have "memory_valid sample_symbols bt_empty" by (simp add: memory_valid_def bt_values_def)
  with first have step: "in_step sample_memory (memory_valid sample_symbols) sample_symbols sample_started"
    by (rule mem.reachable_in_step)
  obtain r j where app: "journal_append sample_symbols sample_codec (dr_journal sample_started) sample_agent_event sample_frame
     (fr_usage sample_frame) [] (EBool True) = Ok (r, j)" "jr_sequence r = 0"
    using sample_appends by blast
  obtain handle run where commit: "commit_step sample_symbols sample_codec True sample_memory sample_started
      sample_frame sample_agent_event [] (EBool True) = (Ok handle, run)"
    using mem.commit_step_total [OF step _ app(1), where checks = True] app(2)
    by auto
  note c = mem.commit_step_Ok [OF step commit]
  have move: "run_step sample_symbols sample_codec True sample_memory sample_started run"
    by (rule run_step.committed [OF commit])
  have "dh_run_id handle = [''run'']"
    using c(4,6) by (auto simp: run_handle_def bind_o_Ok sample_frame_def frame_standard_def)
  then show thesis
    using that [OF reachable_run.later [OF first move] move] c(2,4,6,7)
    by (auto simp: suspend_def sample_started_def journal_new_def)
qed

section \<open>Journals\<close>

text \<open>
  C27: A journal is rebuilt from a list of distinct records exactly when the list is a hash chain
  of the two fingerprints: sequences counting from zero, each record naming the hash of the one
  before, each hash the SHA-256 of its record, and then it holds exactly these records and
  verifies. Loading never panics.
\<close>
theorem journals_are_hash_chains:
  "(journal_from_records K g b rs = Ok j \<and> distinct rs \<longleftrightarrow>
     hash_chain K g b rs \<and> j = \<lparr>jn_graph_fingerprint = g, jn_binding_fingerprint = b, jn_records = rs\<rparr>
       \<and> journal_verify K j = Ok ())
   \<and> journal_from_records K g b rs \<noteq> Panic \<and> journal_from_records K g b rs \<noteq> Diverge"
proof -
  have "hash_chain K g b rs \<and> j = \<lparr>jn_graph_fingerprint = g, jn_binding_fingerprint = b, jn_records = rs\<rparr>"
    if "journal_from_records K g b rs = Ok j" "distinct rs"
    using from_records_loaded [OF that(1)] from_records_records [OF that] by (simp add: loaded_def)
  moreover have "distinct rs" if "hash_chain K g b rs" using that chain_distinct by (auto simp: hash_chain_def)
  moreover have "journal_verify K \<lparr>jn_graph_fingerprint = g, jn_binding_fingerprint = b, jn_records = rs\<rparr> = Ok ()"
    if "hash_chain K g b rs" using that by (intro journal_verify_chain) (simp add: hash_chain_def)
  ultimately have "journal_from_records K g b rs = Ok j \<and> distinct rs \<longleftrightarrow>
     hash_chain K g b rs \<and> j = \<lparr>jn_graph_fingerprint = g, jn_binding_fingerprint = b, jn_records = rs\<rparr>
       \<and> journal_verify K j = Ok ()"
    using from_records_chain [of K g b rs] by blast
  then show ?thesis by simp
qed

text \<open>
  C28: The head of a journal pins its history. Two hash chains with the same last hash have the
  same length and the same record encodings, byte for byte, when SHA-256 has no collision among
  their encodings.
\<close>
theorem head_pins_history:
  assumes "hash_chain K g b rs" "hash_chain K g' b' qs" "last_hash rs = last_hash qs"
    and "\<And>r q. r \<in> set rs \<Longrightarrow> q \<in> set qs \<Longrightarrow>
           digest_hex (record_bytes K r) = digest_hex (record_bytes K q) \<Longrightarrow> record_bytes K r = record_bytes K q"
  shows "map (record_bytes K) rs = map (record_bytes K) qs \<and> length rs = length qs"
proof -
  have "map (record_bytes K) rs = map (record_bytes K) qs"
    using assms by (intro chain_pinned) (simp_all add: hash_chain_def record_hash_def)
  then show ?thesis using map_eq_imp_length_eq by blast
qed

definition ambiguous_record :: "string list expr \<Rightarrow> string list agent_journal_record" where
  "ambiguous_record receipt =
     next_record sample_symbols (journal_new ''g'' ''b'') 0 ENil ENil ENil [receipt] ENil"

text \<open>The encoding is not injective: different receipts can have the same canonical text.\<close>

theorem head_pins_history_witness:
  "map (record_bytes sample_symbols) [ambiguous_record (EList [ESymbol [''ayb''], ESymbol [''c'']])]
     = map (record_bytes sample_symbols) [ambiguous_record (EList [ESymbol [''a''], ESymbol [''byc'']])]
   \<and> ambiguous_record (EList [ESymbol [''ayb''], ESymbol [''c'']]) \<noteq> ambiguous_record (EList [ESymbol [''a''], ESymbol [''byc'']])"
proof -
  let ?r = "ambiguous_record (EList [ESymbol [''ayb''], ESymbol [''c'']])"
  let ?q = "ambiguous_record (EList [ESymbol [''a''], ESymbol [''byc'']])"
  have bytes: "record_bytes sample_symbols ?r = record_bytes sample_symbols ?q"
    by (simp add: record_bytes_def ambiguous_record_def expr_bytes_def sample_symbols_def kernel.defs
        symbol_kernel.defs sample_kernel_def)
  have chain: "hash_chain sample_symbols ''g'' ''b'' [ambiguous_record x]" for x
    using link_next_record [of 0 "journal_new ''g'' ''b''" sample_symbols]
      hash_chain_snoc [of sample_symbols "''g''" "''b''" "[]" "ambiguous_record x"]
    by (simp add: ambiguous_record_def journal_new_def fingerprinted_def)
  have "jr_effect_receipts ?r \<noteq> jr_effect_receipts ?q" by (simp add: ambiguous_record_def)
  then have "?r \<noteq> ?q" by fastforce
  moreover have "last_hash [?r] = last_hash [?q]"
    using bytes by (simp add: last_hash_def ambiguous_record_def record_hash_def)
  ultimately show ?thesis
    using head_pins_history [OF chain chain, of "EList [ESymbol [''ayb''], ESymbol [''c'']]"
        "EList [ESymbol [''a''], ESymbol [''byc'']]"] bytes
    by auto
qed

section \<open>Durable runs\<close>

text \<open>
  C29: Whatever happens to runs on an in-memory store, the store holds exactly the journal of the
  current run, the journal is the hash chain of its fingerprints, and the run's continuation is
  the one its last record carries.
\<close>
theorem runs_stay_in_step:
  assumes "reachable_run K C checks (memory_store K) bt_empty run"
  shows "in_step (memory_store K) (memory_valid K) K run"
  using assms by (rule mem.reachable_in_step) (simp add: memory_valid_def bt_values_def)

theorem runs_stay_in_step_witness:
  "\<exists>run. jn_records (dr_journal run) \<noteq> [] \<and> in_step sample_memory (memory_valid sample_symbols) sample_symbols
     (run :: (string list memory, string list, string) durable_agent_run)"
  by (rule sample_reachable) (use runs_stay_in_step in blast)

text \<open>
  C30: A suspended run resumes: the handle of a reachable run, brought back with a frame of the
  same run, restores the journal and the continuation under the new authority, and its receipts
  replay.
\<close>
theorem suspended_run_resumes:
  assumes "reachable_run K C checks (memory_store K) bt_empty run"
    and "suspend checks run reason = Ok handle" and "fr_run_id frame = dh_run_id handle"
  shows "resume K checks (memory_store K) (dr_store run) handle (jn_graph_fingerprint (dr_journal run))
           (jn_binding_fingerprint (dr_journal run)) frame authority
         = Ok (run\<lparr>dr_frame := frame, dr_authority := authority, dr_exchanges := bt_empty\<rparr>)
       \<and> receipt_replay K (memory_store K) (dr_store run) handle (jn_graph_fingerprint (dr_journal run)) result = Ok result"
proof -
  have "in_step (memory_store K) (memory_valid K) K run"
    using assms(1) by (rule mem.reachable_in_step) (simp add: memory_valid_def bt_values_def)
  from mem.handle_resumes [OF this assms(2) [unfolded suspend_def] assms(3)]
    mem.handle_replays [OF this assms(2) [unfolded suspend_def]]
  show ?thesis by simp
qed

theorem suspended_run_resumes_witness:
  "\<exists>(run :: (string list memory, string list, string) durable_agent_run) handle.
     resume sample_symbols True sample_memory (dr_store run) handle (jn_graph_fingerprint (dr_journal run))
           (jn_binding_fingerprint (dr_journal run)) sample_frame {|''net''|}
         = Ok (run\<lparr>dr_frame := sample_frame, dr_authority := {|''net''|}, dr_exchanges := bt_empty\<rparr>)
       \<and> jn_records (dr_journal run) \<noteq> []"
proof -
  obtain run :: "(string list memory, string list, string) durable_agent_run" and handle
    where r: "reachable_run sample_symbols sample_codec True sample_memory bt_empty run"
    and h: "suspend True run Checkpoint = Ok handle" "dh_run_id handle = [''run'']" "jn_records (dr_journal run) \<noteq> []"
    by (rule sample_reachable)
  have "fr_run_id sample_frame = dh_run_id handle" using h by (simp add: sample_frame_def frame_standard_def)
  from suspended_run_resumes [OF r h(1) this] h show ?thesis by blast
qed

text \<open>
  C31: Durable history is append-only: no later operation, of this run or of another one started on
  the same store, changes or drops a record of any history.
\<close>
theorem histories_append_only:
  assumes "reachable_run K C checks (memory_store K) bt_empty run"
    and "(run_step K C checks (memory_store K))\<^sup>*\<^sup>* run run'"
    and "memory_load (dr_store run) other = Ok rs"
  shows "\<exists>rs'. memory_load (dr_store run') other = Ok rs' \<and> prefix rs rs'"
  using assms(2)
proof (induction rule: rtranclp_induct)
  case base
  then show ?case using assms(3) by auto
next
  case (step run1 run2)
  then obtain rs1 where rs1: "memory_load (dr_store run1) other = Ok rs1" "prefix rs rs1" by auto
  have "reachable_run K C checks (memory_store K) bt_empty run1"
    using step(1) assms(1) by (induction rule: rtranclp_induct) (auto intro: reachable_run.later)
  then have "in_step (memory_store K) (memory_valid K) K run1"
    by (rule mem.reachable_in_step) (simp add: memory_valid_def bt_values_def)
  with mem.run_step_prefix [OF _ _ step(2), of other rs1] rs1
  show ?case by (auto simp: in_step_def intro: prefix_order.trans)
qed

theorem histories_append_only_witness:
  "\<exists>(run :: (string list memory, string list, string) durable_agent_run) rs.
     run_step sample_symbols sample_codec True sample_memory sample_started run
     \<and> memory_load (dr_store run) [''run''] = Ok rs \<and> prefix [] rs"
proof -
  obtain run :: "(string list memory, string list, string) durable_agent_run" and handle
    where "run_step sample_symbols sample_codec True sample_memory sample_started run"
    by (rule sample_reachable)
  moreover have "reachable_run sample_symbols sample_codec True sample_memory bt_empty sample_started"
    by (rule reachable_run.first [OF sample_start])
  moreover have "memory_load (dr_store sample_started) [''run''] = Ok []"
    by (simp add: sample_started_def memory_load_def)
  ultimately show ?thesis using histories_append_only by (metis r_into_rtranclp)
qed

text \<open>
  C32: A backend that refuses a record leaves the run ahead of its store. The run's journal already
  holds the record while the store keeps the history from before, and a handle taken from the run
  as the refusal leaves it fails to resume: with \<open>EmptyJournal\<close> when the record was the first one,
  with \<open>StaleHandle\<close> otherwise. A handle taken before the refused step still resumes, to the
  journal without the record.
\<close>
theorem refused_append_strands_run:
  assumes "journal_store S valid" "in_step S valid K run" "fr_run_id frame = fr_run_id (dr_frame run)"
    and "journal_append K C (dr_journal run) event frame (fr_usage frame) receipts continuation = Ok (r, journal)"
    and "store_append S (dr_store run) (fr_run_id frame) r = (Err e, store)"
  shows "\<exists>run'. commit_step K C checks S run frame event receipts continuation = (Err e, run')
    \<and> jn_records (dr_journal run') = jn_records (dr_journal run) @ [r]
    \<and> store_load S (dr_store run') (fr_run_id frame) = Ok (jn_records (dr_journal run))
    \<and> (\<forall>handle. suspend checks run' reason = Ok handle \<longrightarrow>
         resume K checks S (dr_store run') handle (jn_graph_fingerprint (dr_journal run'))
           (jn_binding_fingerprint (dr_journal run')) frame authority
         = Err (if jn_records (dr_journal run) = [] then LEmptyJournal else LStaleHandle))
    \<and> (\<forall>handle. suspend checks run reason = Ok handle \<longrightarrow>
         resume K checks S (dr_store run') handle (jn_graph_fingerprint (dr_journal run))
           (jn_binding_fingerprint (dr_journal run)) frame authority
         = Ok (run\<lparr>dr_store := dr_store run', dr_frame := frame, dr_authority := authority, dr_exchanges := bt_empty\<rparr>))"
  using journal_store.refused_append(1-3) [OF assms] journal_store.refused_append(4) [OF assms, where authority = authority]
    journal_store.refused_append_resumes [OF assms(1-3,5), where authority = authority]
  by (intro exI [of _ "run\<lparr>dr_journal := journal, dr_store := store\<rparr>"]) (simp add: suspend_def)

definition full_store :: "(string list memory, string list) store_ops" where
  "full_store = \<lparr>store_load = memory_load, store_append = (\<lambda>st _ _. (Err (LStore ''full''), st))\<rparr>"

lemma full_store_contract: "journal_store full_store (memory_valid sample_symbols)"
  using mem.load_distinct [of sample_symbols] by unfold_locales (auto simp: full_store_def memory_store_def)

theorem refused_append_strands_run_witness:
  "\<exists>(run :: (string list memory, string list, string) durable_agent_run) run' before after.
     commit_step sample_symbols sample_codec True full_store run sample_frame sample_agent_event [] (EBool True)
       = (Err (LStore ''full''), run')
     \<and> suspend True run' Checkpoint = Ok after \<and> suspend True run Checkpoint = Ok before
     \<and> resume sample_symbols True full_store (dr_store run') after (jn_graph_fingerprint (dr_journal run'))
         (jn_binding_fingerprint (dr_journal run')) sample_frame ({||} :: string fset) = Err LStaleHandle
     \<and> resume sample_symbols True full_store (dr_store run') before (jn_graph_fingerprint (dr_journal run))
         (jn_binding_fingerprint (dr_journal run)) sample_frame ({||} :: string fset)
       = Ok (run\<lparr>dr_store := dr_store run', dr_frame := sample_frame, dr_authority := {||}, dr_exchanges := bt_empty\<rparr>)"
proof -
  obtain run :: "(string list memory, string list, string) durable_agent_run" and before
    where r: "reachable_run sample_symbols sample_codec True sample_memory bt_empty run"
    and h: "suspend True run Checkpoint = Ok before" "jn_records (dr_journal run) \<noteq> []"
      "length (jn_records (dr_journal run)) = 1" "fr_run_id (dr_frame run) = fr_run_id sample_frame"
    by (rule sample_reachable)
  have "memory_valid sample_symbols bt_empty" by (simp add: memory_valid_def bt_values_def)
  with r have "in_step sample_memory (memory_valid sample_symbols) sample_symbols run" by (rule mem.reachable_in_step)
  then have step: "in_step full_store (memory_valid sample_symbols) sample_symbols run"
    by (simp add: in_step_def full_store_def memory_store_def)
  have "u64_of_len (length (jn_records (dr_journal run))) = Some 1" by (simp add: u64_of_len_unat h(3))
  from journal_append_next [OF this, where C = sample_codec and K = sample_symbols]
  obtain q where app: "journal_append sample_symbols sample_codec (dr_journal run) sample_agent_event sample_frame
      (fr_usage sample_frame) [] (EBool True) = Ok (q, (dr_journal run)\<lparr>jn_records := jn_records (dr_journal run) @ [q]\<rparr>)"
    and q: "jr_sequence q = 1"
    by (simp add: sample_codec_def)
  from refused_append_strands_run [OF full_store_contract step _ app, of "LStore ''full''" "dr_store run" True Checkpoint "{||}"] h(4)
  obtain run' where run': "commit_step sample_symbols sample_codec True full_store run sample_frame sample_agent_event []
        (EBool True) = (Err (LStore ''full''), run')"
    "jn_records (dr_journal run') = jn_records (dr_journal run) @ [q]"
    "\<And>handle. suspend True run' Checkpoint = Ok handle \<Longrightarrow>
       resume sample_symbols True full_store (dr_store run') handle (jn_graph_fingerprint (dr_journal run'))
         (jn_binding_fingerprint (dr_journal run')) sample_frame ({||} :: string fset) = Err LStaleHandle"
    "\<And>handle. suspend True run Checkpoint = Ok handle \<Longrightarrow>
       resume sample_symbols True full_store (dr_store run') handle (jn_graph_fingerprint (dr_journal run))
         (jn_binding_fingerprint (dr_journal run)) sample_frame ({||} :: string fset)
       = Ok (run\<lparr>dr_store := dr_store run', dr_frame := sample_frame, dr_authority := {||}, dr_exchanges := bt_empty\<rparr>)"
    using h(2) by (auto simp: full_store_def)
  have "\<exists>after. suspend True run' Checkpoint = Ok after"
    using run'(2) q by (simp add: suspend_def run_handle_def last_record_def succ64_def)
  then show ?thesis using run'(1,3) run'(4) [OF h(1)] h(1) by blast
qed

section \<open>Budgets\<close>

text \<open>
  C33: Budgets only narrow and bind. The composition of two budgets admits a charge exactly when
  both do, and usage within a budget stays within it whatever is charged, on 64-bit amounts with
  no wrap-around.
\<close>
theorem budgets_narrow_and_bind:
  assumes "units_distinct (ub_limits a)" "units_distinct (ub_limits b)"
  shows "(usage_admit (narrow a b) usage charge = Ok () \<longleftrightarrow>
            usage_admit a usage charge = Ok () \<and> usage_admit b usage charge = Ok ())
     \<and> (within_budget a usage \<and> usage_charge K checks usage a charge = Ok usage' \<longrightarrow> within_budget a usage')"
  using narrow_admits [OF assms] charge_within [OF assms(1)] by blast

theorem budgets_narrow_and_bind_witness:
  "usage_admit (narrow \<lparr>ub_limits = [\<lparr>uq_unit = ''t'', uq_amount = 5\<rparr>]\<rparr> \<lparr>ub_limits = [\<lparr>uq_unit = ''t'', uq_amount = 3\<rparr>]\<rparr>)
     \<lparr>us_quantities = []\<rparr> \<lparr>uq_unit = ''t'', uq_amount = 4\<rparr> \<noteq> Ok ()
   \<and> within_budget \<lparr>ub_limits = [\<lparr>uq_unit = [''t''], uq_amount = 5\<rparr>]\<rparr> \<lparr>us_quantities = [\<lparr>uq_unit = [''t''], uq_amount = 4\<rparr>]\<rparr>"
proof -
  let ?a = "\<lparr>ub_limits = [\<lparr>uq_unit = ''t'', uq_amount = 5\<rparr>]\<rparr>" and ?b = "\<lparr>ub_limits = [\<lparr>uq_unit = ''t'', uq_amount = 3\<rparr>]\<rparr>"
  let ?c = "\<lparr>uq_unit = ''t'', uq_amount = (4 :: 64 word)\<rparr>"
  let ?l = "\<lparr>ub_limits = [\<lparr>uq_unit = [''t''], uq_amount = 5\<rparr>]\<rparr>"
  have d: "units_distinct (ub_limits ?a)" "units_distinct (ub_limits ?b)" "units_distinct (ub_limits ?l)"
    by (simp_all add: units_distinct_def)
  have "usage_admit ?b \<lparr>us_quantities = []\<rparr> ?c \<noteq> Ok ()"
    by (simp add: usage_admit_def usage_amount_def checked_add64_def)
  moreover have "within_budget ?l \<lparr>us_quantities = []\<rparr>" by (simp add: within_budget_def usage_amount_def)
  moreover have "usage_charge sample_kernel True \<lparr>us_quantities = []\<rparr> ?l \<lparr>uq_unit = [''t''], uq_amount = 4\<rparr>
      = Ok \<lparr>us_quantities = [\<lparr>uq_unit = [''t''], uq_amount = 4\<rparr>]\<rparr>"
    by (simp add: usage_charge_def usage_admit_def usage_amount_def checked_add64_def)
  ultimately show ?thesis
    using budgets_narrow_and_bind [OF d(1,2), of "\<lparr>us_quantities = []\<rparr>" ?c]
      budgets_narrow_and_bind [OF d(3,3)] by blast
qed

end
