(* ===== verification/Citizen_Fields.thy ===== *)
theory Citizen_Fields
  imports Kernel_Expr
begin

text \<open>
  The boundary to \<open>sim-citizen\<close>, which is not part of the repository: \<open>CitizenField\<close> of the
  primitive types and of \<open>Option\<close> (at the one instance \<open>'x\<close> a client uses), as a record of
  functions. What clients rely on is that decoding undoes encoding (\<open>field_codec_ok\<close>).
  \<open>collect_o\<close> is \<open>collect\<close> of an iterator of results into a vector.
\<close>

record ('s, 'x) field_codec =
  enc_symbol :: "'s \<Rightarrow> 's expr"
  dec_symbol :: "'s expr \<Rightarrow> string \<Rightarrow> (kernel_error, 's) outcome"
  enc_u64 :: "64 word \<Rightarrow> 's expr"
  dec_u64 :: "'s expr \<Rightarrow> string \<Rightarrow> (kernel_error, 64 word) outcome"
  enc_bool :: "bool \<Rightarrow> 's expr"
  dec_bool :: "'s expr \<Rightarrow> string \<Rightarrow> (kernel_error, bool) outcome"
  enc_string :: "string \<Rightarrow> 's expr"
  dec_string :: "'s expr \<Rightarrow> string \<Rightarrow> (kernel_error, string) outcome"
  enc_symbols :: "'s list \<Rightarrow> 's expr"
  dec_symbols :: "'s expr \<Rightarrow> string \<Rightarrow> (kernel_error, 's list) outcome"
  enc_exprs :: "'s expr list \<Rightarrow> 's expr"
  dec_exprs :: "'s expr \<Rightarrow> string \<Rightarrow> (kernel_error, 's expr list) outcome"
  enc_opt_symbol :: "'s option \<Rightarrow> 's expr"
  dec_opt_symbol :: "'s expr \<Rightarrow> string \<Rightarrow> (kernel_error, 's option) outcome"
  enc_opt :: "('x \<Rightarrow> 's expr) \<Rightarrow> 'x option \<Rightarrow> 's expr"
  dec_opt :: "('s expr \<Rightarrow> string \<Rightarrow> (kernel_error, 'x) outcome) \<Rightarrow> 's expr \<Rightarrow> string \<Rightarrow> (kernel_error, 'x option) outcome"

definition field_codec_ok :: "('s, 'x) field_codec \<Rightarrow> bool" where
  "field_codec_ok F \<longleftrightarrow>
     (\<forall>v f. dec_symbol F (enc_symbol F v) f = Ok v) \<and> (\<forall>v f. dec_u64 F (enc_u64 F v) f = Ok v)
     \<and> (\<forall>v f. dec_bool F (enc_bool F v) f = Ok v) \<and> (\<forall>v f. dec_string F (enc_string F v) f = Ok v)
     \<and> (\<forall>v f. dec_symbols F (enc_symbols F v) f = Ok v) \<and> (\<forall>v f. dec_exprs F (enc_exprs F v) f = Ok v)
     \<and> (\<forall>v f. dec_opt_symbol F (enc_opt_symbol F v) f = Ok v)
     \<and> (\<forall>enc dec f. (\<forall>v f. dec (enc v) f = Ok v) \<longrightarrow> (\<forall>v. dec_opt F dec (enc_opt F enc v) f = Ok v))"

definition field_error :: "string \<Rightarrow> string \<Rightarrow> (kernel_error, 'a) outcome" where
  "field_error field text = Err (EvalError (field @ text))"

fun collect_o :: "('a \<Rightarrow> ('e, 'b) outcome) \<Rightarrow> 'a list \<Rightarrow> ('e, 'b list) outcome" where
  "collect_o f [] = Ok []"
| "collect_o f (x # xs) = bind_o (f x) (\<lambda>y. bind_o (collect_o f xs) (\<lambda>ys. Ok (y # ys)))"

lemma collect_o_Ok: "collect_o f xs = Ok ys \<longleftrightarrow> list_all2 (\<lambda>x y. f x = Ok y) xs ys"
  by (induction xs arbitrary: ys) (auto simp: bind_o_Ok list_all2_Cons1)

text \<open>A call returns when it neither panics nor diverges.\<close>

definition returns :: "('e, 'a) outcome \<Rightarrow> bool" where
  "returns r \<longleftrightarrow> r \<noteq> Panic \<and> r \<noteq> Diverge"

lemma returns_simps [simp]: "returns (Ok x)" "returns (Err e)" "\<not> returns Panic" "\<not> returns Diverge"
  "returns (ok_or v e)" "returns (map_err g r) \<longleftrightarrow> returns r"
  by (simp_all add: returns_def)

lemma returns_bind [intro!]: "returns r \<Longrightarrow> (\<And>x. r = Ok x \<Longrightarrow> returns (f x)) \<Longrightarrow> returns (bind_o r f)"
  by (auto simp: returns_def bind_o_Panic bind_o_Diverge)

lemma returns_collect: "(\<And>x. x \<in> set xs \<Longrightarrow> returns (f x)) \<Longrightarrow> returns (collect_o f xs)"
  by (induction xs) auto

lemma returns_for_each: "(\<And>x. x \<in> set xs \<Longrightarrow> returns (f x)) \<Longrightarrow> returns (for_each f xs)"
  by (induction xs) auto

lemma returns_try_fold: "(\<And>s x. x \<in> set xs \<Longrightarrow> returns (f s x)) \<Longrightarrow> returns (try_fold f s xs)"
  by (induction xs arbitrary: s) auto

end
