(* ===== verification/Continuity_Model.thy ===== *)
theory Continuity_Model
  imports Citizen_Fields
begin

text \<open>
  \<open>sim-lib-continuity\<close>: \<open>model.rs\<close>, \<open>plan.rs\<close>, \<open>reduce.rs\<close>, \<open>journal.rs\<close> and \<open>codec.rs\<close>. A session
  is a journal of turns; the pure reducer decides which event may be the next turn. The text of a
  kernel error (\<open>show_error\<close>) and the field codec of the primitive types are the external crates';
  \<open>checks\<close> says whether the build checks integer overflow.
\<close>

section \<open>Data\<close>

record 's route_lease =
  rl_route :: 's
  rl_observed_at :: "64 word"
  rl_expires_at :: "64 word"
  rl_services :: "'s list"
  rl_networked :: bool

definition route_lease_default :: "('s, 'c) symbol_kernel \<Rightarrow> 's route_lease" where
  "route_lease_default K =
     \<lparr>rl_route = sym_new K ''route'', rl_observed_at = 0, rl_expires_at = 0, rl_services = [], rl_networked = False\<rparr>"

record 's continuity_event =
  ce_event_id :: 's
  ce_sequence :: "64 word"
  ce_logical_time :: "64 word"
  ce_kind :: 's
  ce_role :: 's
  ce_lease :: "'s route_lease option"
  ce_payload :: "'s expr"
  ce_disclosure :: "'s option"

definition continuity_event_default :: "('s, 'c) symbol_kernel \<Rightarrow> 's continuity_event" where
  "continuity_event_default K =
     \<lparr>ce_event_id = sym_qualified K ''event'' ''example'', ce_sequence = 0, ce_logical_time = 0,
      ce_kind = sym_new K ''observed'', ce_role = sym_new K ''root'', ce_lease = None, ce_payload = ENil,
      ce_disclosure = None\<rparr>"

record 's continuity_intent =
  ci_kind :: 's
  ci_role :: 's
  ci_route :: "'s option"
  ci_detail :: "'s expr"

definition continuity_intent_default :: "('s, 'c) symbol_kernel \<Rightarrow> 's continuity_intent" where
  "continuity_intent_default K =
     \<lparr>ci_kind = sym_new K ''record'', ci_role = sym_new K ''root'', ci_route = None, ci_detail = ENil\<rparr>"

record 's continuity_refusal =
  cr_code :: 's
  cr_detail :: "'s expr"

definition continuity_refusal_default :: "('s, 'c) symbol_kernel \<Rightarrow> 's continuity_refusal" where
  "continuity_refusal_default K = \<lparr>cr_code = sym_new K ''refused'', cr_detail = ENil\<rparr>"

record 's continuity_turn =
  ct_sequence :: "64 word"
  ct_event_id :: 's
  ct_logical_time :: "64 word"
  ct_event :: "'s continuity_event"
  ct_intents :: "'s continuity_intent list"

definition continuity_turn_default :: "('s, 'c) symbol_kernel \<Rightarrow> 's continuity_turn" where
  "continuity_turn_default K =
     (let event = continuity_event_default K in
      \<lparr>ct_sequence = 0, ct_event_id = ce_event_id event, ct_logical_time = 0, ct_event = event, ct_intents = []\<rparr>)"

datatype network_policy = Offline | AllowListed

record 's role_demand =
  rd_role :: 's
  rd_root :: bool
  rd_required_services :: "'s list"
  rd_fallbacks :: "'s list"

definition role_demand_default :: "('s, 'c) symbol_kernel \<Rightarrow> 's role_demand" where
  "role_demand_default K =
     \<lparr>rd_role = sym_new K ''role'', rd_root = False, rd_required_services = [], rd_fallbacks = []\<rparr>"

record 's continuity_plan =
  cp_schema_version :: "64 word"
  cp_plan_id :: 's
  cp_roles :: "'s role_demand list"
  cp_available_services :: "'s list"
  cp_max_freshness :: "64 word"
  cp_retention_turns :: "64 word"
  cp_disclosure :: "'s list"
  cp_network :: network_policy
  cp_allowed_network_routes :: "'s list"

definition continuity_plan_default :: "('s, 'c) symbol_kernel \<Rightarrow> 's continuity_plan" where
  "continuity_plan_default K =
     \<lparr>cp_schema_version = 1, cp_plan_id = sym_qualified K ''continuity.plan'' ''example'',
      cp_roles = [(role_demand_default K)\<lparr>rd_role := sym_new K ''root'', rd_root := True\<rparr>],
      cp_available_services = [], cp_max_freshness = 1, cp_retention_turns = 1, cp_disclosure = [],
      cp_network = Offline, cp_allowed_network_routes = []\<rparr>"

section \<open>Plan validation\<close>

definition name_set :: "('s, 'c) symbol_kernel \<Rightarrow> 's list \<Rightarrow> string fset" where
  "name_set K syms = fset_of_list (map (sym_to_string K) syms)"

definition validate_role ::
  "('s, 'c) symbol_kernel \<Rightarrow> string fset \<Rightarrow> string fset \<Rightarrow> 's role_demand \<Rightarrow> (kernel_error, unit) outcome" where
  "validate_role K names services role =
     (let fallbacks = name_set K (rd_fallbacks role) in
      if fcard fallbacks \<noteq> length (rd_fallbacks role) \<or> sym_to_string K (rd_role role) |\<in>| fallbacks
      then Err (EvalError ''fallbacks must be unique and cannot name their own role'')
      else if list_ex (\<lambda>s. sym_to_string K s |\<notin>| services) (rd_required_services role)
      then Err (EvalError ''required-service closure is incomplete'')
      else if list_ex (\<lambda>f. sym_to_string K f |\<notin>| names) (rd_fallbacks role)
      then Err (EvalError ''fallback closure is incomplete'')
      else Ok ())"

definition plan_validate :: "('s, 'c) symbol_kernel \<Rightarrow> 's continuity_plan \<Rightarrow> (kernel_error, unit) outcome" where
  "plan_validate K plan =
     (if cp_schema_version plan \<noteq> 1 then Err (EvalError ''unsupported continuity plan version'')
      else if cp_max_freshness plan = 0 \<or> cp_retention_turns plan = 0
      then Err (EvalError ''freshness and retention bounds must be positive'')
      else if length (filter rd_root (cp_roles plan)) \<noteq> 1
      then Err (EvalError ''continuity plan requires exactly one root'')
      else let names = name_set K (map rd_role (cp_roles plan)) in
      if fcard names \<noteq> length (cp_roles plan) then Err (EvalError ''continuity roles must be unique'')
      else let services = name_set K (cp_available_services plan) in
      if fcard services \<noteq> length (cp_available_services plan)
      then Err (EvalError ''available services must be unique'')
      else if fcard (name_set K (cp_disclosure plan)) \<noteq> length (cp_disclosure plan)
      then Err (EvalError ''disclosure labels must be unique'')
      else let network_routes = name_set K (cp_allowed_network_routes plan) in
      if fcard network_routes \<noteq> length (cp_allowed_network_routes plan)
         \<or> (cp_network plan = Offline \<and> network_routes \<noteq> {||})
         \<or> (cp_network plan = AllowListed \<and> network_routes = {||})
      then Err (EvalError ''network route allow-list does not match network policy'')
      else for_each (validate_role K names services) (cp_roles plan))"

section \<open>The reducer\<close>

record 's continuity_state =
  cs_turns :: "'s continuity_turn list"
  cs_cancelled :: bool
  cs_next_sequence :: "64 word"
  cs_seen :: "string fset"

definition continuity_state_default :: "'s continuity_state" where
  "continuity_state_default = \<lparr>cs_turns = [], cs_cancelled = False, cs_next_sequence = 0, cs_seen = {||}\<rparr>"

definition mk_refusal :: "('s, 'c) symbol_kernel \<Rightarrow> string \<Rightarrow> string \<Rightarrow> 's continuity_refusal" where
  "mk_refusal K code detail = \<lparr>cr_code = sym_new K code, cr_detail = EString detail\<rparr>"

definition mk_intent :: "('s, 'c) symbol_kernel \<Rightarrow> string \<Rightarrow> 's \<Rightarrow> 's option \<Rightarrow> 's continuity_intent" where
  "mk_intent K kind role route = \<lparr>ci_kind = sym_new K kind, ci_role = role, ci_route = route, ci_detail = ENil\<rparr>"

text \<open>The match on the kind of an event: the intents it emits.\<close>

definition event_intents ::
  "('s, 'c) symbol_kernel \<Rightarrow> 's continuity_plan \<Rightarrow> 's role_demand \<Rightarrow> 's continuity_event
     \<Rightarrow> ('s continuity_refusal, 's continuity_intent list) outcome" where
  "event_intents K plan role event =
     (if sym_to_string K (ce_kind event) = ''cancel'' then Ok [mk_intent K ''cancelled'' (ce_role event) None]
      else if sym_to_string K (ce_kind event) = ''candidate''
      then bind_o (ok_or (ce_lease event) (mk_refusal K ''missing-lease'' ''candidate requires route lease'')) (\<lambda>lease.
        if rl_expires_at lease < rl_observed_at lease \<or> rl_expires_at lease < ce_logical_time event
           \<or> ce_logical_time event < rl_observed_at lease
           \<or> cp_max_freshness plan < ce_logical_time event - rl_observed_at lease
        then Err (mk_refusal K ''stale-route'' ''route lease is outside freshness bound'')
        else if rl_networked lease
                \<and> (cp_network plan = Offline \<or> rl_route lease \<notin> set (cp_allowed_network_routes plan))
        then Err (mk_refusal K ''network-policy'' ''network route is forbidden'')
        else if list_ex (\<lambda>s. s \<notin> set (rl_services lease)) (rd_required_services role)
        then Err (mk_refusal K ''service-closure'' ''candidate lacks a required service'')
        else Ok [mk_intent K ''consider-route'' (ce_role event) (Some (rl_route lease))])
      else Ok [mk_intent K ''record'' (ce_role event) None])"

definition continuity_apply ::
  "('s, 'c) symbol_kernel \<Rightarrow> (kernel_error \<Rightarrow> string) \<Rightarrow> bool \<Rightarrow> 's continuity_plan \<Rightarrow> 's continuity_state
     \<Rightarrow> 's continuity_event \<Rightarrow> ('s continuity_refusal, 's continuity_state) outcome" where
  "continuity_apply K show_error checks plan state event =
     bind_o (map_err (\<lambda>e. mk_refusal K ''invalid-plan'' (show_error e)) (plan_validate K plan)) (\<lambda>_.
     if sym_to_string K (ce_event_id event) |\<in>| cs_seen state then Ok state
     else let next = cs_next_sequence state in
     if ce_sequence event \<noteq> next
     then Err (mk_refusal K (if ce_sequence event < next then ''stale-event'' else ''reordered-event'')
                 ''event sequence is not next'')
     else if cs_cancelled state then Err (mk_refusal K ''post-cancel-event'' ''session is cancelled'')
     else bind_o (ok_or (find (\<lambda>r. rd_role r = ce_role event) (cp_roles plan))
                    (mk_refusal K ''unknown-role'' ''role is not in plan'')) (\<lambda>role.
     if (case ce_disclosure event of None \<Rightarrow> False | Some label \<Rightarrow> label \<notin> set (cp_disclosure plan))
     then Err (mk_refusal K ''disclosure-policy'' ''payload disclosure is forbidden'')
     else bind_o (event_intents K plan role event) (\<lambda>intents.
     let turn = \<lparr>ct_sequence = ce_sequence event, ct_event_id = ce_event_id event,
                 ct_logical_time = ce_logical_time event, ct_event = event, ct_intents = intents\<rparr>;
         retain = unat (cp_retention_turns plan);
         turns = cs_turns state @ [turn] in
     if checks \<and> next = - 1 then Panic
     else Ok \<lparr>cs_turns = (if retain < length turns then drop (length turns - retain) turns else turns),
              cs_cancelled = (sym_to_string K (ce_kind event) = ''cancel''),
              cs_next_sequence = next + 1,
              cs_seen = finsert (sym_to_string K (ce_event_id event)) (cs_seen state)\<rparr>)))"

definition last_turn :: "'s continuity_turn list \<Rightarrow> 's continuity_turn option" where
  "last_turn turns = (if turns = [] then None else Some (last turns))"

definition rebuild_step ::
  "('s, 'c) symbol_kernel \<Rightarrow> (kernel_error \<Rightarrow> string) \<Rightarrow> bool \<Rightarrow> 's continuity_plan \<Rightarrow> 's continuity_state
     \<Rightarrow> 's continuity_turn \<Rightarrow> ('s continuity_refusal, 's continuity_state) outcome" where
  "rebuild_step K show_error checks plan state turn =
     bind_o (continuity_apply K show_error checks plan state (ct_event turn)) (\<lambda>next.
     if last_turn (cs_turns next) \<noteq> Some turn
     then Err (mk_refusal K ''journal-mismatch'' ''stored turn differs from pure reduction'')
     else Ok next)"

definition rebuild ::
  "('s, 'c) symbol_kernel \<Rightarrow> (kernel_error \<Rightarrow> string) \<Rightarrow> bool \<Rightarrow> 's continuity_plan \<Rightarrow> 's continuity_turn list
     \<Rightarrow> ('s continuity_refusal, 's continuity_state) outcome" where
  "rebuild K show_error checks plan turns = try_fold (rebuild_step K show_error checks plan) continuity_state_default turns"

section \<open>The journal\<close>

record 's journal_row =
  row_expected_len :: "64 word"
  row_turn :: "'s continuity_turn"

datatype 's continuity_journal_error = FenceConflict | Refused "'s continuity_refusal" | StateMismatch

text \<open>\<open>MemoryJournal\<close> is its rows; \<open>append_fenced\<close> returns the new rows with its result.\<close>

definition append_fenced ::
  "'s continuity_turn list \<Rightarrow> 's journal_row \<Rightarrow> ('s continuity_journal_error, unit) outcome \<times> 's continuity_turn list" where
  "append_fenced rows row =
     (if of_nat (length rows) \<noteq> row_expected_len row then (Err FenceConflict, rows)
      else (Ok (), rows @ [row_turn row]))"

definition journal_accept ::
  "('s, 'c) symbol_kernel \<Rightarrow> (kernel_error \<Rightarrow> string) \<Rightarrow> bool \<Rightarrow> 's continuity_turn list \<Rightarrow> 's continuity_plan
     \<Rightarrow> 's continuity_state \<Rightarrow> 's continuity_event
     \<Rightarrow> ('s continuity_journal_error, 's continuity_state) outcome \<times> 's continuity_turn list" where
  "journal_accept K show_error checks rows plan state event =
     (case bind_o (map_err Refused (rebuild K show_error checks plan rows)) (\<lambda>rebuilt.
        if rebuilt \<noteq> state then Err StateMismatch
        else map_err Refused (continuity_apply K show_error checks plan state event)) of
        Ok next \<Rightarrow>
          if next = state then (Ok next, rows)
          else (case last_turn (cs_turns next) of
                  None \<Rightarrow> (Panic, rows)
                | Some turn \<Rightarrow>
                    (case append_fenced rows \<lparr>row_expected_len = of_nat (length rows), row_turn = turn\<rparr> of
                       (result, rows') \<Rightarrow> (bind_o result (\<lambda>_. Ok next), rows')))
      | Err e \<Rightarrow> (Err e, rows)
      | Panic \<Rightarrow> (Panic, rows)
      | Diverge \<Rightarrow> (Diverge, rows))"

section \<open>Field codecs\<close>

definition route_lease_encode :: "('s, 'x) field_codec \<Rightarrow> 's route_lease \<Rightarrow> 's expr" where
  "route_lease_encode F l =
     EList [enc_symbol F (rl_route l), enc_u64 F (rl_observed_at l), enc_u64 F (rl_expires_at l),
            enc_symbols F (rl_services l), enc_bool F (rl_networked l)]"

definition route_lease_decode :: "('s, 'x) field_codec \<Rightarrow> 's expr \<Rightarrow> string \<Rightarrow> (kernel_error, 's route_lease) outcome" where
  "route_lease_decode F e field =
     (case e of
        EList v \<Rightarrow>
          (case v of
             [route, observed, expires, services, networked] \<Rightarrow>
               bind_o (dec_symbol F route field) (\<lambda>route.
               bind_o (dec_u64 F observed field) (\<lambda>observed.
               bind_o (dec_u64 F expires field) (\<lambda>expires.
               bind_o (dec_symbols F services field) (\<lambda>services.
               bind_o (dec_bool F networked field) (\<lambda>networked.
               Ok \<lparr>rl_route = route, rl_observed_at = observed, rl_expires_at = expires, rl_services = services,
                   rl_networked = networked\<rparr>)))))
           | _ \<Rightarrow> field_error field '' route lease has wrong arity'')
      | _ \<Rightarrow> field_error field '' must be a route lease'')"

definition continuity_event_encode :: "('s, 's route_lease) field_codec \<Rightarrow> 's continuity_event \<Rightarrow> 's expr" where
  "continuity_event_encode F v =
     EList [enc_symbol F (ce_event_id v), enc_u64 F (ce_sequence v), enc_u64 F (ce_logical_time v),
            enc_symbol F (ce_kind v), enc_symbol F (ce_role v), enc_opt F (route_lease_encode F) (ce_lease v),
            ce_payload v, enc_opt_symbol F (ce_disclosure v)]"

definition continuity_event_decode ::
  "('s, 's route_lease) field_codec \<Rightarrow> 's expr \<Rightarrow> string \<Rightarrow> (kernel_error, 's continuity_event) outcome" where
  "continuity_event_decode F e field =
     (case e of
        EList v \<Rightarrow>
          (case v of
             [i, sequence, time, kind, role, lease, payload, disclosure] \<Rightarrow>
               bind_o (dec_symbol F i field) (\<lambda>i.
               bind_o (dec_u64 F sequence field) (\<lambda>sequence.
               bind_o (dec_u64 F time field) (\<lambda>time.
               bind_o (dec_symbol F kind field) (\<lambda>kind.
               bind_o (dec_symbol F role field) (\<lambda>role.
               bind_o (dec_opt F (route_lease_decode F) lease field) (\<lambda>lease.
               bind_o (dec_opt_symbol F disclosure field) (\<lambda>disclosure.
               Ok \<lparr>ce_event_id = i, ce_sequence = sequence, ce_logical_time = time, ce_kind = kind, ce_role = role,
                   ce_lease = lease, ce_payload = payload, ce_disclosure = disclosure\<rparr>)))))))
           | _ \<Rightarrow> field_error field '' event has wrong arity'')
      | _ \<Rightarrow> field_error field '' must be an event'')"

definition continuity_intent_encode :: "('s, 'x) field_codec \<Rightarrow> 's continuity_intent \<Rightarrow> 's expr" where
  "continuity_intent_encode F v =
     EList [enc_symbol F (ci_kind v), enc_symbol F (ci_role v), enc_opt_symbol F (ci_route v), ci_detail v]"

definition continuity_intent_decode ::
  "('s, 'x) field_codec \<Rightarrow> 's expr \<Rightarrow> string \<Rightarrow> (kernel_error, 's continuity_intent) outcome" where
  "continuity_intent_decode F e field =
     (case e of
        EList v \<Rightarrow>
          (case v of
             [kind, role, route, detail] \<Rightarrow>
               bind_o (dec_symbol F kind field) (\<lambda>kind.
               bind_o (dec_symbol F role field) (\<lambda>role.
               bind_o (dec_opt_symbol F route field) (\<lambda>route.
               Ok \<lparr>ci_kind = kind, ci_role = role, ci_route = route, ci_detail = detail\<rparr>)))
           | _ \<Rightarrow> field_error field '' intent has wrong arity'')
      | _ \<Rightarrow> field_error field '' must be an intent'')"

definition network_policy_encode :: "('s, 'c) symbol_kernel \<Rightarrow> network_policy \<Rightarrow> 's expr" where
  "network_policy_encode K p =
     ESymbol (sym_new K (case p of Offline \<Rightarrow> ''offline'' | AllowListed \<Rightarrow> ''allow-listed''))"

definition network_policy_decode ::
  "('s, 'c) symbol_kernel \<Rightarrow> 's expr \<Rightarrow> string \<Rightarrow> (kernel_error, network_policy) outcome" where
  "network_policy_decode K e field =
     (case e of
        ESymbol v \<Rightarrow>
          if sym_to_string K v = ''offline'' then Ok Offline
          else if sym_to_string K v = ''allow-listed'' then Ok AllowListed
          else field_error field '' must be offline or allow-listed''
      | _ \<Rightarrow> field_error field '' must be offline or allow-listed'')"

definition role_demand_encode :: "('s, 'x) field_codec \<Rightarrow> 's role_demand \<Rightarrow> 's expr" where
  "role_demand_encode F v =
     EList [enc_symbol F (rd_role v), enc_bool F (rd_root v), enc_symbols F (rd_required_services v),
            enc_symbols F (rd_fallbacks v)]"

definition role_demand_decode :: "('s, 'x) field_codec \<Rightarrow> 's expr \<Rightarrow> string \<Rightarrow> (kernel_error, 's role_demand) outcome" where
  "role_demand_decode F e field =
     (case e of
        EList v \<Rightarrow>
          (case v of
             [role, root, needed, fallbacks] \<Rightarrow>
               bind_o (dec_symbol F role field) (\<lambda>role.
               bind_o (dec_bool F root field) (\<lambda>root.
               bind_o (dec_symbols F needed field) (\<lambda>needed.
               bind_o (dec_symbols F fallbacks field) (\<lambda>fallbacks.
               Ok \<lparr>rd_role = role, rd_root = root, rd_required_services = needed, rd_fallbacks = fallbacks\<rparr>))))
           | _ \<Rightarrow> field_error field '' role demand has wrong arity'')
      | _ \<Rightarrow> field_error field '' must be a role demand'')"

section \<open>Schema versions\<close>

datatype migration_error = UnsupportedVersion "64 word"

definition migrate :: "64 word \<Rightarrow> 's expr \<Rightarrow> (migration_error, 's expr) outcome" where
  "migrate version value = (if version = 1 then Ok value else Err (UnsupportedVersion version))"

end
