(* ===== verification/Continuity_Facts.thy ===== *)
theory Continuity_Facts
  imports Continuity_Model
begin

text \<open>
  Facts about \<open>sim-lib-continuity\<close>. \<open>history\<close> says which journals the reducer produces and
  \<open>state_of\<close> which cache belongs to one; the reducer, the rebuild and the journal are related to
  these two. \<open>fenced_journal\<close> is the contract of \<open>ContinuityJournal\<close>.
\<close>

section \<open>Histories\<close>

definition disclosed :: "'s continuity_plan \<Rightarrow> 's continuity_event \<Rightarrow> bool" where
  "disclosed plan event = (case ce_disclosure event of None \<Rightarrow> True | Some label \<Rightarrow> label \<in> set (cp_disclosure plan))"

definition legal_turn :: "('s, 'c) symbol_kernel \<Rightarrow> 's continuity_plan \<Rightarrow> 's continuity_turn \<Rightarrow> bool" where
  "legal_turn K plan t \<longleftrightarrow>
     (let event = ct_event t in
      disclosed plan event
      \<and> (case find (\<lambda>r. rd_role r = ce_role event) (cp_roles plan) of
           None \<Rightarrow> False | Some role \<Rightarrow> event_intents K plan role event = Ok (ct_intents t))
      \<and> ct_sequence t = ce_sequence event \<and> ct_event_id t = ce_event_id event
      \<and> ct_logical_time t = ce_logical_time event)"

definition is_cancel :: "('s, 'c) symbol_kernel \<Rightarrow> 's continuity_turn \<Rightarrow> bool" where
  "is_cancel K t \<longleftrightarrow> sym_to_string K (ce_kind (ct_event t)) = ''cancel''"

definition turn_name :: "('s, 'c) symbol_kernel \<Rightarrow> 's continuity_turn \<Rightarrow> string" where
  "turn_name K t = sym_to_string K (ct_event_id t)"

definition history :: "('s, 'c) symbol_kernel \<Rightarrow> 's continuity_plan \<Rightarrow> 's continuity_turn list \<Rightarrow> bool" where
  "history K plan rows \<longleftrightarrow>
     list_all (legal_turn K plan) rows \<and> map (\<lambda>t. unat (ct_sequence t)) rows = [0..<length rows]
     \<and> distinct (map (turn_name K) rows) \<and> list_all (\<lambda>t. \<not> is_cancel K t) (butlast rows)"

definition state_of :: "('s, 'c) symbol_kernel \<Rightarrow> 's continuity_plan \<Rightarrow> 's continuity_turn list \<Rightarrow> 's continuity_state" where
  "state_of K plan rows =
     \<lparr>cs_turns = drop (length rows - unat (cp_retention_turns plan)) rows,
      cs_cancelled = (rows \<noteq> [] \<and> is_cancel K (last rows)),
      cs_next_sequence = of_nat (length rows),
      cs_seen = fset_of_list (map (turn_name K) rows)\<rparr>"

lemma history_Nil [simp]: "history K plan []"
  by (simp add: history_def)

lemma history_snoc:
  "history K plan (rows @ [t]) \<longleftrightarrow>
     history K plan rows \<and> legal_turn K plan t \<and> unat (ct_sequence t) = length rows
     \<and> turn_name K t \<notin> turn_name K ` set rows \<and> \<not> (rows \<noteq> [] \<and> is_cancel K (last rows))"
  by (cases rows rule: rev_cases) (auto simp: history_def butlast_append)

lemma state_of_Nil: "state_of K plan [] = continuity_state_default"
  by (simp add: state_of_def continuity_state_default_def)

text \<open>Retaining the last turns step by step retains the last turns of the history.\<close>

lemma retain_step:
  "0 < n \<Longrightarrow>
     (if n < length (drop (length rows - n) rows @ [t])
      then drop (length (drop (length rows - n) rows @ [t]) - n) (drop (length rows - n) rows @ [t])
      else drop (length rows - n) rows @ [t])
     = drop (length (rows @ [t]) - n) (rows @ [t])"
  by (cases "n \<le> length rows") (auto simp: Suc_diff_le)

lemma last_turn_retained:
  "0 < n \<Longrightarrow> last_turn (drop (length rows - n) rows) = last_turn rows"
  by (cases rows) (auto simp: last_turn_def last_drop)

lemma plan_validate_bounds:
  "plan_validate K plan = Ok () \<Longrightarrow> 0 < unat (cp_retention_turns plan) \<and> cp_schema_version plan = 1 \<and> cp_max_freshness plan \<noteq> 0"
  by (auto simp: plan_validate_def Let_def unat_gt_0 split: if_splits)

section \<open>The reducer on histories\<close>

lemma sequence_is_next:
  assumes "n < 2 ^ 64" shows "w = of_nat n \<longleftrightarrow> unat (w :: 64 word) = n"
  using assms by (auto simp: of_nat_inverse)

lemma not_last_sequence:
  assumes "Suc n < 2 ^ 64" shows "of_nat n \<noteq> (- 1 :: 64 word)"
proof
  assume "of_nat n = (- 1 :: 64 word)"
  then have "unat (of_nat n :: 64 word) = 2 ^ 64 - 1" by (simp add: unsigned_minus_1_eq_mask mask_eq_exp_minus_1)
  moreover have "unat (of_nat n :: 64 word) = n" using assms by (intro of_nat_inverse [OF refl]) simp
  ultimately show False using assms by simp
qed

text \<open>An event seen before changes nothing.\<close>

lemma apply_seen:
  "plan_validate K plan = Ok () \<Longrightarrow> sym_to_string K (ce_event_id event) |\<in>| cs_seen state \<Longrightarrow>
     continuity_apply K show_error checks plan state event = Ok state"
  by (simp add: continuity_apply_def)

lemma state_of_seen: "sym_to_string K i |\<in>| cs_seen (state_of K plan rows) \<longleftrightarrow> sym_to_string K i \<in> turn_name K ` set rows"
  by (auto simp: state_of_def fset_of_list_elem)

text \<open>The turn a new event becomes, if it may become one.\<close>

definition turn_of :: "'s continuity_event \<Rightarrow> 's continuity_intent list \<Rightarrow> 's continuity_turn" where
  "turn_of event intents = \<lparr>ct_sequence = ce_sequence event, ct_event_id = ce_event_id event,
     ct_logical_time = ce_logical_time event, ct_event = event, ct_intents = intents\<rparr>"

lemma turn_of_simps [simp]:
  "ct_event (turn_of event intents) = event" "ct_sequence (turn_of event intents) = ce_sequence event"
  "turn_name K (turn_of event intents) = sym_to_string K (ce_event_id event)"
  by (simp_all add: turn_of_def turn_name_def)

lemma legal_turn_iff:
  "ct_event t = event \<and> legal_turn K plan t \<longleftrightarrow>
     (\<exists>role intents. find (\<lambda>r. rd_role r = ce_role event) (cp_roles plan) = Some role \<and> disclosed plan event
        \<and> event_intents K plan role event = Ok intents \<and> t = turn_of event intents)"
  by (cases t) (auto simp: legal_turn_def turn_of_def Let_def split: option.splits)

lemma state_of_snoc:
  assumes "0 < unat (cp_retention_turns plan)"
  shows "\<lparr>cs_turns = (if unat (cp_retention_turns plan) < length (cs_turns (state_of K plan rows) @ [turn_of event intents])
             then drop (length (cs_turns (state_of K plan rows) @ [turn_of event intents]) - unat (cp_retention_turns plan))
                    (cs_turns (state_of K plan rows) @ [turn_of event intents])
             else cs_turns (state_of K plan rows) @ [turn_of event intents]),
        cs_cancelled = (sym_to_string K (ce_kind event) = ''cancel''), cs_next_sequence = of_nat (length rows) + 1,
        cs_seen = finsert (sym_to_string K (ce_event_id event)) (cs_seen (state_of K plan rows))\<rparr>
     = state_of K plan (rows @ [turn_of event intents])"
proof -
  have turns: "cs_turns (state_of K plan rows) = drop (length rows - unat (cp_retention_turns plan)) rows"
    by (simp add: state_of_def)
  show ?thesis
    unfolding turns retain_step [OF assms] by (simp add: state_of_def is_cancel_def)
qed

lemma state_of_simps:
  "cs_next_sequence (state_of K plan rows) = of_nat (length rows)"
  "cs_cancelled (state_of K plan rows) \<longleftrightarrow> rows \<noteq> [] \<and> is_cancel K (last rows)"
  by (simp_all add: state_of_def)

lemma apply_unseen:
  assumes valid: "plan_validate K plan = Ok ()" and len: "Suc (length rows) < 2 ^ 64"
    and new: "sym_to_string K (ce_event_id event) \<notin> turn_name K ` set rows"
  shows "continuity_apply K show_error checks plan (state_of K plan rows) event = Ok s \<longleftrightarrow>
      unat (ce_sequence event) = length rows \<and> \<not> cs_cancelled (state_of K plan rows) \<and>
      (\<exists>role intents. find (\<lambda>r. rd_role r = ce_role event) (cp_roles plan) = Some role \<and> disclosed plan event
         \<and> event_intents K plan role event = Ok intents \<and> s = state_of K plan (rows @ [turn_of event intents]))"
proof -
  have n: "0 < unat (cp_retention_turns plan)" using plan_validate_bounds [OF valid] by simp
  have seq: "ce_sequence event = of_nat (length rows) \<longleftrightarrow> unat (ce_sequence event) = length rows"
    using len by (intro sequence_is_next) simp
  show ?thesis
    unfolding continuity_apply_def valid Let_def state_of_simps(1) turn_of_def [symmetric] state_of_snoc [OF n]
    using new not_last_sequence [OF len]
    by (auto simp: state_of_seen seq bind_o_Ok disclosed_def split: option.splits)
qed

lemma apply_new:
  assumes valid: "plan_validate K plan = Ok ()" and h: "history K plan rows" and len: "Suc (length rows) < 2 ^ 64"
    and new: "sym_to_string K (ce_event_id event) \<notin> turn_name K ` set rows"
  shows "continuity_apply K show_error checks plan (state_of K plan rows) event = Ok s \<longleftrightarrow>
    (\<exists>t. ct_event t = event \<and> history K plan (rows @ [t]) \<and> s = state_of K plan (rows @ [t]))"
    (is "?L \<longleftrightarrow> ?R")
proof
  assume ?L
  then obtain role intents where seq: "unat (ce_sequence event) = length rows" "\<not> cs_cancelled (state_of K plan rows)"
    and t: "find (\<lambda>r. rd_role r = ce_role event) (cp_roles plan) = Some role" "disclosed plan event"
      "event_intents K plan role event = Ok intents" "s = state_of K plan (rows @ [turn_of event intents])"
    by (auto simp: apply_unseen [OF valid len new])
  then have "legal_turn K plan (turn_of event intents)" using legal_turn_iff [of "turn_of event intents"] by blast
  then have "history K plan (rows @ [turn_of event intents])"
    using h new seq by (simp add: history_snoc state_of_simps)
  then show ?R using t(4) by (intro exI [of _ "turn_of event intents"]) simp
next
  assume ?R
  then obtain t where t: "ct_event t = event" "history K plan (rows @ [t])" "s = state_of K plan (rows @ [t])" by auto
  then have "ct_event t = event \<and> legal_turn K plan t" by (simp add: history_snoc)
  then obtain role intents where "find (\<lambda>r. rd_role r = ce_role event) (cp_roles plan) = Some role" "disclosed plan event"
      "event_intents K plan role event = Ok intents" "t = turn_of event intents"
    unfolding legal_turn_iff by blast
  then show ?L using t by (auto simp: apply_unseen [OF valid len new] history_snoc state_of_simps)
qed

lemma apply_no_Panic:
  assumes "Suc (length rows) < 2 ^ 64"
  shows "continuity_apply K show_error checks plan (state_of K plan rows) event \<noteq> Panic"
    "continuity_apply K show_error checks plan (state_of K plan rows) event \<noteq> Diverge"
proof -
  have total: "event_intents K plan role event \<noteq> Panic" "event_intents K plan role event \<noteq> Diverge" for role
    by (auto simp: event_intents_def bind_o_Panic bind_o_Diverge)
  have roles: "for_each (validate_role K names services) rs \<noteq> Panic" "for_each (validate_role K names services) rs \<noteq> Diverge"
    for names services rs
    by (rule for_each_no_Panic for_each_no_Diverge; simp add: validate_role_def Let_def)+
  have valid: "plan_validate K plan \<noteq> Panic" "plan_validate K plan \<noteq> Diverge"
    by (simp_all add: plan_validate_def Let_def roles)
  show "continuity_apply K show_error checks plan (state_of K plan rows) event \<noteq> Panic"
    "continuity_apply K show_error checks plan (state_of K plan rows) event \<noteq> Diverge"
    using total valid not_last_sequence [OF assms]
    by (auto simp: continuity_apply_def Let_def bind_o_Panic bind_o_Diverge state_of_simps split: if_splits)
qed

section \<open>Rebuilding\<close>

lemma remdups_adj_snoc:
  "remdups_adj (xs @ [x]) = (if xs \<noteq> [] \<and> last xs = x then remdups_adj xs else remdups_adj xs @ [x])"
  by (induction xs rule: remdups_adj.induct) auto

lemma last_remdups_adj: "xs \<noteq> [] \<Longrightarrow> last (remdups_adj xs) = last xs"
  by (induction xs rule: remdups_adj.induct) auto

lemma last_turn_state_of:
  "plan_validate K plan = Ok () \<Longrightarrow> last_turn (cs_turns (state_of K plan rows)) = last_turn rows"
  by (frule plan_validate_bounds) (simp add: state_of_def last_turn_retained)

lemma rebuild_step_history:
  assumes valid: "plan_validate K plan = Ok ()" and h: "history K plan rows" and len: "Suc (length rows) < 2 ^ 64"
  shows "rebuild_step K show_error checks plan (state_of K plan rows) t = Ok s \<longleftrightarrow>
    (rows \<noteq> [] \<and> t = last rows \<and> s = state_of K plan rows)
    \<or> (history K plan (rows @ [t]) \<and> s = state_of K plan (rows @ [t]))"
proof (cases "sym_to_string K (ce_event_id (ct_event t)) \<in> turn_name K ` set rows")
  case True
  then have apply_: "continuity_apply K show_error checks plan (state_of K plan rows) (ct_event t) = Ok (state_of K plan rows)"
    by (intro apply_seen [OF valid]) (simp add: state_of_seen)
  have "\<not> history K plan (rows @ [t])"
    using True by (auto simp: history_snoc legal_turn_def turn_name_def Let_def)
  then show ?thesis
    using apply_ last_turn_state_of [OF valid, of rows] by (auto simp: rebuild_step_def last_turn_def)
next
  case False
  have "ct_event_id (last rows) = ce_event_id (ct_event (last rows))" if "rows \<noteq> []"
    using h that by (cases rows rule: rev_cases) (auto simp: history_snoc legal_turn_def Let_def)
  then have "t \<noteq> last rows" if "rows \<noteq> []"
    using that False by (metis imageI last_in_set turn_name_def)
  moreover have "rebuild_step K show_error checks plan (state_of K plan rows) t = Ok s \<longleftrightarrow>
      (\<exists>q. ct_event q = ct_event t \<and> history K plan (rows @ [q]) \<and> s = state_of K plan (rows @ [q])
         \<and> last_turn (cs_turns s) = Some t)"
    by (auto simp: rebuild_step_def bind_o_Ok apply_new [OF valid h len False] split: if_splits)
  moreover have "last_turn (cs_turns (state_of K plan (rows @ [q]))) = Some q" for q
    by (simp add: last_turn_state_of [OF valid]) (simp add: last_turn_def)
  ultimately show ?thesis by (metis option.inject)
qed

lemma rebuild_history:
  assumes valid: "plan_validate K plan = Ok ()" and len: "length rows < 2 ^ 64"
  shows "rebuild K show_error checks plan rows = Ok s \<longleftrightarrow>
    history K plan (remdups_adj rows) \<and> s = state_of K plan (remdups_adj rows)"
  using len
proof (induction rows arbitrary: s rule: rev_induct)
  case Nil
  then show ?case by (auto simp: rebuild_def state_of_Nil)
next
  case (snoc t rows)
  let ?R = "remdups_adj rows"
  have len: "Suc (length ?R) < 2 ^ 64" using snoc.prems remdups_adj_length [of rows]
    by (metis Suc_le_mono length_append_singleton order_le_less_trans)
  have IH: "rebuild K show_error checks plan rows = Ok u \<longleftrightarrow> history K plan ?R \<and> u = state_of K plan ?R" for u
    using snoc by simp
  have last: "?R \<noteq> [] \<and> t = last ?R \<longleftrightarrow> rows \<noteq> [] \<and> last rows = t"
    using last_remdups_adj [of rows] by auto
  have split: "rebuild K show_error checks plan (rows @ [t]) = Ok s \<longleftrightarrow>
      history K plan ?R \<and> rebuild_step K show_error checks plan (state_of K plan ?R) t = Ok s"
    using IH by (auto simp: rebuild_def try_fold_append bind_o_Ok)
  show ?case
  proof (cases "rows \<noteq> [] \<and> last rows = t")
    case True
    with last have "?R \<noteq> []" "t = last ?R" by auto
    then have "\<not> history K plan (?R @ [t])" by (auto simp: history_snoc)
    then have "rebuild_step K show_error checks plan (state_of K plan ?R) t = Ok s \<longleftrightarrow> s = state_of K plan ?R"
      if "history K plan ?R" using \<open>?R \<noteq> []\<close> \<open>t = last ?R\<close> rebuild_step_history [OF valid that len] by simp
    then show ?thesis using True unfolding split remdups_adj_snoc by auto
  next
    case False
    with last have "\<not> (?R \<noteq> [] \<and> t = last ?R)" by auto
    then have "rebuild_step K show_error checks plan (state_of K plan ?R) t = Ok s \<longleftrightarrow>
        history K plan (?R @ [t]) \<and> s = state_of K plan (?R @ [t])"
      if "history K plan ?R" using rebuild_step_history [OF valid that len] by blast
    moreover have "history K plan ?R" if "history K plan (?R @ [t])" using that by (simp add: history_snoc)
    ultimately show ?thesis using False unfolding split remdups_adj_snoc by auto
  qed
qed

lemma history_distinct_adj: "history K plan rows \<Longrightarrow> remdups_adj rows = rows"
  by (rule remdups_adj_distinct) (auto simp: history_def distinct_map)

section \<open>The contract of a journal\<close>

text \<open>What \<open>ContinuityJournal\<close> promises: an append takes effect exactly when its fence is the current length.\<close>

locale fenced_journal =
  fixes turns :: "'j \<Rightarrow> 's continuity_turn list"
    and append_row :: "'j \<Rightarrow> 's journal_row \<Rightarrow> ('s continuity_journal_error, unit) outcome \<times> 'j"
  assumes at_fence: "row_expected_len row = of_nat (length (turns j)) \<Longrightarrow>
      \<exists>j'. append_row j row = (Ok (), j') \<and> turns j' = turns j @ [row_turn row]"
    and past_fence: "row_expected_len row \<noteq> of_nat (length (turns j)) \<Longrightarrow> append_row j row = (Err FenceConflict, j)"
begin

lemma append_Ok:
  assumes "append_row j row = (Ok (), j')"
  shows "row_expected_len row = of_nat (length (turns j)) \<and> turns j' = turns j @ [row_turn row]"
  using assms at_fence [of row j] past_fence [of row j]
  by (cases "row_expected_len row = of_nat (length (turns j))") auto

text \<open>Of two writers with the same fence only one succeeds.\<close>

lemma second_writer:
  assumes "append_row j row = (Ok (), j')" "row_expected_len row' = row_expected_len row"
  shows "append_row j' row' = (Err FenceConflict, j')"
proof -
  have fence: "row_expected_len row = of_nat (length (turns j))" and t: "turns j' = turns j @ [row_turn row]"
    using append_Ok [OF assms(1)] by blast+
  have "(of_nat (length (turns j)) :: 64 word) \<noteq> of_nat (length (turns j'))" unfolding t by simp
  then show ?thesis using past_fence fence assms(2) by simp
qed

end

interpretation memory_journal: fenced_journal "\<lambda>rows. rows" append_fenced
  by unfold_locales (auto simp: append_fenced_def)

lemma append_at_fence: "append_fenced rows \<lparr>row_expected_len = of_nat (length rows), row_turn = t\<rparr> = (Ok (), rows @ [t])"
  using memory_journal.at_fence [of "\<lparr>row_expected_len = of_nat (length rows), row_turn = t\<rparr>" rows] by auto

section \<open>Sessions\<close>

lemma accept_cases:
  assumes valid: "plan_validate K plan = Ok ()" and h: "history K plan rows" and len: "Suc (length rows) < 2 ^ 64"
  obtains (same) "journal_accept K show_error checks rows plan (state_of K plan rows) event = (Ok (state_of K plan rows), rows)"
    | (extended) t where "ct_event t = event" "history K plan (rows @ [t])"
        "journal_accept K show_error checks rows plan (state_of K plan rows) event = (Ok (state_of K plan (rows @ [t])), rows @ [t])"
    | (refused) r where "journal_accept K show_error checks rows plan (state_of K plan rows) event = (Err (Refused r), rows)"
proof -
  let ?s = "state_of K plan rows"
  have rebuilt: "rebuild K show_error checks plan rows = Ok ?s"
    using rebuild_history [OF valid, of rows] len h by (simp add: history_distinct_adj)
  consider (seen) "continuity_apply K show_error checks plan ?s event = Ok ?s"
    | (new) t where "ct_event t = event" "history K plan (rows @ [t])"
        "continuity_apply K show_error checks plan ?s event = Ok (state_of K plan (rows @ [t]))"
    | (no) r where "continuity_apply K show_error checks plan ?s event = Err r"
  proof (cases "sym_to_string K (ce_event_id event) \<in> turn_name K ` set rows")
    case True
    then have "continuity_apply K show_error checks plan ?s event = Ok ?s"
      by (intro apply_seen [OF valid]) (simp add: state_of_seen)
    then show thesis by (rule that)
  next
    case False
    show thesis
      using apply_new [OF valid h len False, of show_error checks] apply_no_Panic [OF len, of K show_error checks plan event] that
      by (cases "continuity_apply K show_error checks plan ?s event") auto
  qed
  then show thesis
  proof cases
    case seen
    then show thesis using that(1) rebuilt by (simp add: journal_accept_def)
  next
    case (new t)
    have "cs_next_sequence (state_of K plan (rows @ [t])) \<noteq> cs_next_sequence ?s" by (simp add: state_of_simps)
    then have "state_of K plan (rows @ [t]) \<noteq> ?s" by auto
    moreover have "last_turn (cs_turns (state_of K plan (rows @ [t]))) = Some t"
      by (simp add: last_turn_state_of [OF valid]) (simp add: last_turn_def)
    ultimately show thesis
      using that(2) [OF new(1,2)] new(3) rebuilt by (simp add: journal_accept_def append_at_fence)
  next
    case (no r)
    then show thesis using that(3) rebuilt by (simp add: journal_accept_def)
  qed
qed

text \<open>A session: a journal and its cache, opened empty and advanced by accepted events.\<close>

inductive session ::
  "('s, 'c) symbol_kernel \<Rightarrow> (kernel_error \<Rightarrow> string) \<Rightarrow> bool \<Rightarrow> 's continuity_plan
     \<Rightarrow> 's continuity_turn list \<Rightarrow> 's continuity_state \<Rightarrow> bool"
  for K show_error checks plan where
  opened: "session K show_error checks plan [] continuity_state_default"
| accepted: "session K show_error checks plan rows state \<Longrightarrow>
     journal_accept K show_error checks rows plan state event = (Ok state', rows') \<Longrightarrow>
     session K show_error checks plan rows' state'"

lemma session_history:
  assumes "session K show_error checks plan rows state" "plan_validate K plan = Ok ()" "Suc (length rows) < 2 ^ 64"
  shows "history K plan rows \<and> state = state_of K plan rows"
  using assms
proof (induction rule: session.induct)
  case opened
  then show ?case by (simp add: state_of_Nil)
next
  case (accepted rows state event state' rows')
  have grows: "length rows \<le> length rows'"
    using accepted.hyps(2) by (auto simp: journal_accept_def append_at_fence split: outcome.splits if_splits option.splits)
  with accepted.prems(2) have len: "Suc (length rows) < 2 ^ 64" by linarith
  then have IH: "history K plan rows" "state = state_of K plan rows" using accepted.IH accepted.prems(1) by auto
  show ?case
    by (rule accept_cases [OF accepted.prems(1) IH(1) len, of show_error checks event])
      (use accepted.hyps(2) IH in auto)
qed

lemma candidate_legal:
  assumes "legal_turn K plan t" "sym_to_string K (ce_kind (ct_event t)) = ''candidate''"
  shows "\<exists>lease role. ce_lease (ct_event t) = Some lease \<and> role \<in> set (cp_roles plan) \<and> rd_role role = ce_role (ct_event t)
     \<and> rl_observed_at lease \<le> ce_logical_time (ct_event t) \<and> ce_logical_time (ct_event t) \<le> rl_expires_at lease
     \<and> unat (ce_logical_time (ct_event t)) - unat (rl_observed_at lease) \<le> unat (cp_max_freshness plan)
     \<and> (rl_networked lease \<longrightarrow> cp_network plan = AllowListed \<and> rl_route lease \<in> set (cp_allowed_network_routes plan))
     \<and> set (rd_required_services role) \<subseteq> set (rl_services lease)"
proof -
  obtain role where role: "find (\<lambda>r. rd_role r = ce_role (ct_event t)) (cp_roles plan) = Some role"
    and ok: "event_intents K plan role (ct_event t) = Ok (ct_intents t)"
    using assms(1) by (auto simp: legal_turn_def Let_def split: option.splits)
  obtain lease where l: "ce_lease (ct_event t) = Some lease"
    using ok assms(2) by (auto simp: event_intents_def bind_o_Ok)
  have fresh: "\<not> (rl_expires_at lease < rl_observed_at lease \<or> rl_expires_at lease < ce_logical_time (ct_event t)
           \<or> ce_logical_time (ct_event t) < rl_observed_at lease
           \<or> cp_max_freshness plan < ce_logical_time (ct_event t) - rl_observed_at lease)"
    and net: "rl_networked lease \<longrightarrow> cp_network plan = AllowListed \<and> rl_route lease \<in> set (cp_allowed_network_routes plan)"
    and closed: "set (rd_required_services role) \<subseteq> set (rl_services lease)"
    using ok assms(2) l network_policy.exhaust [of "cp_network plan"]
    by (auto simp: event_intents_def list_ex_iff split: if_splits)
  have "role \<in> set (cp_roles plan)" "rd_role role = ce_role (ct_event t)" using role by (auto simp: find_Some_iff)
  moreover have "unat (ce_logical_time (ct_event t)) - unat (rl_observed_at lease) \<le> unat (cp_max_freshness plan)"
    using fresh unat_sub [of "rl_observed_at lease" "ce_logical_time (ct_event t)"]
    by (simp add: word_le_nat_alt not_less)
  ultimately show ?thesis using l net closed fresh by (auto simp: not_less)
qed

section \<open>Field codecs\<close>

lemma continuity_roundtrips:
  assumes "field_codec_ok F"
  shows "route_lease_decode F (route_lease_encode F l) field = Ok l"
    and "continuity_intent_decode F (continuity_intent_encode F i) field = Ok i"
    and "role_demand_decode F (role_demand_encode F d) field = Ok d"
  using assms
  by (simp_all add: field_codec_ok_def route_lease_encode_def route_lease_decode_def continuity_intent_encode_def
      continuity_intent_decode_def role_demand_encode_def role_demand_decode_def)

lemma continuity_event_roundtrip:
  assumes "field_codec_ok F"
  shows "continuity_event_decode F (continuity_event_encode F e) field = Ok e"
  using assms continuity_roundtrips(1) [OF assms]
  by (simp add: field_codec_ok_def continuity_event_encode_def continuity_event_decode_def)

lemma network_policy_roundtrip:
  "(\<And>n. sym_to_string K (sym_new K n) = n) \<Longrightarrow> network_policy_decode K (network_policy_encode K p) field = Ok p"
  by (cases p) (simp_all add: network_policy_encode_def network_policy_decode_def)

end
