(* ===== verification/Continuity_Theorems.thy ===== *)
theory Continuity_Theorems
  imports Continuity_Facts Kernel_Samples
begin

text \<open>
  The properties of \<open>sim-lib-continuity\<close>, instantiated on the default plan and the default event.
\<close>

section \<open>Samples\<close>

abbreviation (input) csample_plan :: "string list continuity_plan" where
  "csample_plan \<equiv> (continuity_plan_default sample_symbols)\<lparr>cp_retention_turns := 2\<rparr>"

definition csample_lease :: "string list route_lease" where
  "csample_lease = (route_lease_default sample_symbols)\<lparr>rl_expires_at := 1\<rparr>"

definition csample_event :: "string list continuity_event" where
  "csample_event = (continuity_event_default sample_symbols)\<lparr>ce_kind := [''candidate''], ce_lease := Some csample_lease\<rparr>"

definition csample_turn :: "string list continuity_turn" where
  "csample_turn = turn_of csample_event [mk_intent sample_symbols ''consider-route'' [''root''] (Some [''route''])]"

lemma csample_plan_valid: "plan_validate sample_symbols csample_plan = Ok ()"
  by code_simp

lemma csample_accept:
  "journal_accept sample_symbols (\<lambda>_. ''error'') True [] csample_plan continuity_state_default csample_event
     = (Ok (state_of sample_symbols csample_plan [csample_turn]), [csample_turn])"
  by code_simp

lemma csample_session:
  "session sample_symbols (\<lambda>_. ''error'') True csample_plan [csample_turn] (state_of sample_symbols csample_plan [csample_turn])"
  by (rule session.accepted [OF session.opened csample_accept])

section \<open>Properties\<close>

text \<open>
  C34: Rebuilding is exact. With a valid plan, stored turns rebuild exactly when they are a history
  of the plan once adjacent repetitions are dropped: legal turns numbered from zero, with distinct
  event names and nothing after a cancellation; and the cache rebuilt is the one of that history.
\<close>
theorem continuity_rebuild_exact:
  assumes "plan_validate K plan = Ok ()" "length rows < 2 ^ 64"
  shows "rebuild K show_error checks plan rows = Ok state \<longleftrightarrow>
    history K plan (remdups_adj rows) \<and> state = state_of K plan (remdups_adj rows)"
  using assms by (rule rebuild_history)

theorem continuity_rebuild_exact_witness:
  "rebuild sample_symbols (\<lambda>_. ''error'') True csample_plan [csample_turn, csample_turn]
     = Ok (state_of sample_symbols csample_plan [csample_turn])"
proof -
  have "history sample_symbols csample_plan [csample_turn]" by code_simp
  then show ?thesis
    using continuity_rebuild_exact [OF csample_plan_valid, of "[csample_turn, csample_turn]"] by simp
qed

text \<open>
  C35: A session stays consistent. Whatever events are accepted from an empty journal, the journal
  is a history, rebuilding it gives exactly the cached state, and the next event is either refused
  with the journal unchanged or accepted with at most one turn more; there is no fence conflict, no
  state mismatch and no panic.
\<close>
theorem continuity_session_sound:
  assumes "plan_validate K plan = Ok ()" "session K show_error checks plan rows state" "Suc (length rows) < 2 ^ 64"
  shows "history K plan rows \<and> rebuild K show_error checks plan rows = Ok state
    \<and> ((\<exists>r. journal_accept K show_error checks rows plan state event = (Err (Refused r), rows))
       \<or> (\<exists>state' rows'. journal_accept K show_error checks rows plan state event = (Ok state', rows')
            \<and> prefix rows rows' \<and> length rows' \<le> Suc (length rows)))"
proof -
  have h: "history K plan rows" "state = state_of K plan rows" using session_history [OF assms(2,1,3)] by auto
  have "rebuild K show_error checks plan rows = Ok state"
    using rebuild_history [OF assms(1), of rows] assms(3) h by (simp add: history_distinct_adj)
  moreover have "(\<exists>r. journal_accept K show_error checks rows plan state event = (Err (Refused r), rows))
       \<or> (\<exists>state' rows'. journal_accept K show_error checks rows plan state event = (Ok state', rows')
            \<and> prefix rows rows' \<and> length rows' \<le> Suc (length rows))"
    by (rule accept_cases [OF assms(1) h(1) assms(3), of show_error checks event]) (auto simp: h(2))
  ultimately show ?thesis using h(1) by blast
qed

theorem continuity_session_sound_witness:
  "rebuild sample_symbols (\<lambda>_. ''error'') True csample_plan [csample_turn] = Ok (state_of sample_symbols csample_plan [csample_turn])"
  using continuity_session_sound [OF csample_plan_valid csample_session] by simp

text \<open>
  C36: Policy is enforced on every turn of a session. Its disclosure is admitted by the plan; a
  candidate carries a lease that is neither expired nor older than the freshness bound, whose route
  is admitted by the network policy and which offers every service its role requires; a
  cancellation is the last turn; and the cache keeps the latest turns within the retention bound.
\<close>
theorem continuity_policy_enforced:
  assumes "plan_validate K plan = Ok ()" "session K show_error checks plan rows state" "Suc (length rows) < 2 ^ 64"
    "t \<in> set rows"
  shows "disclosed plan (ct_event t)
    \<and> (sym_to_string K (ce_kind (ct_event t)) = ''candidate'' \<longrightarrow>
        (\<exists>lease role. ce_lease (ct_event t) = Some lease \<and> role \<in> set (cp_roles plan) \<and> rd_role role = ce_role (ct_event t)
           \<and> rl_observed_at lease \<le> ce_logical_time (ct_event t) \<and> ce_logical_time (ct_event t) \<le> rl_expires_at lease
           \<and> unat (ce_logical_time (ct_event t)) - unat (rl_observed_at lease) \<le> unat (cp_max_freshness plan)
           \<and> (rl_networked lease \<longrightarrow> cp_network plan = AllowListed \<and> rl_route lease \<in> set (cp_allowed_network_routes plan))
           \<and> set (rd_required_services role) \<subseteq> set (rl_services lease)))
    \<and> (sym_to_string K (ce_kind (ct_event t)) = ''cancel'' \<longrightarrow> t = last rows)
    \<and> suffix (cs_turns state) rows \<and> length (cs_turns state) \<le> unat (cp_retention_turns plan)"
proof -
  have h: "history K plan rows" "state = state_of K plan rows" using session_history [OF assms(2,1,3)] by auto
  have legal: "legal_turn K plan t" using h(1) assms(4) by (auto simp: history_def list_all_iff)
  have "t = last rows" if "sym_to_string K (ce_kind (ct_event t)) = ''cancel''"
  proof -
    have "t \<notin> set (butlast rows)" using h(1) that by (auto simp: history_def list_all_iff is_cancel_def)
    then show ?thesis using assms(4) by (cases rows rule: rev_cases) auto
  qed
  moreover have "suffix (cs_turns state) rows" "length (cs_turns state) \<le> unat (cp_retention_turns plan)"
    using h(2) by (auto simp: state_of_def suffix_drop)
  moreover have "disclosed plan (ct_event t)" using legal by (simp add: legal_turn_def Let_def)
  ultimately show ?thesis using candidate_legal [OF legal] by blast
qed

theorem continuity_policy_enforced_witness:
  "\<exists>lease. ce_lease (ct_event csample_turn) = Some lease \<and> ce_logical_time (ct_event csample_turn) \<le> rl_expires_at lease"
proof -
  have "sym_to_string sample_symbols (ce_kind (ct_event csample_turn)) = ''candidate''" by code_simp
  then show ?thesis
    using continuity_policy_enforced [OF csample_plan_valid csample_session, of csample_turn] by auto
qed

end
