(* ===== verification/Pack_Model.thy ===== *)
theory Pack_Model
  imports Citizen_Fields
begin

text \<open>
  \<open>sim-lib-capability-pack\<close>: \<open>model.rs\<close>, \<open>resolve.rs\<close>, \<open>validate.rs\<close>, \<open>load.rs\<close> and \<open>codec.rs\<close>. A pack
  names its imports by content identity and gives each a ceiling of capabilities; resolution orders
  the closure of the imports, validation checks it against a catalog, loading hands the libraries
  to the host. The traits \<open>PackDir\<close>, \<open>Catalog\<close> and \<open>LibraryLoader\<close> are a function, a record of
  functions and a function on the loader's state. \<open>show_error\<close> is the text of a kernel error.
\<close>

section \<open>Data\<close>

type_synonym content_id = string

definition is_lower_hex :: "char \<Rightarrow> bool" where
  "is_lower_hex c \<longleftrightarrow> is_digit c \<or> (97::nat) \<le> of_char c \<and> (of_char c :: nat) \<le> 102"

definition content_parse :: "string \<Rightarrow> (string, content_id) outcome" where
  "content_parse value =
     (if \<not> prefix ''sha256:'' value then Err ''mutable locator: expected sha256 content id''
      else let digest = drop 7 value in
      if length digest \<noteq> 64 \<or> \<not> list_all is_lower_hex digest
      then Err ''content id must contain 64 lowercase hexadecimal digits''
      else Ok value)"

record 's pack_import =
  im_alias :: 's
  im_content :: content_id
  im_ceiling :: "'s fset"

record 's library_spec =
  lb_id :: 's
  lb_route :: 's
  lb_shape :: 's
  lb_effects :: "'s fset"

record 's pack_output =
  po_name :: 's
  po_library :: 's

record 's pack_surface =
  sf_id :: 's
  sf_disclosure :: 's

record 's pack_claim =
  pc_id :: 's
  pc_capability :: 's
  pc_library :: 's

record 's check_specimen =
  sm_id :: 's
  sm_outcome :: 's

record 's manual_fallback =
  mf_when :: 's
  mf_instruction :: string

record 's capability_pack =
  pk_version :: "64 word"
  pk_content :: string
  pk_imports :: "'s expr list"
  pk_libraries :: "'s expr list"
  pk_claims :: "'s expr list"
  pk_outputs :: "'s expr list"
  pk_surfaces :: "'s expr list"
  pk_specimens :: "'s expr list"
  pk_fallbacks :: "'s expr list"

definition capability_pack_default :: "'s capability_pack" where
  "capability_pack_default =
     \<lparr>pk_version = 1, pk_content = ''sha256:'' @ replicate 64 (CHR ''0''), pk_imports = [], pk_libraries = [],
      pk_claims = [], pk_outputs = [], pk_surfaces = [], pk_specimens = [], pk_fallbacks = []\<rparr>"

section \<open>Records carried as expressions\<close>

text \<open>The field codec and the text of a kernel error.\<close>

record 's pack_codec =
  pc_fields :: "('s, unit) field_codec"
  pc_show_error :: "kernel_error \<Rightarrow> string"

definition parse_list :: "'s expr \<Rightarrow> nat \<Rightarrow> string \<Rightarrow> (string, 's expr list) outcome" where
  "parse_list e n kind =
     (case e of
        EList v \<Rightarrow> if length v = n then Ok v else Err (kind @ '' must be a '' @ digits10 n @ ''-field list'')
      | _ \<Rightarrow> Err (kind @ '' must be a '' @ digits10 n @ ''-field list''))"

definition parse_sym :: "'s pack_codec \<Rightarrow> 's expr \<Rightarrow> string \<Rightarrow> (string, 's) outcome" where
  "parse_sym P e f = map_err (pc_show_error P) (dec_symbol (pc_fields P) e f)"

definition parse_text :: "'s pack_codec \<Rightarrow> 's expr \<Rightarrow> string \<Rightarrow> (string, string) outcome" where
  "parse_text P e f = map_err (pc_show_error P) (dec_string (pc_fields P) e f)"

definition parse_syms :: "'s pack_codec \<Rightarrow> 's expr \<Rightarrow> string \<Rightarrow> (string, 's fset) outcome" where
  "parse_syms P e f = bind_o (map_err (pc_show_error P) (dec_symbols (pc_fields P) e f)) (\<lambda>v. Ok (fset_of_list v))"

definition parse_import :: "'s pack_codec \<Rightarrow> 's expr \<Rightarrow> (string, 's pack_import) outcome" where
  "parse_import P e =
     bind_o (parse_list e 3 ''import'') (\<lambda>v.
     bind_o (parse_sym P (v ! 0) ''alias'') (\<lambda>alias.
     bind_o (parse_text P (v ! 1) ''content'') (\<lambda>text.
     bind_o (content_parse text) (\<lambda>content.
     bind_o (parse_syms P (v ! 2) ''ceiling'') (\<lambda>ceil.
     Ok \<lparr>im_alias = alias, im_content = content, im_ceiling = ceil\<rparr>)))))"

definition parse_library :: "'s pack_codec \<Rightarrow> 's expr \<Rightarrow> (string, 's library_spec) outcome" where
  "parse_library P e =
     bind_o (parse_list e 4 ''library'') (\<lambda>v.
     bind_o (parse_sym P (v ! 0) ''id'') (\<lambda>i.
     bind_o (parse_sym P (v ! 1) ''route'') (\<lambda>route.
     bind_o (parse_sym P (v ! 2) ''shape'') (\<lambda>shape.
     bind_o (parse_syms P (v ! 3) ''effects'') (\<lambda>effects.
     Ok \<lparr>lb_id = i, lb_route = route, lb_shape = shape, lb_effects = effects\<rparr>)))))"

definition parse_claim :: "'s pack_codec \<Rightarrow> 's expr \<Rightarrow> (string, 's pack_claim) outcome" where
  "parse_claim P e =
     bind_o (parse_list e 3 ''claim'') (\<lambda>v.
     bind_o (parse_sym P (v ! 0) ''id'') (\<lambda>i.
     bind_o (parse_sym P (v ! 1) ''capability'') (\<lambda>capability.
     bind_o (parse_sym P (v ! 2) ''library'') (\<lambda>library.
     Ok \<lparr>pc_id = i, pc_capability = capability, pc_library = library\<rparr>))))"

definition parse_output :: "'s pack_codec \<Rightarrow> 's expr \<Rightarrow> (string, 's pack_output) outcome" where
  "parse_output P e =
     bind_o (parse_list e 2 ''output'') (\<lambda>v.
     bind_o (parse_sym P (v ! 0) ''name'') (\<lambda>name.
     bind_o (parse_sym P (v ! 1) ''library'') (\<lambda>library.
     Ok \<lparr>po_name = name, po_library = library\<rparr>)))"

definition parse_surface :: "'s pack_codec \<Rightarrow> 's expr \<Rightarrow> (string, 's pack_surface) outcome" where
  "parse_surface P e =
     bind_o (parse_list e 2 ''surface'') (\<lambda>v.
     bind_o (parse_sym P (v ! 0) ''surface'') (\<lambda>i.
     bind_o (parse_sym P (v ! 1) ''disclosure'') (\<lambda>disclosure.
     Ok \<lparr>sf_id = i, sf_disclosure = disclosure\<rparr>)))"

definition parse_specimen :: "'s pack_codec \<Rightarrow> 's expr \<Rightarrow> (string, 's check_specimen) outcome" where
  "parse_specimen P e =
     bind_o (parse_list e 2 ''specimen'') (\<lambda>v.
     bind_o (parse_sym P (v ! 0) ''specimen'') (\<lambda>i.
     bind_o (parse_sym P (v ! 1) ''outcome'') (\<lambda>result.
     Ok \<lparr>sm_id = i, sm_outcome = result\<rparr>)))"

definition parse_fallback :: "'s pack_codec \<Rightarrow> 's expr \<Rightarrow> (string, 's manual_fallback) outcome" where
  "parse_fallback P e =
     bind_o (parse_list e 2 ''fallback'') (\<lambda>v.
     bind_o (parse_sym P (v ! 0) ''when'') (\<lambda>trigger.
     bind_o (parse_text P (v ! 1) ''instruction'') (\<lambda>instruction.
     Ok \<lparr>mf_when = trigger, mf_instruction = instruction\<rparr>)))"

definition typed_imports :: "'s pack_codec \<Rightarrow> 's capability_pack \<Rightarrow> (string, 's pack_import list) outcome" where
  "typed_imports P pack = collect_o (parse_import P) (pk_imports pack)"

definition typed_libraries :: "'s pack_codec \<Rightarrow> 's capability_pack \<Rightarrow> (string, 's library_spec list) outcome" where
  "typed_libraries P pack = collect_o (parse_library P) (pk_libraries pack)"

definition typed_claims :: "'s pack_codec \<Rightarrow> 's capability_pack \<Rightarrow> (string, 's pack_claim list) outcome" where
  "typed_claims P pack = collect_o (parse_claim P) (pk_claims pack)"

definition typed_outputs :: "'s pack_codec \<Rightarrow> 's capability_pack \<Rightarrow> (string, 's pack_output list) outcome" where
  "typed_outputs P pack = collect_o (parse_output P) (pk_outputs pack)"

definition typed_surfaces :: "'s pack_codec \<Rightarrow> 's capability_pack \<Rightarrow> (string, 's pack_surface list) outcome" where
  "typed_surfaces P pack = collect_o (parse_surface P) (pk_surfaces pack)"

definition typed_specimens :: "'s pack_codec \<Rightarrow> 's capability_pack \<Rightarrow> (string, 's check_specimen list) outcome" where
  "typed_specimens P pack = collect_o (parse_specimen P) (pk_specimens pack)"

definition typed_fallbacks :: "'s pack_codec \<Rightarrow> 's capability_pack \<Rightarrow> (string, 's manual_fallback list) outcome" where
  "typed_fallbacks P pack = collect_o (parse_fallback P) (pk_fallbacks pack)"

section \<open>Pack codec\<close>

definition pack_encode_field :: "('s, 'x) field_codec \<Rightarrow> 's capability_pack \<Rightarrow> 's expr" where
  "pack_encode_field F p =
     EList [enc_u64 F (pk_version p), enc_string F (pk_content p), enc_exprs F (pk_imports p),
            enc_exprs F (pk_libraries p), enc_exprs F (pk_claims p), enc_exprs F (pk_outputs p),
            enc_exprs F (pk_surfaces p), enc_exprs F (pk_specimens p), enc_exprs F (pk_fallbacks p)]"

definition pack_decode_field :: "('s, 'x) field_codec \<Rightarrow> 's expr \<Rightarrow> (kernel_error, 's capability_pack) outcome" where
  "pack_decode_field F e =
     (case e of
        EList v \<Rightarrow>
          (case v of
             [version, content, imps, libraries, claims, outputs, surfaces, specimens, fallbacks] \<Rightarrow>
               bind_o (dec_u64 F version ''version'') (\<lambda>version.
               bind_o (dec_string F content ''content'') (\<lambda>content.
               bind_o (dec_exprs F imps ''imports'') (\<lambda>imps.
               bind_o (dec_exprs F libraries ''libraries'') (\<lambda>libraries.
               bind_o (dec_exprs F claims ''claims'') (\<lambda>claims.
               bind_o (dec_exprs F outputs ''outputs'') (\<lambda>outputs.
               bind_o (dec_exprs F surfaces ''surfaces'') (\<lambda>surfaces.
               bind_o (dec_exprs F specimens ''specimens'') (\<lambda>specimens.
               bind_o (dec_exprs F fallbacks ''fallbacks'') (\<lambda>fallbacks.
               Ok \<lparr>pk_version = version, pk_content = content, pk_imports = imps, pk_libraries = libraries,
                   pk_claims = claims, pk_outputs = outputs, pk_surfaces = surfaces, pk_specimens = specimens,
                   pk_fallbacks = fallbacks\<rparr>)))))))))
           | _ \<Rightarrow> Err (EvalError ''capability pack has wrong arity''))
      | _ \<Rightarrow> Err (EvalError ''capability pack must be a list''))"

datatype codec_error = CUnsupportedVersion "64 word" | CInvalid string

definition encode_pack :: "('s, 'x) field_codec \<Rightarrow> 's capability_pack \<Rightarrow> 's expr" where
  "encode_pack F pack = pack_encode_field F pack"

definition decode_pack ::
  "(kernel_error \<Rightarrow> string) \<Rightarrow> ('s, 'x) field_codec \<Rightarrow> 64 word \<Rightarrow> 's expr \<Rightarrow> (codec_error, 's capability_pack) outcome" where
  "decode_pack show_error F version e =
     (if version \<noteq> 1 then Err (CUnsupportedVersion version)
      else map_err (\<lambda>x. CInvalid (show_error x)) (pack_decode_field F e))"

definition content_decode_field :: "('s, 'x) field_codec \<Rightarrow> 's expr \<Rightarrow> string \<Rightarrow> (kernel_error, content_id) outcome" where
  "content_decode_field F e field = bind_o (dec_string F e field) (\<lambda>s. map_err EvalError (content_parse s))"

section \<open>Resolution\<close>

type_synonym 's pack_dir = "content_id \<Rightarrow> (content_id \<times> 's capability_pack) option"

datatype 's resolve_error =
    RMissing content_id
  | RContentMismatch content_id content_id
  | RCycle "content_id list"
  | RAliasConflict 's
  | RMalformed string
  | RUnsupportedVersion "64 word"

record 's resolved_pack =
  rp_root :: content_id
  rp_packs :: "(content_id \<times> 's capability_pack) list"
  rp_ceilings :: "(content_id, 's fset) btmap"

text \<open>The \<open>&mut\<close> arguments of \<open>visit\<close>, except the stack, which is the path from the root.\<close>

record (overloaded) 's pack_visit_state =
  vi_done :: "content_id fset"
  vi_aliases :: "('s, content_id) btmap"
  vi_out :: "'s resolved_pack"

text \<open>The checks \<open>visit\<close> makes before it looks at the imports.\<close>

definition fetch_pack :: "'s pack_dir \<Rightarrow> content_id \<Rightarrow> ('s resolve_error, 's capability_pack) outcome" where
  "fetch_pack dir i =
     bind_o (ok_or (dir i) (RMissing i)) (\<lambda>(actual, pack).
     if actual \<noteq> i then Err (RContentMismatch i actual)
     else if content_parse (pk_content pack) \<noteq> Ok i
     then bind_o (map_err RMalformed (content_parse (pk_content pack))) (\<lambda>actual. Err (RContentMismatch i actual))
     else if pk_version pack \<noteq> 1 then Err (RUnsupportedVersion (pk_version pack))
     else Ok pack)"

definition enter_alias ::
  "('s::linorder) pack_import \<Rightarrow> 's pack_visit_state \<Rightarrow> ('s resolve_error, 's pack_visit_state) outcome" where
  "enter_alias im st =
     (case bt_get (vi_aliases st) (im_alias im) of
        Some old \<Rightarrow> if old \<noteq> im_content im then Err (RAliasConflict (im_alias im))
                    else Ok (st\<lparr>vi_aliases := bt_insert (im_alias im) (im_content im) (vi_aliases st)\<rparr>)
      | None \<Rightarrow> Ok (st\<lparr>vi_aliases := bt_insert (im_alias im) (im_content im) (vi_aliases st)\<rparr>))"

definition narrow_done ::
  "content_id \<Rightarrow> 's fset \<Rightarrow> ('s::linorder) pack_visit_state \<Rightarrow> ('s resolve_error, 's pack_visit_state) outcome" where
  "narrow_done i ceil st =
     bind_o (expect (bt_get (rp_ceilings (vi_out st)) i)) (\<lambda>prior.
     Ok (st\<lparr>vi_out := (vi_out st)\<lparr>rp_ceilings := bt_insert i (prior |\<inter>| ceil) (rp_ceilings (vi_out st))\<rparr>\<rparr>))"

definition finish_pack ::
  "content_id \<Rightarrow> 's fset \<Rightarrow> 's capability_pack \<Rightarrow> ('s::linorder) pack_visit_state \<Rightarrow> 's pack_visit_state" where
  "finish_pack i ceil pack st =
     st\<lparr>vi_done := finsert i (vi_done st),
        vi_out := (vi_out st)\<lparr>rp_ceilings := bt_insert i ceil (rp_ceilings (vi_out st)),
                               rp_packs := rp_packs (vi_out st) @ [(i, pack)]\<rparr>\<rparr>"

definition position :: "'a \<Rightarrow> 'a list \<Rightarrow> nat" where
  "position x xs = length (takeWhile (\<lambda>y. y \<noteq> x) xs)"

fun pack_visit ::
  "nat \<Rightarrow> 's pack_codec \<Rightarrow> 's pack_dir \<Rightarrow> content_id \<Rightarrow> 's fset \<Rightarrow> content_id list \<Rightarrow> ('s::linorder) pack_visit_state
     \<Rightarrow> ('s resolve_error, 's pack_visit_state) outcome" where
  "pack_visit 0 P dir i ceil stack st = Diverge"
| "pack_visit (Suc n) P dir i ceil stack st =
     (if i \<in> set stack then Err (RCycle (drop (position i stack) stack @ [i]))
      else if i |\<in>| vi_done st then narrow_done i ceil st
      else bind_o (fetch_pack dir i) (\<lambda>pack.
      bind_o (map_err RMalformed (typed_imports P pack)) (\<lambda>imps.
      bind_o (try_fold (\<lambda>st im.
         bind_o (enter_alias im st) (\<lambda>st.
         pack_visit n P dir (im_content im) (ceil |\<inter>| im_ceiling im) (stack @ [i]) st)) st imps) (\<lambda>st.
      Ok (finish_pack i ceil pack st)))))"

definition pack_resolve ::
  "nat \<Rightarrow> 's pack_codec \<Rightarrow> ('s::linorder) pack_dir \<Rightarrow> content_id \<Rightarrow> 's fset \<Rightarrow> ('s resolve_error, 's resolved_pack) outcome" where
  "pack_resolve n P dir root ceil =
     bind_o (pack_visit n P dir root ceil []
       \<lparr>vi_done = {||}, vi_aliases = bt_empty,
        vi_out = \<lparr>rp_root = root, rp_packs = [], rp_ceilings = bt_empty\<rparr>\<rparr>) (\<lambda>st. Ok (vi_out st))"

section \<open>Validation\<close>

record 's catalog =
  has_route :: "'s \<Rightarrow> bool"
  has_shape :: "'s \<Rightarrow> bool"
  catalog_effects :: "'s \<Rightarrow> 's fset option"
  has_disclosure :: "'s \<Rightarrow> bool"

record 's validated_pack =
  vp_resolved :: "'s resolved_pack"
  vp_libraries :: "'s library_spec list"

datatype 's validation_error =
    VMalformed string
  | VAuthorityWidening content_id 's
  | VMissingRoute 's
  | VMissingShape 's
  | VConflictingOutput 's
  | VUnknownDisclosure 's
  | VEffectMismatch 's
  | VMissingLibrary 's
  | VMissingSpecimen string
  | VMissingFallback

text \<open>The variables of the loop. The source also collects library ids, which nothing reads.\<close>

record (overloaded) 's preflight =
  pf_libraries :: "'s library_spec list"
  pf_outputs :: "('s, 's) btmap"
  pf_outcomes :: "'s fset"
  pf_fallback :: bool

definition check_library :: "'s catalog \<Rightarrow> 's library_spec \<Rightarrow> ('s validation_error, unit) outcome" where
  "check_library C lib =
     (if \<not> has_route C (lb_route lib) then Err (VMissingRoute (lb_route lib))
      else if \<not> has_shape C (lb_shape lib) then Err (VMissingShape (lb_shape lib))
      else if catalog_effects C (lb_route lib) \<noteq> Some (lb_effects lib) then Err (VEffectMismatch (lb_route lib))
      else Ok ())"

definition check_pack_claim ::
  "('s::linorder) resolved_pack \<Rightarrow> content_id \<Rightarrow> 's library_spec list \<Rightarrow> 's pack_claim \<Rightarrow> ('s validation_error, unit) outcome" where
  "check_pack_claim resolved i libs claim =
     (if \<not> list_ex (\<lambda>l. lb_id l = pc_library claim) libs then Err (VMissingLibrary (pc_library claim))
      else bind_o (expect (bt_get (rp_ceilings resolved) i)) (\<lambda>ceil.
      if pc_capability claim |\<notin>| ceil then Err (VAuthorityWidening i (pc_capability claim)) else Ok ()))"

definition add_output ::
  "'s library_spec list \<Rightarrow> ('s::linorder, 's) btmap \<Rightarrow> 's pack_output \<Rightarrow> ('s validation_error, ('s, 's) btmap) outcome" where
  "add_output libs outputs out =
     (if \<not> list_ex (\<lambda>l. lb_id l = po_library out) libs then Err (VMissingLibrary (po_library out))
      else if bt_contains outputs (po_name out) then Err (VConflictingOutput (po_name out))
      else Ok (bt_insert (po_name out) (po_library out) outputs))"

definition check_surface :: "'s catalog \<Rightarrow> 's pack_surface \<Rightarrow> ('s validation_error, unit) outcome" where
  "check_surface C s = (if has_disclosure C (sf_disclosure s) then Ok () else Err (VUnknownDisclosure (sf_disclosure s)))"

definition check_pack ::
  "'s pack_codec \<Rightarrow> 's catalog \<Rightarrow> ('s::linorder) resolved_pack \<Rightarrow> 's preflight \<Rightarrow> content_id \<times> 's capability_pack
     \<Rightarrow> ('s validation_error, 's preflight) outcome" where
  "check_pack P C resolved pf entry =
     (let i = fst entry; pack = snd entry in
      bind_o (map_err VMalformed (typed_libraries P pack)) (\<lambda>libs.
      bind_o (for_each (check_library C) libs) (\<lambda>_.
      bind_o (map_err VMalformed (typed_claims P pack)) (\<lambda>claims.
      bind_o (for_each (check_pack_claim resolved i libs) claims) (\<lambda>_.
      bind_o (map_err VMalformed (typed_outputs P pack)) (\<lambda>outs.
      bind_o (try_fold (add_output libs) (pf_outputs pf) outs) (\<lambda>outputs.
      bind_o (map_err VMalformed (typed_surfaces P pack)) (\<lambda>surfaces.
      bind_o (for_each (check_surface C) surfaces) (\<lambda>_.
      bind_o (map_err VMalformed (typed_specimens P pack)) (\<lambda>specimens.
      bind_o (map_err VMalformed (typed_fallbacks P pack)) (\<lambda>fallbacks.
      Ok \<lparr>pf_libraries = pf_libraries pf @ libs, pf_outputs = outputs,
          pf_outcomes = pf_outcomes pf |\<union>| fset_of_list (map sm_outcome specimens),
          pf_fallback = (pf_fallback pf \<or> list_ex (\<lambda>f. \<not> trim_is_empty (mf_instruction f)) fallbacks)\<rparr>)))))))))))"

definition pack_validate ::
  "('s::linorder, 'c) kernel \<Rightarrow> 's pack_codec \<Rightarrow> 's resolved_pack \<Rightarrow> 's catalog
     \<Rightarrow> ('s validation_error, 's validated_pack) outcome" where
  "pack_validate K P resolved C =
     bind_o (try_fold (check_pack P C resolved)
       \<lparr>pf_libraries = [], pf_outputs = bt_empty, pf_outcomes = {||}, pf_fallback = False\<rparr> (rp_packs resolved)) (\<lambda>pf.
     bind_o (for_each (\<lambda>needed. if sym_new K needed |\<in>| pf_outcomes pf then Ok () else Err (VMissingSpecimen needed))
              [''success'', ''refusal'']) (\<lambda>_.
     if \<not> pf_fallback pf then Err VMissingFallback
     else Ok \<lparr>vp_resolved = resolved, vp_libraries = pf_libraries pf\<rparr>))"

section \<open>Loading\<close>

record 's loaded_pack =
  lp_root :: content_id
  lp_libraries :: "'s list"

record 's load_error =
  le_library :: 's
  le_detail :: string

text \<open>\<open>host\<close> is the loader: it returns its result and its new state.\<close>

fun load_each ::
  "('h \<Rightarrow> 's library_spec \<Rightarrow> (string, unit) outcome \<times> 'h) \<Rightarrow> 'h \<Rightarrow> 's list \<Rightarrow> 's library_spec list
     \<Rightarrow> ('s load_error, 's list) outcome \<times> 'h" where
  "load_each host h loaded [] = (Ok loaded, h)"
| "load_each host h loaded (lib # libs) =
     (case host h lib of
        (Ok _, h') \<Rightarrow> load_each host h' (loaded @ [lb_id lib]) libs
      | (Err detail, h') \<Rightarrow> (Err \<lparr>le_library = lb_id lib, le_detail = detail\<rparr>, h')
      | (Panic, h') \<Rightarrow> (Panic, h')
      | (Diverge, h') \<Rightarrow> (Diverge, h'))"

definition pack_load ::
  "('h \<Rightarrow> 's library_spec \<Rightarrow> (string, unit) outcome \<times> 'h) \<Rightarrow> 'h \<Rightarrow> 's validated_pack
     \<Rightarrow> ('s load_error, 's loaded_pack) outcome \<times> 'h" where
  "pack_load host h pack =
     (case load_each host h [] (vp_libraries pack) of
        (result, h') \<Rightarrow>
          (bind_o result (\<lambda>libs. Ok \<lparr>lp_root = rp_root (vp_resolved pack), lp_libraries = libs\<rparr>), h'))"

end
