(* ===== verification/Pack_Facts.thy ===== *)
theory Pack_Facts
  imports Pack_Model
begin

text \<open>
  Facts about \<open>sim-lib-capability-pack\<close>. \<open>closure_ok\<close> says what a resolved closure is; \<open>pack_visited\<close>
  relates the state before and after a visit. Both hold of every successful run of the recursion,
  by induction on its fuel.
\<close>

section \<open>Resolved closures\<close>

definition pack_ids :: "'s resolved_pack \<Rightarrow> content_id list" where
  "pack_ids out = map fst (rp_packs out)"

definition ceiling_of :: "('s::linorder) resolved_pack \<Rightarrow> content_id \<Rightarrow> 's fset option" where
  "ceiling_of out i = bt_get (rp_ceilings out) i"

text \<open>The ceiling of a target is within what an import allows.\<close>

definition import_ok :: "('s::linorder) resolved_pack \<Rightarrow> 's pack_import \<Rightarrow> bool" where
  "import_ok out im = (case ceiling_of out (im_content im) of None \<Rightarrow> False | Some c \<Rightarrow> c |\<subseteq>| im_ceiling im)"

text \<open>A pack is the verified content of the directory and its imports come before it.\<close>

definition entry_ok ::
  "'s pack_codec \<Rightarrow> 's pack_dir \<Rightarrow> ('s::linorder) resolved_pack \<Rightarrow> content_id list \<Rightarrow> content_id \<times> 's capability_pack \<Rightarrow> bool" where
  "entry_ok P dir out before entry \<longleftrightarrow>
     fetch_pack dir (fst entry) = Ok (snd entry)
     \<and> (case typed_imports P (snd entry) of
          Ok imps \<Rightarrow> list_all (\<lambda>im. im_content im \<in> set before \<and> import_ok out im) imps
        | _ \<Rightarrow> False)"

definition closure_ok :: "'s pack_codec \<Rightarrow> 's pack_dir \<Rightarrow> 's fset \<Rightarrow> ('s::linorder) resolved_pack \<Rightarrow> bool" where
  "closure_ok P dir limit out \<longleftrightarrow>
     distinct (pack_ids out) \<and> set (bt_keys (rp_ceilings out)) = set (pack_ids out)
     \<and> list_all (\<lambda>c. c |\<subseteq>| limit) (bt_values (rp_ceilings out))
     \<and> list_all (\<lambda>k. entry_ok P dir out (take k (pack_ids out)) (rp_packs out ! k)) [0..<length (rp_packs out)]"

lemma ceiling_of_dom: "closure_ok P dir limit out \<Longrightarrow> (\<exists>c. ceiling_of out i = Some c) \<longleftrightarrow> i \<in> set (pack_ids out)"
proof -
  assume "closure_ok P dir limit out"
  then have "set (bt_keys (rp_ceilings out)) = set (pack_ids out)" by (simp add: closure_ok_def)
  then show ?thesis by (auto simp: set_bt_keys ceiling_of_def dom_def)
qed

lemma values_all: "list_all Q (bt_values (rp_ceilings out)) \<longleftrightarrow> (\<forall>i c. ceiling_of out i = Some c \<longrightarrow> Q c)"
  by (auto simp: list_all_iff set_bt_values ceiling_of_def ran_def)

lemma ceiling_of_top: "closure_ok P dir limit out \<Longrightarrow> ceiling_of out i = Some c \<Longrightarrow> c |\<subseteq>| limit"
  by (auto simp: closure_ok_def list_all_iff set_bt_values ceiling_of_def ran_def)

section \<open>Ceilings only shrink\<close>

definition shrinks :: "('s::linorder) resolved_pack \<Rightarrow> 's resolved_pack \<Rightarrow> bool" where
  "shrinks out out' \<longleftrightarrow>
     prefix (rp_packs out) (rp_packs out')
     \<and> (\<forall>i c. ceiling_of out i = Some c \<longrightarrow> (\<exists>c'. ceiling_of out' i = Some c' \<and> c' |\<subseteq>| c))"

lemma shrinks_refl [simp]: "shrinks out out"
  by (auto simp: shrinks_def)

lemma shrinks_trans:
  assumes "shrinks a b" "shrinks b c" shows "shrinks a c"
  unfolding shrinks_def
proof (intro conjI allI impI)
  show "prefix (rp_packs a) (rp_packs c)" 
    using assms prefix_order.trans unfolding shrinks_def by blast
  fix i u assume "ceiling_of a i = Some u"
  then obtain v where "ceiling_of b i = Some v" "v |\<subseteq>| u" using assms(1) by (auto simp: shrinks_def)
  then obtain w where "ceiling_of c i = Some w" "w |\<subseteq>| v" using assms(2) by (auto simp: shrinks_def)
  then show "\<exists>w. ceiling_of c i = Some w \<and> w |\<subseteq>| u" using \<open>v |\<subseteq>| u\<close> by auto
qed

lemma import_ok_iff: "import_ok out im \<longleftrightarrow> (\<exists>c. ceiling_of out (im_content im) = Some c \<and> c |\<subseteq>| im_ceiling im)"
  by (simp add: import_ok_def split: option.splits)

lemma shrinks_import:
  assumes "shrinks out out'" "import_ok out im" shows "import_ok out' im"
proof -
  from assms(2) obtain c where "ceiling_of out (im_content im) = Some c" and c: "c |\<subseteq>| im_ceiling im"
    by (auto simp: import_ok_iff)
  then obtain c' where "ceiling_of out' (im_content im) = Some c'" "c' |\<subseteq>| c"
    using assms(1) by (auto simp: shrinks_def)
  then show ?thesis using c unfolding import_ok_iff by blast
qed

lemma shrinks_entry: "shrinks out out' \<Longrightarrow> entry_ok P dir out before e \<Longrightarrow> entry_ok P dir out' before e"
  using shrinks_import by (auto simp: entry_ok_def list_all_iff split: outcome.splits)

lemma shrinks_ids: "shrinks out out' \<Longrightarrow> set (pack_ids out) \<subseteq> set (pack_ids out')"
  by (auto simp: shrinks_def pack_ids_def dest: set_mono_prefix)

section \<open>The two ways a visit ends\<close>

abbreviation (input) st_out :: "('s::linorder) pack_visit_state \<Rightarrow> 's resolved_pack" where
  "st_out st \<equiv> vi_out st"

definition visit_inv :: "'s pack_codec \<Rightarrow> 's pack_dir \<Rightarrow> 's fset \<Rightarrow> ('s::linorder) pack_visit_state \<Rightarrow> bool" where
  "visit_inv P dir limit st \<longleftrightarrow> closure_ok P dir limit (vi_out st) \<and> fset (vi_done st) = set (pack_ids (vi_out st))"

lemma narrow_done_Ok:
  assumes "visit_inv P dir limit st" "narrow_done i ceil st = Ok st'"
  shows "visit_inv P dir limit st'" "shrinks (vi_out st) (vi_out st')" "vi_done st' = vi_done st"
    "\<exists>c. ceiling_of (vi_out st') i = Some c \<and> c |\<subseteq>| ceil"
    "\<And>j. j \<noteq> i \<Longrightarrow> ceiling_of (vi_out st') j = ceiling_of (vi_out st) j"
proof -
  from assms(2) obtain prior where prior: "ceiling_of (vi_out st) i = Some prior"
    and st': "st' = st\<lparr>vi_out := (vi_out st)\<lparr>rp_ceilings := bt_insert i (prior |\<inter>| ceil) (rp_ceilings (vi_out st))\<rparr>\<rparr>"
    by (auto simp: narrow_done_def bind_o_Ok ceiling_of_def)
  have get: "ceiling_of (vi_out st') j = (if j = i then Some (prior |\<inter>| ceil) else ceiling_of (vi_out st) j)" for j
    by (simp add: st' ceiling_of_def)
  have packs: "rp_packs (vi_out st') = rp_packs (vi_out st)" "pack_ids (vi_out st') = pack_ids (vi_out st)"
    by (simp_all add: st' pack_ids_def)
  show sh: "shrinks (vi_out st) (vi_out st')" using prior by (auto simp: shrinks_def get packs)
  have inv: "closure_ok P dir limit (vi_out st)" using assms(1) by (simp add: visit_inv_def)
  have "ceiling_of (vi_out st) j = Some c \<Longrightarrow> c |\<subseteq>| limit" for j c using ceiling_of_top [OF inv] .
  then have "list_all (\<lambda>c. c |\<subseteq>| limit) (bt_values (rp_ceilings (vi_out st')))"
    unfolding values_all using get prior by (auto split: if_splits)
  moreover have "set (bt_keys (rp_ceilings (vi_out st'))) = set (pack_ids (vi_out st'))"
    using inv get prior by (auto simp: closure_ok_def set_bt_keys packs ceiling_of_def dom_def)
  ultimately have "closure_ok P dir limit (vi_out st')"
    using inv shrinks_entry [OF sh] by (auto simp: closure_ok_def packs list_all_iff)
  then show "visit_inv P dir limit st'" using assms(1) by (simp add: visit_inv_def packs st' pack_ids_def)
  show "vi_done st' = vi_done st" by (simp add: st')
  show "\<exists>c. ceiling_of (vi_out st') i = Some c \<and> c |\<subseteq>| ceil" by (auto simp: get)
  show "\<And>j. j \<noteq> i \<Longrightarrow> ceiling_of (vi_out st') j = ceiling_of (vi_out st) j" by (simp add: get)
qed

lemma finish_pack_Ok:
  assumes inv: "visit_inv P dir limit st" and new: "i \<notin> set (pack_ids (vi_out st))" and limit: "ceil |\<subseteq>| limit"
    and fetch: "fetch_pack dir i = Ok pack" and imps: "typed_imports P pack = Ok imps"
    and deps: "\<And>im. im \<in> set imps \<Longrightarrow> im_content im \<in> set (pack_ids (vi_out st)) \<and> import_ok (vi_out st) im"
  shows "visit_inv P dir limit (finish_pack i ceil pack st)" "shrinks (vi_out st) (vi_out (finish_pack i ceil pack st))"
    "ceiling_of (vi_out (finish_pack i ceil pack st)) i = Some ceil"
proof -
  let ?st = "finish_pack i ceil pack st" and ?out = "vi_out st"
  have c: "closure_ok P dir limit ?out" using inv by (simp add: visit_inv_def)
  have get: "ceiling_of (vi_out ?st) j = (if j = i then Some ceil else ceiling_of ?out j)" for j
    by (simp add: finish_pack_def ceiling_of_def)
  have packs: "rp_packs (vi_out ?st) = rp_packs ?out @ [(i, pack)]" "pack_ids (vi_out ?st) = pack_ids ?out @ [i]"
    by (simp_all add: finish_pack_def pack_ids_def)
  have none: "ceiling_of ?out i = None" using ceiling_of_dom [OF c, of i] new by (cases "ceiling_of ?out i") auto
  show sh: "shrinks ?out (vi_out ?st)" using none by (auto simp: shrinks_def get packs)
  have "list_all (\<lambda>c. c |\<subseteq>| limit) (bt_values (rp_ceilings (vi_out ?st)))"
    unfolding values_all get using limit ceiling_of_top [OF c] by simp
  moreover have "set (bt_keys (rp_ceilings (vi_out ?st))) = set (pack_ids (vi_out ?st))"
    using c get by (auto simp: closure_ok_def set_bt_keys packs ceiling_of_def dom_def split: if_splits)
  moreover have "entry_ok P dir (vi_out ?st) (pack_ids ?out) (i, pack)"
    using fetch imps deps shrinks_import [OF sh] by (simp add: entry_ok_def list_all_iff)
  moreover have "length (pack_ids ?out) = length (rp_packs ?out)" by (simp add: pack_ids_def)
  ultimately have "closure_ok P dir limit (vi_out ?st)"
    using c new shrinks_entry [OF sh] by (auto simp: closure_ok_def packs list_all_iff nth_append less_Suc_eq)
  then show "visit_inv P dir limit ?st" using inv by (auto simp: visit_inv_def packs finish_pack_def pack_ids_def)
  show "ceiling_of (vi_out ?st) i = Some ceil" by (simp add: get)
qed

section \<open>The recursion\<close>

definition pack_visited ::
  "'s pack_codec \<Rightarrow> 's pack_dir \<Rightarrow> 's fset \<Rightarrow> content_id list \<Rightarrow> ('s::linorder) pack_visit_state \<Rightarrow> 's pack_visit_state \<Rightarrow> bool" where
  "pack_visited P dir limit stack st st' \<longleftrightarrow>
     visit_inv P dir limit st' \<and> shrinks (vi_out st) (vi_out st')
     \<and> (\<forall>x \<in> set stack. x |\<in>| vi_done st' \<longrightarrow> x |\<in>| vi_done st)"

lemma pack_visited_refl: "visit_inv P dir limit st \<Longrightarrow> pack_visited P dir limit stack st st"
  by (simp add: pack_visited_def)

lemma pack_visited_trans:
  assumes "pack_visited P dir limit stack a b" "pack_visited P dir limit stack b c" shows "pack_visited P dir limit stack a c"
proof -
  have "shrinks (vi_out a) (vi_out c)" using assms shrinks_trans unfolding pack_visited_def by blast
  then show ?thesis using assms unfolding pack_visited_def by blast
qed

lemma enter_alias_Ok:
  "enter_alias im st = Ok st' \<Longrightarrow> vi_out st' = vi_out st \<and> vi_done st' = vi_done st"
  by (auto simp: enter_alias_def split: option.splits if_splits)

lemma visit_imports:
  assumes step: "\<And>st st' im. im \<in> set imps \<Longrightarrow> visit_inv P dir limit st \<Longrightarrow> f st im = Ok st' \<Longrightarrow>
      pack_visited P dir limit stack st st' \<and> import_ok (vi_out st') im"
    and "try_fold f st imps = Ok st'" "visit_inv P dir limit st"
  shows "pack_visited P dir limit stack st st' \<and> (\<forall>im \<in> set imps. import_ok (vi_out st') im)"
  using assms
proof (induction imps arbitrary: st)
  case Nil
  then show ?case by (simp add: pack_visited_refl)
next
  case (Cons im imps)
  from Cons.prems(2) obtain st1 where st1: "f st im = Ok st1" and rest: "try_fold f st1 imps = Ok st'"
    by (auto simp: bind_o_Ok)
  have first: "pack_visited P dir limit stack st st1" "import_ok (vi_out st1) im"
    using Cons.prems(1) [of im st st1] Cons.prems(3) st1 by auto
  have inv: "visit_inv P dir limit st1" using first(1) by (simp add: pack_visited_def)
  have later: "pack_visited P dir limit stack st1 st' \<and> (\<forall>im \<in> set imps. import_ok (vi_out st') im)"
    by (rule Cons.IH [OF _ rest inv]) (rule Cons.prems(1), simp_all)
  then have "import_ok (vi_out st') im" using shrinks_import first(2) unfolding pack_visited_def by blast
  then show ?case using later pack_visited_trans [OF first(1)] by auto
qed

lemma import_ok_member: "visit_inv P dir limit st \<Longrightarrow> import_ok (vi_out st) im \<Longrightarrow> im_content im \<in> set (pack_ids (vi_out st))"
  using ceiling_of_dom unfolding visit_inv_def import_ok_iff by blast

declare pack_visit.simps(2) [simp del]

lemma pack_visit_Ok:
  "pack_visit n P dir i ceil stack st = Ok st' \<Longrightarrow> visit_inv P dir limit st \<Longrightarrow> ceil |\<subseteq>| limit \<Longrightarrow>
     pack_visited P dir limit stack st st' \<and> (\<exists>c. ceiling_of (vi_out st') i = Some c \<and> c |\<subseteq>| ceil)"
proof (induction n arbitrary: i ceil stack st st')
  case (Suc n)
  note run = Suc.prems(1) [unfolded pack_visit.simps(2)] and inv = Suc.prems(2) and ceil = Suc.prems(3)
  from run have fresh: "i \<notin> set stack" by (auto split: if_splits)
  show ?case
  proof (cases "i |\<in>| vi_done st")
    case True
    then have "narrow_done i ceil st = Ok st'" using run fresh by simp
    from narrow_done_Ok [OF inv this] show ?thesis by (auto simp: pack_visited_def)
  next
    case False
    let ?body = "\<lambda>st im. bind_o (enter_alias im st) (\<lambda>st.
         pack_visit n P dir (im_content im) (ceil |\<inter>| im_ceiling im) (stack @ [i]) st)"
    from run fresh False obtain pack imps st1 where p: "fetch_pack dir i = Ok pack" "typed_imports P pack = Ok imps"
      and loop: "try_fold ?body st imps = Ok st1" and st': "st' = finish_pack i ceil pack st1"
      by (auto simp: bind_o_Ok)
    have step: "pack_visited P dir limit (stack @ [i]) a b \<and> import_ok (vi_out b) im"
      if "visit_inv P dir limit a" "?body a im = Ok b" for a b im
    proof -
      from that(2) obtain a' where a': "enter_alias im a = Ok a'"
        and v: "pack_visit n P dir (im_content im) (ceil |\<inter>| im_ceiling im) (stack @ [i]) a' = Ok b"
        by (auto simp: bind_o_Ok)
      have same: "vi_out a' = vi_out a" "vi_done a' = vi_done a" using enter_alias_Ok [OF a'] by auto
      have inv': "visit_inv P dir limit a'" using that(1) same by (simp add: visit_inv_def)
      have "pack_visited P dir limit (stack @ [i]) a' b"
        and "\<exists>c. ceiling_of (vi_out b) (im_content im) = Some c \<and> c |\<subseteq>| ceil |\<inter>| im_ceiling im"
        using Suc.IH [OF v inv'] ceil by auto
      then show ?thesis using same unfolding pack_visited_def import_ok_iff by fastforce
    qed
    have vis: "pack_visited P dir limit (stack @ [i]) st st1" and ims: "\<And>im. im \<in> set imps \<Longrightarrow> import_ok (vi_out st1) im"
      using visit_imports [where f = ?body, OF step loop inv] by auto
    have inv1: "visit_inv P dir limit st1" using vis by (simp add: pack_visited_def)
    have new: "i \<notin> set (pack_ids (vi_out st1))"
      using vis False inv1 by (auto simp: pack_visited_def visit_inv_def)
    have deps: "im_content im \<in> set (pack_ids (vi_out st1)) \<and> import_ok (vi_out st1) im" if "im \<in> set imps" for im
      using import_ok_member [OF inv1] ims that by blast
    note fin = finish_pack_Ok [OF inv1 new ceil p deps]
    have "shrinks (vi_out st) (vi_out st')" using shrinks_trans vis fin(2) st' unfolding pack_visited_def by blast
    moreover have "x |\<in>| vi_done st" if "x \<in> set stack" "x |\<in>| vi_done st'" for x
      using that vis fresh by (auto simp: st' finish_pack_def pack_visited_def)
    ultimately have "pack_visited P dir limit stack st st'" using fin(1) st' by (simp add: pack_visited_def)
    then show ?thesis using fin(3) st' by auto
  qed
qed simp

lemma pack_resolve_Ok:
  assumes "pack_resolve n P dir root ceil = Ok out"
  shows "closure_ok P dir ceil out" "root \<in> set (pack_ids out)"
proof -
  let ?st = "\<lparr>vi_done = {||}, vi_aliases = bt_empty,
        vi_out = \<lparr>rp_root = root, rp_packs = [], rp_ceilings = bt_empty\<rparr>\<rparr>"
  from assms obtain st where v: "pack_visit n P dir root ceil [] ?st = Ok st" and out: "out = vi_out st"
    by (auto simp: pack_resolve_def bind_o_Ok)
  have "visit_inv P dir ceil ?st"
    by (simp add: visit_inv_def closure_ok_def pack_ids_def bt_keys_def bt_values_def)
  from pack_visit_Ok [OF v this] have st: "visit_inv P dir ceil st" "\<exists>c. ceiling_of (vi_out st) root = Some c"
    by (auto simp: pack_visited_def)
  then show c: "closure_ok P dir ceil out" using out by (simp add: visit_inv_def)
  show "root \<in> set (pack_ids out)" using st(2) out ceiling_of_dom [OF c] by auto
qed

section \<open>Termination\<close>

text \<open>What the recursion needs of the codec: decoding a field returns.\<close>

definition codec_total :: "'s pack_codec \<Rightarrow> bool" where
  "codec_total P \<longleftrightarrow>
     (\<forall>e f. returns (dec_symbol (pc_fields P) e f) \<and> returns (dec_string (pc_fields P) e f)
        \<and> returns (dec_symbols (pc_fields P) e f))"

lemma parse_total:
  assumes "codec_total P"
  shows "returns (parse_import P e)" "returns (parse_library P e)" "returns (parse_claim P e)" "returns (parse_output P e)"
    "returns (parse_surface P e)" "returns (parse_specimen P e)" "returns (parse_fallback P e)"
proof -
  have "returns (parse_list e n k)" for e :: "'a expr" and n k by (simp add: parse_list_def split: expr.splits)
  moreover have "returns (parse_text P e f)" "returns (parse_sym P e f)" "returns (parse_syms P e f)" for e f
    using assms by (auto simp: codec_total_def parse_text_def parse_sym_def parse_syms_def)
  moreover have "returns (content_parse v)" for v by (simp add: content_parse_def Let_def)
  ultimately show "returns (parse_import P e)" "returns (parse_library P e)" "returns (parse_claim P e)" "returns (parse_output P e)"
    "returns (parse_surface P e)" "returns (parse_specimen P e)" "returns (parse_fallback P e)"
    by (auto simp: parse_import_def parse_library_def parse_claim_def parse_output_def parse_surface_def
        parse_specimen_def parse_fallback_def)
qed

lemma typed_total:
  assumes "codec_total P"
  shows "returns (typed_imports P pack)" "returns (typed_libraries P pack)" "returns (typed_claims P pack)"
    "returns (typed_outputs P pack)" "returns (typed_surfaces P pack)" "returns (typed_specimens P pack)"
    "returns (typed_fallbacks P pack)"
  by (simp_all add: typed_imports_def typed_libraries_def typed_claims_def typed_outputs_def typed_surfaces_def
      typed_specimens_def typed_fallbacks_def returns_collect parse_total [OF assms])

lemma fetch_pack_total: "fetch_pack dir i \<noteq> Panic" "fetch_pack dir i \<noteq> Diverge"
  by (auto simp: fetch_pack_def content_parse_def Let_def bind_o_Panic bind_o_Diverge split: prod.splits if_splits)

lemma fetch_pack_dom: "fetch_pack dir i = Ok pack \<Longrightarrow> dir i \<noteq> None"
  by (auto simp: fetch_pack_def bind_o_Ok)

text \<open>Every nested visit adds another pack of the directory to the path.\<close>

lemma pack_visit_returns:
  fixes P :: "('s::linorder) pack_codec"
  assumes "codec_total P" "finite D" "\<And>i. dir i \<noteq> None \<Longrightarrow> i \<in> D"
  shows "distinct stack \<Longrightarrow> set stack \<subseteq> D \<Longrightarrow> card D < n + length stack \<Longrightarrow>
    pack_visit n P dir i ceil stack st \<noteq> Diverge"
proof (induction n arbitrary: i ceil stack st)
  case 0
  then show ?case using distinct_card [of stack] card_mono [OF assms(2), of "set stack"] by simp
next
  case (Suc n)
  have inner: "try_fold (\<lambda>st im. bind_o (enter_alias im st) (\<lambda>st.
         pack_visit n P dir (im_content im) (ceil |\<inter>| im_ceiling im) (stack @ [i]) st)) st imps \<noteq> Diverge"
    if "i \<notin> set stack" "fetch_pack dir i = Ok pack" for imps pack
  proof (rule try_fold_no_Diverge)
    fix s and im :: "'s pack_import"
    have "i \<in> D" using assms(3) fetch_pack_dom [OF that(2)] by blast
    then have "pack_visit n P dir (im_content im) (ceil |\<inter>| im_ceiling im) (stack @ [i]) s' \<noteq> Diverge" for s'
      using Suc.prems that(1) by (intro Suc.IH) auto
    moreover have "enter_alias im s \<noteq> Diverge" by (auto simp: enter_alias_def split: option.splits)
    ultimately show "bind_o (enter_alias im s) (\<lambda>st.
         pack_visit n P dir (im_content im) (ceil |\<inter>| im_ceiling im) (stack @ [i]) st) \<noteq> Diverge"
      by (auto simp: bind_o_Diverge)
  qed
  have "narrow_done i ceil st \<noteq> Diverge" by (simp add: narrow_done_def bind_o_Diverge)
  moreover have "fetch_pack dir i \<noteq> Diverge" "typed_imports P pack \<noteq> Diverge" for pack
    using fetch_pack_total(2) [of dir i] typed_total(1) [OF assms(1), of pack] by (auto simp: returns_def)
  ultimately show ?case
    using inner by (auto simp: pack_visit.simps(2) bind_o_Diverge)
qed

lemma pack_visit_no_Panic:
  assumes "codec_total P"
  shows "visit_inv P dir limit st \<Longrightarrow> ceil |\<subseteq>| limit \<Longrightarrow> pack_visit n P dir i ceil stack st \<noteq> Panic"
proof (induction n arbitrary: i ceil stack st)
  case (Suc n)
  have known: "narrow_done i ceil st \<noteq> Panic" if "i |\<in>| vi_done st"
  proof -
    have "i \<in> set (pack_ids (vi_out st))" "closure_ok P dir limit (vi_out st)" using Suc.prems(1) that by (auto simp: visit_inv_def)
    then obtain c where "ceiling_of (vi_out st) i = Some c" using ceiling_of_dom by blast
    then show ?thesis by (simp add: narrow_done_def ceiling_of_def)
  qed
  have inner: "try_fold (\<lambda>st im. bind_o (enter_alias im st) (\<lambda>st.
         pack_visit n P dir (im_content im) (ceil |\<inter>| im_ceiling im) (stack @ [i]) st)) st imps \<noteq> Panic" for imps
  proof (rule try_fold_no_Panic [where I = "visit_inv P dir limit"])
    fix s im assume inv: "visit_inv P dir limit s"
    have entered: "visit_inv P dir limit s'" if "enter_alias im s = Ok s'" for s'
      using inv enter_alias_Ok [OF that] by (simp add: visit_inv_def)
    have small: "ceil |\<inter>| im_ceiling im |\<subseteq>| limit" using Suc.prems(2) by auto
    have "enter_alias im s \<noteq> Panic" by (auto simp: enter_alias_def split: option.splits)
    then show "bind_o (enter_alias im s) (\<lambda>st.
         pack_visit n P dir (im_content im) (ceil |\<inter>| im_ceiling im) (stack @ [i]) st) \<noteq> Panic"
      using Suc.IH [OF entered small] by (auto simp: bind_o_Panic)
    fix t assume "bind_o (enter_alias im s) (\<lambda>st.
         pack_visit n P dir (im_content im) (ceil |\<inter>| im_ceiling im) (stack @ [i]) st) = Ok t"
    then show "visit_inv P dir limit t"
      using pack_visit_Ok [OF _ entered small] by (auto simp: bind_o_Ok pack_visited_def)
  qed (rule Suc.prems(1))
  have "fetch_pack dir i \<noteq> Panic" "typed_imports P pack \<noteq> Panic" for pack
    using fetch_pack_total(1) [of dir i] typed_total(1) [OF assms, of pack] by (auto simp: returns_def)
  then show ?case using inner known by (auto simp: pack_visit.simps(2) bind_o_Panic)
qed simp

section \<open>Validation\<close>

lemma check_pack_parts:
  assumes "check_pack P C out pf (i, pack) = Ok pf'"
  obtains libs claims outs where "typed_libraries P pack = Ok libs" "typed_claims P pack = Ok claims"
    "typed_outputs P pack = Ok outs" "\<And>l. l \<in> set libs \<Longrightarrow> check_library C l = Ok ()"
    "\<And>c. c \<in> set claims \<Longrightarrow> check_pack_claim out i libs c = Ok ()"
    "try_fold (add_output libs) (pf_outputs pf) outs = Ok (pf_outputs pf')"
    "pf_libraries pf' = pf_libraries pf @ libs"
  using assms by (auto simp: check_pack_def Let_def bind_o_Ok for_each_Ok)

lemma add_outputs_Ok:
  "try_fold (add_output libs) m outs = Ok m' \<Longrightarrow>
     distinct (map po_name outs) \<and> po_name ` set outs \<inter> dom (bt_get m) = {}
     \<and> dom (bt_get m') = dom (bt_get m) \<union> po_name ` set outs"
proof (induction outs arbitrary: m)
  case (Cons out outs)
  then obtain m1 where step: "add_output libs m out = Ok m1" and rest: "try_fold (add_output libs) m1 outs = Ok m'"
    by (auto simp: bind_o_Ok)
  then have "po_name out \<notin> dom (bt_get m)" "dom (bt_get m1) = insert (po_name out) (dom (bt_get m))"
    by (auto simp: add_output_def bt_contains_def split: if_splits)
  with Cons.IH [OF rest] show ?case by auto
qed simp

text \<open>All outputs and all libraries of a closure, in its order.\<close>

definition outputs_of :: "'s pack_codec \<Rightarrow> 's capability_pack \<Rightarrow> 's pack_output list" where
  "outputs_of P pack = (case typed_outputs P pack of Ok os \<Rightarrow> os | _ \<Rightarrow> [])"

definition libraries_of :: "'s pack_codec \<Rightarrow> 's capability_pack \<Rightarrow> 's library_spec list" where
  "libraries_of P pack = (case typed_libraries P pack of Ok ls \<Rightarrow> ls | _ \<Rightarrow> [])"

definition claims_of :: "'s pack_codec \<Rightarrow> 's capability_pack \<Rightarrow> 's pack_claim list" where
  "claims_of P pack = (case typed_claims P pack of Ok cs \<Rightarrow> cs | _ \<Rightarrow> [])"

lemma check_packs_Ok:
  assumes "try_fold (check_pack P C out) pf packs = Ok pf'"
  shows "pf_libraries pf' = pf_libraries pf @ concat (map (\<lambda>e. libraries_of P (snd e)) packs)"
    and "distinct (map po_name (concat (map (\<lambda>e. outputs_of P (snd e)) packs)))"
    and "po_name ` set (concat (map (\<lambda>e. outputs_of P (snd e)) packs)) \<inter> dom (bt_get (pf_outputs pf)) = {}"
  using assms
proof (induction packs arbitrary: pf)
  case (Cons e packs)
  case 1
  then obtain pf1 where step: "check_pack P C out pf (fst e, snd e) = Ok pf1"
    and rest: "try_fold (check_pack P C out) pf1 packs = Ok pf'" by (auto simp: bind_o_Ok)
  obtain libs where "typed_libraries P (snd e) = Ok libs" "pf_libraries pf1 = pf_libraries pf @ libs"
    by (rule check_pack_parts [OF step])
  then show ?case using Cons.IH(1) [OF rest] by (simp add: libraries_of_def)
next
  case (Cons e packs)
  case 2
  then obtain pf1 where step: "check_pack P C out pf (fst e, snd e) = Ok pf1"
    and rest: "try_fold (check_pack P C out) pf1 packs = Ok pf'" by (auto simp: bind_o_Ok)
  obtain libs outs where o: "typed_outputs P (snd e) = Ok outs"
    and "try_fold (add_output libs) (pf_outputs pf) outs = Ok (pf_outputs pf1)" by (rule check_pack_parts [OF step])
  from add_outputs_Ok [OF this(2)] show ?case
    using Cons.IH(2,3) [OF rest] by (auto simp: outputs_of_def o)
next
  case (Cons e packs)
  case 3
  then obtain pf1 where step: "check_pack P C out pf (fst e, snd e) = Ok pf1"
    and rest: "try_fold (check_pack P C out) pf1 packs = Ok pf'" by (auto simp: bind_o_Ok)
  obtain libs outs where o: "typed_outputs P (snd e) = Ok outs"
    and "try_fold (add_output libs) (pf_outputs pf) outs = Ok (pf_outputs pf1)" by (rule check_pack_parts [OF step])
  from add_outputs_Ok [OF this(2)] show ?case
    using Cons.IH(3) [OF rest] by (auto simp: outputs_of_def o)
qed simp_all

lemma validate_packs:
  assumes "pack_validate K P out C = Ok vp"
  obtains pf where "try_fold (check_pack P C out) \<lparr>pf_libraries = [], pf_outputs = bt_empty, pf_outcomes = {||}, pf_fallback = False\<rparr>
      (rp_packs out) = Ok pf" "vp_resolved vp = out" "vp_libraries vp = pf_libraries pf"
  using assms by (auto simp: pack_validate_def bind_o_Ok split: if_splits)

lemma validate_member:
  assumes "pack_validate K P out C = Ok vp" "(i, pack) \<in> set (rp_packs out)"
  shows "l \<in> set (libraries_of P pack) \<Longrightarrow> check_library C l = Ok ()"
    and "c \<in> set (claims_of P pack) \<Longrightarrow> check_pack_claim out i (libraries_of P pack) c = Ok ()"
proof -
  obtain pf where run: "try_fold (check_pack P C out) \<lparr>pf_libraries = [], pf_outputs = bt_empty, pf_outcomes = {||}, pf_fallback = False\<rparr>
      (rp_packs out) = Ok pf" by (rule validate_packs [OF assms(1)])
  obtain pf1 pf2 where "check_pack P C out pf1 (i, pack) = Ok pf2"
    by (rule try_fold_split [OF run assms(2)])
  then show "l \<in> set (libraries_of P pack) \<Longrightarrow> check_library C l = Ok ()"
    and "c \<in> set (claims_of P pack) \<Longrightarrow> check_pack_claim out i (libraries_of P pack) c = Ok ()"
    by (auto elim!: check_pack_parts simp: libraries_of_def claims_of_def)
qed

lemma pack_validate_returns:
  assumes "codec_total P" "closure_ok P dir limit out"
  shows "returns (pack_validate K P out C)"
proof -
  have member: "i \<in> set (pack_ids out)" if "(i, pack) \<in> set (rp_packs out)" for i pack
    using that by (force simp: pack_ids_def)
  have "returns (check_pack_claim out i libs c)" if i: "i \<in> set (pack_ids out)" for i libs c
  proof -
    obtain ceil where "ceiling_of out i = Some ceil" using ceiling_of_dom [OF assms(2)] i by blast
    then show ?thesis by (simp add: check_pack_claim_def ceiling_of_def)
  qed
  then have "returns (check_pack P C out pf e)" if "e \<in> set (rp_packs out)" for pf e
    using typed_total [OF assms(1)] member [of "fst e" "snd e"] that
    by (auto simp: check_pack_def Let_def check_library_def check_surface_def add_output_def
        intro!: returns_for_each returns_try_fold)
  then show ?thesis
    unfolding pack_validate_def by (intro returns_bind returns_try_fold returns_for_each) auto
qed

section \<open>Loading\<close>

lemma load_each_Ok:
  "load_each host h loaded libs = (Ok out, h') \<Longrightarrow> out = loaded @ map lb_id libs"
  by (induction libs arbitrary: h loaded) (fastforce split: prod.splits outcome.splits)+

lemma pack_roundtrip:
  assumes "field_codec_ok F" "pk_version pack = 1"
  shows "decode_pack show_error F (pk_version pack) (encode_pack F pack) = Ok pack"
  using assms by (simp add: decode_pack_def encode_pack_def pack_encode_field_def pack_decode_field_def field_codec_ok_def)

end
