(* ===== verification/Pack_Theorems.thy ===== *)
theory Pack_Theorems
  imports Pack_Facts Kernel_Samples
begin

text \<open>
  The properties of \<open>sim-lib-capability-pack\<close>. The sample directory holds four packs: the root
  imports \<open>a\<close> and \<open>b\<close>, \<open>b\<close> imports \<open>a\<close> again with a smaller ceiling, and \<open>a\<close> imports \<open>c\<close>.
\<close>

section \<open>Samples\<close>

type_synonym psym = "string list"

fun sample_dec_symbol :: "psym expr \<Rightarrow> string \<Rightarrow> (kernel_error, psym) outcome" where
  "sample_dec_symbol (ESymbol s) f = Ok s"
| "sample_dec_symbol e f = Err (EvalError f)"

fun sample_dec_string :: "psym expr \<Rightarrow> string \<Rightarrow> (kernel_error, string) outcome" where
  "sample_dec_string (EString s) f = Ok s"
| "sample_dec_string e f = Err (EvalError f)"

fun sample_dec_symbols :: "psym expr \<Rightarrow> string \<Rightarrow> (kernel_error, psym list) outcome" where
  "sample_dec_symbols (EList es) f = collect_o (\<lambda>e. sample_dec_symbol e f) es"
| "sample_dec_symbols e f = Err (EvalError f)"

definition sample_fields :: "(psym, unit) field_codec" where
  "sample_fields =
     \<lparr>enc_symbol = ESymbol, dec_symbol = sample_dec_symbol, enc_u64 = (\<lambda>_. ENil), dec_u64 = (\<lambda>_ f. Err (EvalError f)),
      enc_bool = EBool, dec_bool = (\<lambda>_ f. Err (EvalError f)), enc_string = EString, dec_string = sample_dec_string,
      enc_symbols = (\<lambda>ss. EList (map ESymbol ss)), dec_symbols = sample_dec_symbols, enc_exprs = EList,
      dec_exprs = (\<lambda>_ f. Err (EvalError f)), enc_opt_symbol = (\<lambda>_. ENil), dec_opt_symbol = (\<lambda>_ f. Err (EvalError f)),
      enc_opt = (\<lambda>_ _. ENil), dec_opt = (\<lambda>_ _ f. Err (EvalError f))\<rparr>"

definition sample_pcodec :: "psym pack_codec" where
  "sample_pcodec = \<lparr>pc_fields = sample_fields, pc_show_error = (\<lambda>_. ''error'')\<rparr>"

lemma sample_pcodec_total: "codec_total sample_pcodec"
proof -
  have "returns (sample_dec_symbol e f)" for e f by (cases e) simp_all
  moreover have "returns (sample_dec_string e f)" for e f by (cases e) simp_all
  ultimately have "returns (sample_dec_symbols e f)" for e f by (cases e) (auto intro: returns_collect)
  with \<open>\<And>e f. returns (sample_dec_symbol e f)\<close> \<open>\<And>e f. returns (sample_dec_string e f)\<close>
  show ?thesis by (simp add: codec_total_def sample_pcodec_def sample_fields_def)
qed

definition sample_id :: "char \<Rightarrow> content_id" where
  "sample_id c = ''sha256:'' @ replicate 64 c"

definition sample_import :: "char \<Rightarrow> psym list \<Rightarrow> psym expr" where
  "sample_import c ceil = EList [ESymbol [[c]], EString (sample_id c), EList (map ESymbol ceil)]"

definition sample_library :: "string \<Rightarrow> psym expr" where
  "sample_library n = EList [ESymbol [n], ESymbol [''route''], ESymbol [''shape''], EList []]"

definition sample_claim :: "string \<Rightarrow> string \<Rightarrow> psym expr" where
  "sample_claim n cap = EList [ESymbol [''claim''], ESymbol [cap], ESymbol [n]]"

definition sample_pack :: "char \<Rightarrow> psym expr list \<Rightarrow> psym capability_pack" where
  "sample_pack c imps = capability_pack_default\<lparr>pk_content := sample_id c, pk_imports := imps\<rparr>"

definition sample_leaf :: "psym capability_pack" where
  "sample_leaf = (sample_pack (CHR ''c'') [])
     \<lparr>pk_libraries := [sample_library ''lib''], pk_claims := [sample_claim ''lib'' ''write''],
      pk_outputs := [EList [ESymbol [''out''], ESymbol [''lib'']]],
      pk_specimens := [EList [ESymbol [''s''], ESymbol [''success'']], EList [ESymbol [''r''], ESymbol [''refusal'']]],
      pk_fallbacks := [EList [ESymbol [''w''], EString ''call the operator'']]\<rparr>"

definition sample_dir :: "psym expr list \<Rightarrow> psym pack_dir" where
  "sample_dir root_imports = map_of (map (\<lambda>(c, p). (sample_id c, (sample_id c, p)))
     [(CHR ''d'', sample_pack (CHR ''d'') root_imports),
      (CHR ''a'', sample_pack (CHR ''a'') [sample_import (CHR ''c'') [[''read''], [''write'']]]),
      (CHR ''b'', sample_pack (CHR ''b'') [sample_import (CHR ''a'') [[''read'']]]),
      (CHR ''c'', sample_leaf)])"

definition import_a :: "psym expr" where
  "import_a = sample_import (CHR ''a'') [[''read''], [''write'']]"

definition import_b :: "psym expr" where
  "import_b = sample_import (CHR ''b'') [[''read''], [''write'']]"

definition sample_resolve :: "psym expr list \<Rightarrow> (psym resolve_error, psym resolved_pack) outcome" where
  "sample_resolve imps = pack_resolve 5 sample_pcodec (sample_dir imps) (sample_id (CHR ''d'')) {|[''read''], [''write'']|}"

definition sample_catalog :: "psym catalog" where
  "sample_catalog = \<lparr>has_route = (\<lambda>_. True), has_shape = (\<lambda>_. True), catalog_effects = (\<lambda>_. Some {||}), has_disclosure = (\<lambda>_. True)\<rparr>"

definition sample_validate :: "psym expr list \<Rightarrow> (psym validation_error, psym validated_pack) outcome" where
  "sample_validate imps =
     (case sample_resolve imps of
        Ok out \<Rightarrow> pack_validate sample_kernel sample_pcodec out sample_catalog
      | _ \<Rightarrow> Err VMissingFallback)"

lemma sample_resolves:
  "\<exists>out. sample_resolve [import_a, import_b] = Ok out \<and> pack_ids out = map sample_id ''cabd''"
  by (rule Ok_cases_intro) code_simp

lemma sample_validates:
  "\<exists>vp. sample_validate [import_a, import_b] = Ok vp \<and> map lb_id (vp_libraries vp) = [[''lib'']]"
  by (rule Ok_cases_intro) code_simp

section \<open>Properties\<close>

text \<open>
  C37: Resolution is sound. A resolved closure lists each pack once, after everything it imports,
  with the content the directory holds under its identity; it gives exactly the listed packs a
  ceiling, every ceiling is within the caller's, and the ceiling of an imported pack is within what
  each of its importers allows. The root is part of it.
\<close>
theorem pack_resolution_sound:
  assumes "pack_resolve n P dir root ceil = Ok out"
  shows "closure_ok P dir ceil out \<and> root \<in> set (pack_ids out)"
  using pack_resolve_Ok [OF assms] by simp

theorem pack_resolution_sound_witness:
  "\<exists>out. closure_ok sample_pcodec (sample_dir [import_a, import_b]) {|[''read''], [''write'']|} out
     \<and> pack_ids out = map sample_id ''cabd''"
  using sample_resolves pack_resolution_sound unfolding sample_resolve_def by blast

text \<open>
  C38: Resolution returns. When the directory holds finitely many packs, as many nested visits as it
  has packs and one more suffice: resolution ends with a closure or an error and does not panic.
\<close>
theorem pack_resolution_returns:
  assumes "codec_total P" "finite D" "\<And>i. dir i \<noteq> None \<Longrightarrow> i \<in> D" "card D < n"
  shows "returns (pack_resolve n P dir root ceil)"
proof -
  let ?st = "\<lparr>vi_done = {||}, vi_aliases = bt_empty,
        vi_out = \<lparr>rp_root = root, rp_packs = [], rp_ceilings = bt_empty\<rparr>\<rparr>"
  have "visit_inv P dir ceil ?st"
    by (simp add: visit_inv_def closure_ok_def pack_ids_def bt_keys_def bt_values_def)
  then have "pack_visit n P dir root ceil [] ?st \<noteq> Panic" by (rule pack_visit_no_Panic [OF assms(1)]) simp
  moreover have "pack_visit n P dir root ceil [] ?st \<noteq> Diverge"
    using assms(4) by (intro pack_visit_returns [OF assms(1-3)]) auto
  ultimately show ?thesis unfolding pack_resolve_def by (intro returns_bind) (auto simp: returns_def)
qed

theorem pack_resolution_returns_witness:
  "returns (pack_resolve 5 sample_pcodec (sample_dir [import_a, import_b]) (sample_id (CHR ''d'')) {||})"
proof (rule pack_resolution_returns [OF sample_pcodec_total, where D = "set (map sample_id ''dabc'')"])
  fix i assume "sample_dir [import_a, import_b] i \<noteq> None"
  then show "i \<in> set (map sample_id ''dabc'')" by (auto simp: sample_dir_def split: if_splits)
next
  show "card (set (map sample_id ''dabc'')) < 5"
    using card_length [of "map sample_id ''dabc''"] by simp
qed simp

text \<open>
  C39: What validation admits is bounded and consistent. In a validated closure every capability a
  pack claims is within the pack's ceiling and so within the caller's; every library is routed,
  shaped and has exactly the effects the catalog records; no output name is supplied twice; and the
  libraries to load are those of the packs in dependency order. Validating a resolved closure does
  not panic.
\<close>
theorem pack_validation_sound:
  assumes "pack_resolve n P dir root ceil = Ok out"
  shows "(codec_total P \<longrightarrow> returns (pack_validate K P out C))
    \<and> (\<forall>vp. pack_validate K P out C = Ok vp \<longrightarrow>
        (\<forall>(i, pack) \<in> set (rp_packs out).
           (\<forall>c \<in> set (claims_of P pack). pc_capability c |\<in>| ceil
              \<and> (\<exists>own. ceiling_of out i = Some own \<and> pc_capability c |\<in>| own))
           \<and> (\<forall>l \<in> set (libraries_of P pack). has_route C (lb_route l) \<and> has_shape C (lb_shape l)
              \<and> catalog_effects C (lb_route l) = Some (lb_effects l)))
        \<and> distinct (map po_name (concat (map (\<lambda>e. outputs_of P (snd e)) (rp_packs out))))
        \<and> vp_libraries vp = concat (map (\<lambda>e. libraries_of P (snd e)) (rp_packs out)))"
proof (intro conjI allI impI)
  have closed: "closure_ok P dir ceil out" using pack_resolve_Ok [OF assms] by simp
  show "returns (pack_validate K P out C)" if "codec_total P" using pack_validate_returns [OF that closed] .
  fix vp assume ok: "pack_validate K P out C = Ok vp"
  show "\<forall>(i, pack) \<in> set (rp_packs out).
           (\<forall>c \<in> set (claims_of P pack). pc_capability c |\<in>| ceil
              \<and> (\<exists>own. ceiling_of out i = Some own \<and> pc_capability c |\<in>| own))
           \<and> (\<forall>l \<in> set (libraries_of P pack). has_route C (lb_route l) \<and> has_shape C (lb_shape l)
              \<and> catalog_effects C (lb_route l) = Some (lb_effects l))"
  proof (clarify, intro conjI ballI)
    fix i pack c assume "(i, pack) \<in> set (rp_packs out)" "c \<in> set (claims_of P pack)"
    from validate_member(2) [OF ok this] obtain own where own: "ceiling_of out i = Some own" "pc_capability c |\<in>| own"
      by (auto simp: check_pack_claim_def bind_o_Ok ceiling_of_def split: if_splits)
    then show "\<exists>own. ceiling_of out i = Some own \<and> pc_capability c |\<in>| own" by blast
    show "pc_capability c |\<in>| ceil" using ceiling_of_top [OF closed own(1)] own(2) by auto
  next
    fix i pack l assume "(i, pack) \<in> set (rp_packs out)" "l \<in> set (libraries_of P pack)"
    from validate_member(1) [OF ok this] show "has_route C (lb_route l)" "has_shape C (lb_shape l)"
      "catalog_effects C (lb_route l) = Some (lb_effects l)" by (auto simp: check_library_def split: if_splits)
  qed
  obtain pf where run: "try_fold (check_pack P C out) \<lparr>pf_libraries = [], pf_outputs = bt_empty, pf_outcomes = {||}, pf_fallback = False\<rparr>
      (rp_packs out) = Ok pf" and libs: "vp_libraries vp = pf_libraries pf" by (rule validate_packs [OF ok])
  show "distinct (map po_name (concat (map (\<lambda>e. outputs_of P (snd e)) (rp_packs out))))"
    by (rule check_packs_Ok(2) [OF run])
  show "vp_libraries vp = concat (map (\<lambda>e. libraries_of P (snd e)) (rp_packs out))"
    using check_packs_Ok(1) [OF run] libs by simp
qed

theorem pack_validation_sound_witness:
  "\<exists>out vp. sample_resolve [import_a, import_b] = Ok out
     \<and> pack_validate sample_kernel sample_pcodec out sample_catalog = Ok vp
     \<and> vp_libraries vp = concat (map (\<lambda>e. libraries_of sample_pcodec (snd e)) (rp_packs out))"
proof -
  obtain out vp where out: "sample_resolve [import_a, import_b] = Ok out"
    and vp: "pack_validate sample_kernel sample_pcodec out sample_catalog = Ok vp"
    using sample_resolves sample_validates unfolding sample_validate_def by (elim exE conjE) simp
  from pack_validation_sound [OF out [unfolded sample_resolve_def], of sample_kernel sample_catalog] vp out
  show ?thesis by blast
qed

section \<open>Diamonds of imports\<close>

text \<open>
  What a part of a resolution does to the packs it has finished and to their ceilings, as long as
  every alias names one pack.
\<close>

definition pack_has_imports :: "'s pack_codec \<Rightarrow> 's pack_dir \<Rightarrow> content_id \<Rightarrow> 's pack_import list \<Rightarrow> bool" where
  "pack_has_imports P dir i imps \<longleftrightarrow> (\<exists>pack. fetch_pack dir i = Ok pack \<and> typed_imports P pack = Ok imps)"

definition aliases_agree :: "('s \<Rightarrow> content_id) \<Rightarrow> ('s::linorder, content_id) btmap \<Rightarrow> bool" where
  "aliases_agree target m \<longleftrightarrow> (\<forall>k v. bt_get m k = Some v \<longrightarrow> v = target k)"

definition visit_at ::
  "('s \<Rightarrow> content_id) \<Rightarrow> content_id fset \<Rightarrow> (content_id \<rightharpoonup> 's fset) \<Rightarrow> ('s::linorder) pack_visit_state \<Rightarrow> bool" where
  "visit_at target D ceilings st \<longleftrightarrow>
     vi_done st = D \<and> ceiling_of (vi_out st) = ceilings \<and> aliases_agree target (vi_aliases st)"

definition visit_leads ::
  "('s \<Rightarrow> content_id) \<Rightarrow> ('s pack_visit_state \<Rightarrow> ('s resolve_error, ('s::linorder) pack_visit_state) outcome)
     \<Rightarrow> content_id fset \<Rightarrow> (content_id \<rightharpoonup> 's fset) \<Rightarrow> content_id fset \<Rightarrow> (content_id \<rightharpoonup> 's fset) \<Rightarrow> bool" where
  "visit_leads target g D ceilings D' ceilings' \<longleftrightarrow>
     (\<forall>st. visit_at target D ceilings st \<longrightarrow> (\<exists>st'. g st = Ok st' \<and> visit_at target D' ceilings' st'))"

abbreviation (input) visit_imports ::
  "nat \<Rightarrow> 's pack_codec \<Rightarrow> 's pack_dir \<Rightarrow> 's fset \<Rightarrow> content_id list \<Rightarrow> 's pack_import list \<Rightarrow> ('s::linorder) pack_visit_state
     \<Rightarrow> ('s resolve_error, 's pack_visit_state) outcome" where
  "visit_imports n P dir ceil stack imps st \<equiv> try_fold (\<lambda>st im. bind_o (enter_alias im st)
     (\<lambda>st. pack_visit n P dir (im_content im) (ceil |\<inter>| im_ceiling im) stack st)) st imps"

lemma enter_alias_at:
  assumes "visit_at target D ceilings st" "im_content im = target (im_alias im)"
  shows "\<exists>st'. enter_alias im st = Ok st' \<and> visit_at target D ceilings st'"
  using assms by (auto simp: enter_alias_def visit_at_def aliases_agree_def split: option.split)

lemma visit_again:
  assumes "i \<notin> set stack" "i |\<in>| D" "ceilings i = Some prior"
  shows "visit_leads target (pack_visit (Suc n) P dir i ceil stack) D ceilings D (ceilings(i \<mapsto> prior |\<inter>| ceil))"
  using assms
  by (auto simp: visit_leads_def visit_at_def pack_visit.simps(2) narrow_done_def ceiling_of_def fun_eq_iff)

lemma visit_no_imports: "visit_leads target (visit_imports n P dir ceil stack []) D ceilings D ceilings"
  by (simp add: visit_leads_def)

lemma visit_import:
  assumes "im_content im = target (im_alias im)"
    and "visit_leads target (pack_visit n P dir (im_content im) (ceil |\<inter>| im_ceiling im) stack) D ceilings D1 ceilings1"
    and "visit_leads target (visit_imports n P dir ceil stack imps) D1 ceilings1 D2 ceilings2"
  shows "visit_leads target (visit_imports n P dir ceil stack (im # imps)) D ceilings D2 ceilings2"
  unfolding visit_leads_def
proof (intro allI impI)
  fix st assume "visit_at target D ceilings st"
  from enter_alias_at [OF this assms(1)] obtain st0 where st0: "enter_alias im st = Ok st0" "visit_at target D ceilings st0"
    by blast
  from assms(2) st0(2) obtain st1 where st1: "visit_at target D1 ceilings1 st1"
    "pack_visit n P dir (im_content im) (ceil |\<inter>| im_ceiling im) stack st0 = Ok st1" by (auto simp: visit_leads_def)
  from assms(3) st1(1) obtain st2 where "visit_imports n P dir ceil stack imps st1 = Ok st2"
    "visit_at target D2 ceilings2 st2" by (auto simp: visit_leads_def)
  with st0 st1 show "\<exists>st'. visit_imports n P dir ceil stack (im # imps) st = Ok st' \<and> visit_at target D2 ceilings2 st'"
    by simp
qed

lemma visit_new:
  assumes "pack_has_imports P dir i imps" "i \<notin> set stack" "i |\<notin>| D"
    and "visit_leads target (visit_imports n P dir ceil (stack @ [i]) imps) D ceilings D1 ceilings1"
  shows "visit_leads target (pack_visit (Suc n) P dir i ceil stack) D ceilings (finsert i D1) (ceilings1(i \<mapsto> ceil))"
  unfolding visit_leads_def
proof (intro allI impI)
  fix st assume at: "visit_at target D ceilings st"
  from assms(1) obtain pack where pack: "fetch_pack dir i = Ok pack" "typed_imports P pack = Ok imps"
    by (auto simp: pack_has_imports_def)
  from assms(4) at obtain st1 where st1: "visit_imports n P dir ceil (stack @ [i]) imps st = Ok st1"
    "visit_at target D1 ceilings1 st1" by (auto simp: visit_leads_def)
  have "i |\<notin>| vi_done st" using at assms(3) by (simp add: visit_at_def)
  then have "pack_visit (Suc n) P dir i ceil stack st = Ok (finish_pack i ceil pack st1)"
    using pack st1(1) assms(2) by (simp add: pack_visit.simps(2))
  moreover have "visit_at target (finsert i D1) (ceilings1(i \<mapsto> ceil)) (finish_pack i ceil pack st1)"
    using st1(2) by (auto simp: visit_at_def finish_pack_def ceiling_of_def fun_eq_iff)
  ultimately show "\<exists>st'. pack_visit (Suc n) P dir i ceil stack st = Ok st'
      \<and> visit_at target (finsert i D1) (ceilings1(i \<mapsto> ceil)) st'" by blast
qed

lemma visit_resolves:
  assumes "visit_leads target (pack_visit n P dir root ceil []) {||} Map.empty D ceilings"
  shows "\<exists>out. pack_resolve n P dir root ceil = Ok out \<and> ceiling_of out = ceilings"
proof -
  let ?st = "\<lparr>vi_done = {||}, vi_aliases = bt_empty, vi_out = \<lparr>rp_root = root, rp_packs = [], rp_ceilings = bt_empty\<rparr>\<rparr>"
  have "visit_at target {||} Map.empty ?st" by (simp add: visit_at_def aliases_agree_def ceiling_of_def fun_eq_iff)
  with assms obtain st where "pack_visit n P dir root ceil [] ?st = Ok st" "visit_at target D ceilings st"
    by (auto simp: visit_leads_def)
  then show ?thesis by (auto simp: pack_resolve_def visit_at_def)
qed

lemma visit_chain:
  assumes "pack_has_imports P dir a [iac]" "pack_has_imports P dir c []" "im_content iac = c" "c = target (im_alias iac)"
    and "a \<notin> set stack" "c \<notin> set stack" "a |\<notin>| D" "c |\<notin>| D" "a \<noteq> c"
  shows "visit_leads target (pack_visit (Suc (Suc n)) P dir a ceil stack) D ceilings
     (finsert a (finsert c D)) (ceilings(c \<mapsto> ceil |\<inter>| im_ceiling iac, a \<mapsto> ceil))"
proof (rule visit_new [OF assms(1,5,7)])
  have "visit_leads target (pack_visit (Suc n) P dir c (ceil |\<inter>| im_ceiling iac) (stack @ [a])) D ceilings
      (finsert c D) (ceilings(c \<mapsto> ceil |\<inter>| im_ceiling iac))"
    using assms(6,8,9) by (intro visit_new [OF assms(2)] visit_no_imports) simp_all
  then show "visit_leads target (visit_imports (Suc n) P dir ceil (stack @ [a]) [iac]) D ceilings
      (finsert c D) (ceilings(c \<mapsto> ceil |\<inter>| im_ceiling iac))"
    using assms(3,4) by (intro visit_import [OF _ _ visit_no_imports]) simp_all
qed

lemma four_levels: "4 \<le> n \<Longrightarrow> \<exists>m. n = Suc (Suc (Suc (Suc m)))"
  by (rule exI [of _ "n - 4"]) simp

lemma diamond_a_first:
  assumes "distinct [root, a, b, c]"
    and "pack_has_imports P dir root [ia, ib]"
    and "pack_has_imports P dir a [iac]" "pack_has_imports P dir b [iba]" "pack_has_imports P dir c []"
    and "im_content ia = a" "im_content ib = b" "im_content iba = a" "im_content iac = c"
    and target: "\<forall>im \<in> {ia, ib, iba, iac}. im_content im = target (im_alias im)"
    and "4 \<le> n"
  shows "\<exists>out. pack_resolve n P dir root ceil = Ok out
     \<and> ceiling_of out a = Some (ceil |\<inter>| im_ceiling ia |\<inter>| (ceil |\<inter>| im_ceiling ib |\<inter>| im_ceiling iba))
     \<and> ceiling_of out c = Some (ceil |\<inter>| im_ceiling ia |\<inter>| im_ceiling iac)"
proof -
  from four_levels [OF assms(11)] obtain m where n: "n = Suc (Suc (Suc (Suc m)))" by blast
  let ?a = "ceil |\<inter>| im_ceiling ia" and ?b = "ceil |\<inter>| im_ceiling ib"
  let ?f = "Map.empty(c \<mapsto> ?a |\<inter>| im_ceiling iac, a \<mapsto> ?a)"
  let ?g = "?f(a \<mapsto> ?a |\<inter>| (?b |\<inter>| im_ceiling iba))"
  have first: "visit_leads target (pack_visit (Suc (Suc (Suc m))) P dir (im_content ia) ?a [root]) {||} Map.empty
      {|a, c|} ?f"
    unfolding assms(6) using assms(1) target by (intro visit_chain [OF assms(3,5,9)]) (auto simp: assms(9) [symmetric])
  have again: "visit_leads target (pack_visit (Suc (Suc m)) P dir (im_content iba) (?b |\<inter>| im_ceiling iba) ([root] @ [b]))
      {|a, c|} ?f {|a, c|} ?g"
    unfolding assms(8) using assms(1) by (intro visit_again) auto
  have "visit_leads target (pack_visit (Suc (Suc (Suc m))) P dir (im_content ib) ?b [root]) {|a, c|} ?f
      {|b, a, c|} (?g(b \<mapsto> ?b))"
    unfolding assms(7) using assms(1) target
    by (intro visit_new [OF assms(4) _ _ visit_import [OF _ again visit_no_imports]]) auto
  from visit_import [OF _ first visit_import [OF _ this visit_no_imports]] target
  have "visit_leads target (visit_imports (Suc (Suc (Suc m))) P dir ceil ([] @ [root]) [ia, ib]) {||} Map.empty
      {|b, a, c|} (?g(b \<mapsto> ?b))" by simp
  from visit_resolves [OF visit_new [OF assms(2) _ _ this]] show ?thesis
    using assms(1) by (auto simp: n)
qed

lemma diamond_b_first:
  assumes "distinct [root, a, b, c]"
    and "pack_has_imports P dir root [ib, ia]"
    and "pack_has_imports P dir a [iac]" "pack_has_imports P dir b [iba]" "pack_has_imports P dir c []"
    and "im_content ia = a" "im_content ib = b" "im_content iba = a" "im_content iac = c"
    and target: "\<forall>im \<in> {ia, ib, iba, iac}. im_content im = target (im_alias im)"
    and "4 \<le> n"
  shows "\<exists>out. pack_resolve n P dir root ceil = Ok out
     \<and> ceiling_of out a = Some (ceil |\<inter>| im_ceiling ib |\<inter>| im_ceiling iba |\<inter>| (ceil |\<inter>| im_ceiling ia))
     \<and> ceiling_of out c = Some (ceil |\<inter>| im_ceiling ib |\<inter>| im_ceiling iba |\<inter>| im_ceiling iac)"
proof -
  from four_levels [OF assms(11)] obtain m where n: "n = Suc (Suc (Suc (Suc m)))" by blast
  let ?b = "ceil |\<inter>| im_ceiling ib" let ?ba = "?b |\<inter>| im_ceiling iba"
  let ?f = "Map.empty(c \<mapsto> ?ba |\<inter>| im_ceiling iac, a \<mapsto> ?ba)"
  have "visit_leads target (pack_visit (Suc (Suc m)) P dir (im_content iba) ?ba ([root] @ [b])) {||} Map.empty
      {|a, c|} ?f"
    unfolding assms(8) using assms(1) target by (intro visit_chain [OF assms(3,5,9)]) (auto simp: assms(9) [symmetric])
  then have first: "visit_leads target (pack_visit (Suc (Suc (Suc m))) P dir (im_content ib) ?b [root]) {||} Map.empty
      {|b, a, c|} (?f(b \<mapsto> ?b))"
    unfolding assms(7) using assms(1) target by (intro visit_new [OF assms(4) _ _ visit_import [OF _ _ visit_no_imports]]) auto
  have "visit_leads target (pack_visit (Suc (Suc (Suc m))) P dir (im_content ia) (ceil |\<inter>| im_ceiling ia) [root])
      {|b, a, c|} (?f(b \<mapsto> ?b)) {|b, a, c|} (?f(b \<mapsto> ?b, a \<mapsto> ?ba |\<inter>| (ceil |\<inter>| im_ceiling ia)))"
    unfolding assms(6) using assms(1) by (intro visit_again) auto
  from visit_import [OF _ first visit_import [OF _ this visit_no_imports]] target
  have "visit_leads target (visit_imports (Suc (Suc (Suc m))) P dir ceil ([] @ [root]) [ib, ia]) {||} Map.empty
      {|b, a, c|} (?f(b \<mapsto> ?b, a \<mapsto> ?ba |\<inter>| (ceil |\<inter>| im_ceiling ia)))" by simp
  from visit_resolves [OF visit_new [OF assms(2) _ _ this]] show ?thesis
    using assms(1) by (auto simp: n)
qed

lemma reject_b_first:
  "(case sample_validate [import_b, import_a] of
       Err (VAuthorityWidening i c) \<Rightarrow> i = sample_id (CHR ''c'') \<and> c = [''write''] | _ \<Rightarrow> False)"
  by code_simp

text \<open>
  C40: The ceiling of a transitive import depends on the order of imports. Take a root that imports
  \<open>a\<close> and \<open>b\<close>, where \<open>b\<close> imports \<open>a\<close> again and \<open>a\<close> imports \<open>c\<close>, with no other imports and every alias
  naming one pack, whatever else the packs hold and whatever the ceilings are. Both orders of the root's imports resolve and give \<open>a\<close> the intersection
  of all ceilings on its two paths. The second visit of \<open>a\<close> does not reach \<open>c\<close>, though: with \<open>a\<close>
  first, \<open>c\<close> keeps everything the path through \<open>a\<close> alone allows, with \<open>b\<close> first everything the path
  through \<open>b\<close> allows.
\<close>
theorem ceilings_depend_on_import_order:
  assumes "distinct [root, a, b, c]"
    and "pack_has_imports P dir root [ia, ib]" "pack_has_imports P dir' root [ib, ia]"
    and "\<forall>i. i \<noteq> root \<longrightarrow> dir' i = dir i"
    and "pack_has_imports P dir a [iac]" "pack_has_imports P dir b [iba]" "pack_has_imports P dir c []"
    and "im_content ia = a" "im_content ib = b" "im_content iba = a" "im_content iac = c"
    and "\<forall>im \<in> {ia, ib, iba, iac}. im_content im = target (im_alias im)"
    and "4 \<le> n"
  shows "\<exists>out out'. pack_resolve n P dir root ceil = Ok out \<and> pack_resolve n P dir' root ceil = Ok out'
     \<and> ceiling_of out a = Some (ceil |\<inter>| im_ceiling ia |\<inter>| im_ceiling ib |\<inter>| im_ceiling iba)
     \<and> ceiling_of out' a = ceiling_of out a
     \<and> ceiling_of out c = Some (ceil |\<inter>| im_ceiling ia |\<inter>| im_ceiling iac)
     \<and> ceiling_of out' c = Some (ceil |\<inter>| im_ceiling ib |\<inter>| im_ceiling iba |\<inter>| im_ceiling iac)"
proof -
  from diamond_a_first [OF assms(1,2,5-13)] obtain out where out: "pack_resolve n P dir root ceil = Ok out"
    "ceiling_of out a = Some (ceil |\<inter>| im_ceiling ia |\<inter>| (ceil |\<inter>| im_ceiling ib |\<inter>| im_ceiling iba))"
    "ceiling_of out c = Some (ceil |\<inter>| im_ceiling ia |\<inter>| im_ceiling iac)" by blast
  have "pack_has_imports P dir' i imps \<longleftrightarrow> pack_has_imports P dir i imps" if "i \<noteq> root" for i imps
    using assms(4) that by (simp add: pack_has_imports_def fetch_pack_def)
  then have "pack_has_imports P dir' a [iac]" "pack_has_imports P dir' b [iba]" "pack_has_imports P dir' c []"
    using assms(1,5-7) by auto
  from diamond_b_first [OF assms(1,3) this assms(8-13)] obtain out' where
    "pack_resolve n P dir' root ceil = Ok out'"
    "ceiling_of out' a = Some (ceil |\<inter>| im_ceiling ib |\<inter>| im_ceiling iba |\<inter>| (ceil |\<inter>| im_ceiling ia))"
    "ceiling_of out' c = Some (ceil |\<inter>| im_ceiling ib |\<inter>| im_ceiling iba |\<inter>| im_ceiling iac)" by blast
  with out show ?thesis by (intro exI [of _ out] exI [of _ out']) auto
qed

lemma pack_has_importsI:
  "(case fetch_pack dir i of Ok pack \<Rightarrow> typed_imports P pack = Ok imps | _ \<Rightarrow> False) \<Longrightarrow> pack_has_imports P dir i imps"
  by (auto simp: pack_has_imports_def split: outcome.splits)

definition parsed_import :: "char \<Rightarrow> psym list \<Rightarrow> psym pack_import" where
  "parsed_import c ceil = \<lparr>im_alias = [[c]], im_content = sample_id c, im_ceiling = fset_of_list ceil\<rparr>"

lemma sample_has_imports:
  "pack_has_imports sample_pcodec (sample_dir [import_a, import_b]) (sample_id (CHR ''d''))
     [parsed_import (CHR ''a'') [[''read''], [''write'']], parsed_import (CHR ''b'') [[''read''], [''write'']]]"
  "pack_has_imports sample_pcodec (sample_dir [import_b, import_a]) (sample_id (CHR ''d''))
     [parsed_import (CHR ''b'') [[''read''], [''write'']], parsed_import (CHR ''a'') [[''read''], [''write'']]]"
  "pack_has_imports sample_pcodec (sample_dir [import_a, import_b]) (sample_id (CHR ''a''))
     [parsed_import (CHR ''c'') [[''read''], [''write'']]]"
  "pack_has_imports sample_pcodec (sample_dir [import_a, import_b]) (sample_id (CHR ''b''))
     [parsed_import (CHR ''a'') [[''read'']]]"
  "pack_has_imports sample_pcodec (sample_dir [import_a, import_b]) (sample_id (CHR ''c'')) []"
  by (rule pack_has_importsI, code_simp)+

text \<open>On the sample the difference decides: validation admits one order and refuses the other.\<close>

theorem ceilings_depend_on_import_order_witness:
  "\<exists>out out'. sample_resolve [import_a, import_b] = Ok out \<and> sample_resolve [import_b, import_a] = Ok out'
     \<and> ceiling_of out (sample_id (CHR ''a'')) = Some {|[''read'']|}
     \<and> ceiling_of out (sample_id (CHR ''c'')) = Some {|[''read''], [''write'']|}
     \<and> ceiling_of out' (sample_id (CHR ''c'')) = Some {|[''read'']|}
     \<and> (\<exists>vp. pack_validate sample_kernel sample_pcodec out sample_catalog = Ok vp)
     \<and> pack_validate sample_kernel sample_pcodec out' sample_catalog
         = Err (VAuthorityWidening (sample_id (CHR ''c'')) [''write''])"
proof -
  let ?a = "parsed_import (CHR ''a'') [[''read''], [''write'']]" and ?b = "parsed_import (CHR ''b'') [[''read''], [''write'']]"
  let ?ba = "parsed_import (CHR ''a'') [[''read'']]" and ?c = "parsed_import (CHR ''c'') [[''read''], [''write'']]"
  have "distinct [sample_id (CHR ''d''), sample_id (CHR ''a''), sample_id (CHR ''b''), sample_id (CHR ''c'')]"
    by (simp add: sample_id_def)
  moreover have "\<forall>i. i \<noteq> sample_id (CHR ''d'') \<longrightarrow> sample_dir [import_b, import_a] i = sample_dir [import_a, import_b] i"
    by (simp add: sample_dir_def)
  moreover have "\<forall>im \<in> {?a, ?b, ?ba, ?c}. im_content im = (\<lambda>s. sample_id (hd (hd s))) (im_alias im)"
    by (simp add: parsed_import_def)
  ultimately obtain out out' where out: "sample_resolve [import_a, import_b] = Ok out" "sample_resolve [import_b, import_a] = Ok out'"
    "ceiling_of out (sample_id (CHR ''a'')) = Some {|[''read'']|}"
    "ceiling_of out (sample_id (CHR ''c'')) = Some {|[''read''], [''write'']|}"
    "ceiling_of out' (sample_id (CHR ''c'')) = Some {|[''read'']|}"
    using ceilings_depend_on_import_order [OF _ sample_has_imports(1,2) _ sample_has_imports(3-5),
        of "\<lambda>s. sample_id (hd (hd s))" 5 "{|[''read''], [''write'']|}"]
    by (auto simp: sample_resolve_def parsed_import_def)
  moreover have "\<exists>vp. pack_validate sample_kernel sample_pcodec out sample_catalog = Ok vp"
    using sample_validates out(1) by (auto simp: sample_validate_def)
  moreover have "pack_validate sample_kernel sample_pcodec out' sample_catalog
      = Err (VAuthorityWidening (sample_id (CHR ''c'')) [''write''])"
    using reject_b_first out(2) by (simp add: sample_validate_def split: outcome.splits validation_error.splits)
  ultimately show ?thesis by blast
qed

end
