(* ===== verification/Spec2Isabelle.thy ===== *)
theory Spec2Isabelle
  imports Roadmap_Theorems Exec_Theorems Deck_Theorems Refine_Theorems Plan_Theorems Conduct_Theorems
    Continuity_Theorems Pack_Theorems
begin

text \<open>
  A verification of the pure core of \<open>sim-agent-net\<close>, a Rust workspace of crates under
  \<open>src/crates/\<close> for agents that plan, execute and resume work over a network of services.

  \<^bold>\<open>The program.\<close> Most of the workspace adapts the external evaluator \<open>sim-kernel\<close> to transports,
  model providers and protocols. Its own logic is in effect-free crates, on which the others build:

  \<^item> Roadmaps: \<open>sim-roadmap-core\<close> validates and admits a tree of phases and gives a revision of it a
    content identity; \<open>sim-source-deck\<close> builds a deck of evidence from repository snapshots;
    \<open>sim-roadmap-refine\<close> replaces a leaf of a revision by smaller children; \<open>sim-roadmap-plan\<close>
    compiles a revision against a deck and computes which phases are ready;
    \<open>sim-roadmap-exec-core\<close> reduces the events of one phase execution to its state and decides
    retries and fallbacks.
  \<^item> Agent conduct: \<open>sim-lib-agent-conduct-core\<close> keeps a run as a hash-linked journal behind a store
    trait, with budgets, suspension, resumption and replay.
  \<^item> Continuity: \<open>sim-lib-continuity\<close> reduces the events of a session to a fenced journal of turns
    under a policy of routes, services and disclosure.
  \<^item> Capability packs: \<open>sim-lib-capability-pack\<close> resolves content-addressed packs with capability
    ceilings, validates the closure and loads it.

  \<^bold>\<open>How code is modelled.\<close> \<open>Prelude\<close> has \<open>outcome\<close>, the result of a Rust call: \<open>Ok\<close> and \<open>Err\<close> are
  \<open>Result\<close>, \<open>Panic\<close> is an unwinding panic and \<open>Diverge\<close> a recursion that does not return. \<open>bind_o\<close> is
  the \<open>?\<close> operator, \<open>try_fold\<close> and \<open>for_each\<close> are loops whose body uses it; a method on \<open>&mut self\<close>
  returns the new state. \<open>BTreeMap\<close> is \<open>btmap\<close>, a sorted association list; \<open>BTreeSet\<close> is \<open>fset\<close>;
  \<open>String\<close> is its UTF-8 bytes (\<open>Rust_Text\<close> has the text functions the sources use); \<open>u32\<close> and \<open>u64\<close>
  are words, and where the sources use unchecked arithmetic a flag \<open>checks\<close> selects the build that
  panics on overflow or the one that wraps. Lengths are naturals.

  Code outside the repository is a parameter: the kernel's symbols, content identities and
  \<open>content_id\<close> function are the record \<open>kernel\<close> (\<open>Kernel\<close>), its expressions and the parts of a symbol
  are in \<open>Kernel_Expr\<close>, the field codec of \<open>sim-citizen\<close> is the record \<open>field_codec\<close>
  (\<open>Citizen_Fields\<close>), and traits a host implements are records of functions. What a theorem needs of
  them is a hypothesis, named where it is defined, and a sample instance (\<open>Roadmap_Samples\<close>,
  \<open>Kernel_Samples\<close>) shows that it can hold.

  \<^bold>\<open>Theories, sources and what is shown.\<close>

  \<^item> \<open>Roadmap_Types\<close>, \<open>Roadmap_Tree\<close>, \<open>Roadmap_Admit\<close>, \<open>Roadmap_Validation\<close>, \<open>Roadmap_Datum\<close> model
    \<open>sim-roadmap-core/src\<close> (\<open>types.rs\<close>, \<open>id.rs\<close>, \<open>path.rs\<close>, \<open>completion.rs\<close>; \<open>tree.rs\<close>; \<open>admit.rs\<close>,
    \<open>inheritance.rs\<close>; \<open>validation.rs\<close>; \<open>datum.rs\<close>). \<open>Roadmap_Theorems\<close>: a validated specification is
    one tree within its limits, authority never widens along it, obligations are covered exactly
    once, no phase filed under its own id waits for itself, admission returns, validation accepts
    exactly the well-formed specifications, and the canonical form determines a revision.
  \<^item> \<open>Exec_Model\<close>, \<open>Exec_Reduce\<close>, \<open>Exec_Recovery\<close> model \<open>sim-roadmap-exec-core/src\<close>. \<open>Exec_Theorems\<close>:
    the reducer refines an abstract phase machine and is complete for it, success is earned and
    reachable, a mandatory unresolved proof is final, mutation plans are canonical, recovery is
    bounded.
  \<^item> \<open>Deck_Types\<close>, \<open>Deck_Build\<close> model \<open>sim-source-deck/src\<close>. \<open>Deck_Theorems\<close>: every row of a deck
    rests on verified bytes; the identity of a deck conflates some repositories.
  \<^item> \<open>Refine_Model\<close>, \<open>Refine_Apply\<close> model \<open>sim-roadmap-refine/src\<close>. \<open>Refine_Theorems\<close>: a refinement
    is local, its certificate verifies and counts the work of the leaf and of its children, its
    coverage is exact, and refinement ends because profiles descend in a well-founded order.
  \<^item> \<open>Plan_Model\<close>, \<open>Plan_Facts\<close> model \<open>sim-roadmap-plan/src\<close>. \<open>Plan_Theorems\<close>: plans cover the
    roadmap, rest on the deck, and the ready set is exact; cyclic requirements deadlock.
  \<^item> \<open>Conduct_Usage\<close>, \<open>Conduct_Records\<close>, \<open>Conduct_Sha256\<close>, \<open>Conduct_Journal\<close>, \<open>Conduct_Lifecycle\<close>
    model \<open>sim-lib-agent-conduct-core/src\<close>; \<open>Journal_Facts\<close> has the hash chains. The locales
    \<open>journal_store\<close> and \<open>complete_store\<close> are the contract of \<open>AgentJournalStore\<close>, interpreted on the
    in-memory store. \<open>Conduct_Theorems\<close>: journals are hash chains pinned by their head, runs stay in
    step with their store, suspended runs resume, histories are append-only, a refused append leaves
    a run ahead of its store, budgets bind.
  \<^item> \<open>Continuity_Model\<close>, \<open>Continuity_Facts\<close> model \<open>sim-lib-continuity/src\<close>. The locale
    \<open>fenced_journal\<close> is the contract of \<open>ContinuityJournal\<close>, interpreted on the in-memory journal.
    \<open>Continuity_Theorems\<close>: rebuilding is exact, sessions stay consistent, policy is enforced.
  \<^item> \<open>Pack_Model\<close>, \<open>Pack_Facts\<close> model \<open>sim-lib-capability-pack/src\<close>. \<open>Pack_Theorems\<close>: resolution is
    sound and returns, validation is sound; in a diamond of imports ceilings depend on their order.

  \<^bold>\<open>Fuel.\<close> Recursions that are not structural carry fuel and take the value \<open>Diverge\<close> when it is
  spent. Admission runs with the tree depth of the validated specification, aggregate completion and
  the authored order with the number of phases and one more, pack resolution with the number of
  packs of the directory and one more. In each case a theorem shows that this fuel is enough, so no
  statement about a result is vacuous. The other recursions are total functions with a termination
  proof.

  \<^bold>\<open>Not modelled.\<close> Networking, process and file I/O (\<open>runner-http\<close>, \<open>runner-process\<close>, \<open>mcp-http\<close>,
  \<open>mcp-stdio\<close>, \<open>search-http\<close>, \<open>web-fetch\<close>, \<open>server\<close>), code that is mostly calls into the external
  evaluator (\<open>sim-lib-agent\<close>, \<open>forge\<close>, \<open>skill\<close>, \<open>cookbook\<close>), provider JSON, and the registration of
  citizens. Within modelled crates: \<open>AcceptanceStatement::as_claim\<close>, which builds a value of an
  external type, and the derived \<open>Citizen\<close> encodings of whole records, which are parameters.

  \<^bold>\<open>Left for later.\<close> The OAuth core, the transport fault model, search, bridge packets and the roadmap
  runner's ledgers.
\<close>

end
